(* ===== verification/Rpchat_Prelude.thy ===== *)
theory Rpchat_Prelude
  imports Main "HOL-Library.Word"
begin

text \<open>
  Prelude of the rpchat development: the machine types and return codes every component
  shares, the program monad the C functions are translated into, and its weakest
  precondition calculus.

  A C function that works on a state of type \<open>'s\<close> is a \<open>('s, 'a) prog\<close>, a function from
  the state before the call to what the call does:
  \<^item> \<open>None\<close>: the call never returns, because it waits for a lock that is held or because a
    loop of it does not end;
  \<^item> \<open>Some (Inl e)\<close>: the call runs into undefined behaviour, into a failing \<open>assert\<close> or
    into a signal that ends the process, the kind is \<open>e\<close>;
  \<^item> \<open>Some (Inr (a, s'))\<close>: the call returns \<open>a\<close> and leaves the state \<open>s'\<close>.

  \<open>wp m E Q s\<close> says that running \<open>m\<close> from \<open>s\<close> ends, if it ends, in a fault that \<open>E\<close>
  allows or in a result that satisfies \<open>Q\<close>. Its equations are collected in
  \<open>wp_simps\<close>.
\<close>

named_theorems wp_simps \<open>equations that compute weakest preconditions\<close>
named_theorems run_simps \<open>equations that run a program on a known state\<close>

subsection \<open>Machine types and return codes\<close>

type_synonym byte = "8 word"
type_synonym addr = nat

abbreviation (input) NULL :: addr where
  "NULL \<equiv> 0"

text \<open>
  \<open>return_code_t\<close>. The code mixes these with booleans, with \<open>errno\<close>-style results of system
  calls and with the enumerators of other types, so they are kept as C's \<open>int\<close>.
\<close>

abbreviation (input) RPLIB_ERROR :: int where
  "RPLIB_ERROR \<equiv> - 1"

abbreviation (input) RPLIB_SUCCESS :: int where
  "RPLIB_SUCCESS \<equiv> 0"

abbreviation (input) RPLIB_UNSUCCESS :: int where
  "RPLIB_UNSUCCESS \<equiv> 1"

subsection \<open>The program monad\<close>

datatype fault = NullDeref | UseAfterFree | DoubleFree | AssertFailed | OutOfBounds | BufferOverrun | Killed | BadThread

type_synonym ('s, 'a) prog = "'s \<Rightarrow> (fault + 'a \<times> 's) option"

definition returnM :: "'a \<Rightarrow> ('s, 'a) prog" where
  "returnM a s = Some (Inr (a, s))"

definition faultM :: "fault \<Rightarrow> ('s, 'a) prog" where
  "faultM e s = Some (Inl e)"

definition blockM :: "('s, 'a) prog" where
  "blockM s = None"

definition bindM :: "('s, 'a) prog \<Rightarrow> ('a \<Rightarrow> ('s, 'b) prog) \<Rightarrow> ('s, 'b) prog" where
  "bindM m f s =
     (case m s of
        None \<Rightarrow> None
      | Some (Inl e) \<Rightarrow> Some (Inl e)
      | Some (Inr (a, s')) \<Rightarrow> f a s')"

definition thenM :: "('s, 'a) prog \<Rightarrow> ('s, 'b) prog \<Rightarrow> ('s, 'b) prog" where
  "thenM m n = bindM m (\<lambda>_. n)"

definition getsM :: "('s \<Rightarrow> 'a) \<Rightarrow> ('s, 'a) prog" where
  "getsM f s = Some (Inr (f s, s))"

definition modifyM :: "('s \<Rightarrow> 's) \<Rightarrow> ('s, unit) prog" where
  "modifyM f s = Some (Inr ((), f s))"

definition assertM :: "bool \<Rightarrow> ('s, unit) prog" where
  "assertM b = (if b then returnM () else faultM AssertFailed)"

text \<open>\<open>zoomM\<close> runs a program of a component on that component's part of a larger state.\<close>

definition zoomM :: "('s \<Rightarrow> 't) \<Rightarrow> ('t \<Rightarrow> 's \<Rightarrow> 's) \<Rightarrow> ('t, 'a) prog \<Rightarrow> ('s, 'a) prog" where
  "zoomM get put m s =
     (case m (get s) of
        None \<Rightarrow> None
      | Some (Inl e) \<Rightarrow> Some (Inl e)
      | Some (Inr (a, t)) \<Rightarrow> Some (Inr (a, put t s)))"

text \<open>Running a program on a known state.\<close>

lemma run_returnM [run_simps]: "returnM a s = Some (Inr (a, s))"
  by (simp add: returnM_def)

lemma run_faultM [run_simps]: "faultM e s = Some (Inl e)"
  by (simp add: faultM_def)

lemma run_blockM [run_simps]: "blockM s = None"
  by (simp add: blockM_def)

lemma run_getsM [run_simps]: "getsM f s = Some (Inr (f s, s))"
  by (simp add: getsM_def)

lemma run_modifyM [run_simps]: "modifyM f s = Some (Inr ((), f s))"
  by (simp add: modifyM_def)

lemma run_assertM [run_simps]:
  "assertM b s = (if b then Some (Inr ((), s)) else Some (Inl AssertFailed))"
  by (simp add: assertM_def run_simps)

lemmas run_bindM [run_simps] = bindM_def
lemmas run_zoomM [run_simps] = zoomM_def

lemma run_thenM [run_simps]: "thenM m n s = bindM m (\<lambda>_. n) s"
  by (simp add: thenM_def)

lemma bindM_return: "m s = Some (Inr (a, s')) \<Longrightarrow> bindM m f s = f a s'"
  by (simp add: bindM_def)

lemma bindM_fault: "m s = Some (Inl e) \<Longrightarrow> bindM m f s = Some (Inl e)"
  by (simp add: bindM_def)

lemma bindM_None: "m s = None \<Longrightarrow> bindM m f s = None"
  by (simp add: bindM_def)

lemma thenM_return: "m s = Some (Inr (a, s')) \<Longrightarrow> thenM m n s = n s'"
  by (simp add: thenM_def bindM_def)

lemma thenM_fault: "m s = Some (Inl e) \<Longrightarrow> thenM m n s = Some (Inl e)"
  by (simp add: thenM_def bindM_def)

lemma thenM_None: "m s = None \<Longrightarrow> thenM m n s = None"
  by (simp add: thenM_def bindM_def)

lemma zoomM_return:
  "m (get s) = Some (Inr (a, t)) \<Longrightarrow> zoomM get put m s = Some (Inr (a, put t s))"
  by (simp add: zoomM_def)

lemma zoomM_fault: "m (get s) = Some (Inl e) \<Longrightarrow> zoomM get put m s = Some (Inl e)"
  by (simp add: zoomM_def)

lemma zoomM_None: "m (get s) = None \<Longrightarrow> zoomM get put m s = None"
  by (simp add: zoomM_def)

text \<open>The monad laws.\<close>

lemma bindM_returnM_left: "bindM (returnM a) f = f a"
  by (rule ext) (simp add: bindM_def returnM_def)

lemma bindM_returnM_right: "bindM m returnM = m"
  by (rule ext) (simp add: bindM_def returnM_def split: option.splits sum.splits)

lemma bindM_assoc: "bindM (bindM m f) g = bindM m (\<lambda>a. bindM (f a) g)"
  by (rule ext) (simp add: bindM_def split: option.splits sum.splits)

text \<open>
  Loops are \<open>partial_function (option)\<close> definitions; the recursive call sits under
  \<^const>\<open>bindM\<close>, which is monotone in its continuation.
\<close>

lemma bindM_mono [partial_function_mono]:
  fixes C :: "('x \<Rightarrow> 'y option) \<Rightarrow> 'a \<Rightarrow> ('s, 'b) prog"
  assumes "\<And>a t. mono_option (\<lambda>f. C f a t)"
  shows "mono_option (\<lambda>f. bindM m (C f) s)"
proof (rule monotoneI)
  fix f g :: "'x \<Rightarrow> 'y option"
  assume fg: "fun_ord option_ord f g"
  have C: "option_ord (C f a t) (C g a t)" for a t
    using assms [THEN monotoneD, OF fg] .
  show "option_ord (bindM m (C f) s) (bindM m (C g) s)"
  proof (cases "m s")
    case None
    then show ?thesis by (simp add: run_simps option.leq_refl)
  next
    case (Some r)
    then show ?thesis using C
      by (cases r) (auto simp: run_simps option.leq_refl)
  qed
qed

subsection \<open>Weakest preconditions\<close>

definition wp :: "('s, 'a) prog \<Rightarrow> (fault \<Rightarrow> bool) \<Rightarrow> ('a \<Rightarrow> 's \<Rightarrow> bool) \<Rightarrow> 's \<Rightarrow> bool" where
  "wp m E Q s \<longleftrightarrow>
     (case m s of
        None \<Rightarrow> True
      | Some (Inl e) \<Rightarrow> E e
      | Some (Inr (a, s')) \<Rightarrow> Q a s')"

lemma wp_returnM [wp_simps]: "wp (returnM a) E Q s \<longleftrightarrow> Q a s"
  by (simp add: wp_def returnM_def)

lemma wp_returnM_eta: "wp (returnM a) E Q = Q a"
  by (rule ext) (rule wp_returnM)

lemma wp_faultM [wp_simps]: "wp (faultM e) E Q s \<longleftrightarrow> E e"
  by (simp add: wp_def faultM_def)

lemma wp_blockM [wp_simps]: "wp blockM E Q s"
  by (simp add: wp_def blockM_def)

lemma wp_bindM [wp_simps]: "wp (bindM m f) E Q s \<longleftrightarrow> wp m E (\<lambda>a. wp (f a) E Q) s"
  by (simp add: wp_def bindM_def split: option.splits sum.splits)

lemma wp_thenM [wp_simps]: "wp (thenM m n) E Q s \<longleftrightarrow> wp m E (\<lambda>_. wp n E Q) s"
  by (simp add: thenM_def wp_simps)

lemma wp_getsM [wp_simps]: "wp (getsM f) E Q s \<longleftrightarrow> Q (f s) s"
  by (simp add: wp_def getsM_def)

lemma wp_modifyM [wp_simps]: "wp (modifyM f) E Q s \<longleftrightarrow> Q () (f s)"
  by (simp add: wp_def modifyM_def)

lemma wp_assertM [wp_simps]: "wp (assertM b) E Q s \<longleftrightarrow> (if b then Q () s else E AssertFailed)"
  by (simp add: assertM_def wp_simps)

lemma wp_zoomM:
  "wp (zoomM get put m) E Q s \<longleftrightarrow> wp m E (\<lambda>a t. Q a (put t s)) (get s)"
  by (simp add: wp_def zoomM_def split: option.splits sum.splits)

lemma wp_if [wp_simps]:
  "wp (if b then m else n) E Q s \<longleftrightarrow> (if b then wp m E Q s else wp n E Q s)"
  by simp

text \<open>The bodies of \<open>partial_function\<close> loops branch on the state they are applied to.\<close>

lemma wp_if_state:
  "wp (\<lambda>s. if b s then m s else n s) E Q s \<longleftrightarrow> (if b s then wp m E Q s else wp n E Q s)"
  by (simp add: wp_def)

lemma wp_iff:
  "wp m E Q s \<longleftrightarrow> (\<forall>r. m s = Some r \<longrightarrow> (case r of Inl e \<Rightarrow> E e | Inr (a, s') \<Rightarrow> Q a s'))"
  by (auto simp: wp_def split: option.splits sum.splits)

lemma wp_mono:
  assumes "wp m E Q s" and "\<And>a t. Q a t \<Longrightarrow> Q' a t"
  shows "wp m E Q' s"
  using assms by (auto simp: wp_def split: option.splits sum.splits)

lemma wp_weaken:
  assumes "wp m E Q s" and "\<And>a t. Q a t \<Longrightarrow> Q' a t" and "\<And>e. E e \<Longrightarrow> E' e"
  shows "wp m E' Q' s"
  using assms by (auto simp: wp_def split: option.splits sum.splits)

lemma wp_return: "m s = Some (Inr (a, s')) \<Longrightarrow> wp m E Q s \<longleftrightarrow> Q a s'"
  by (simp add: wp_def)

lemma wp_D: "wp m E Q s \<Longrightarrow> m s = Some (Inr (a, s')) \<Longrightarrow> Q a s'"
  by (simp add: wp_def)

lemma wp_fault_D: "wp m E Q s \<Longrightarrow> m s = Some (Inl e) \<Longrightarrow> E e"
  by (simp add: wp_def)

subsection \<open>Results of calls to come\<close>

text \<open>
  Whether a call such as \<open>malloc\<close> succeeds is read off a list of results to come; once the
  list is used up the calls succeed.
\<close>

definition next_ok :: "bool list \<Rightarrow> bool" where
  "next_ok bs \<longleftrightarrow> (case bs of [] \<Rightarrow> True | b # _ \<Rightarrow> b)"

lemma next_ok_simps [simp]: "next_ok []" "next_ok (b # bs) \<longleftrightarrow> b"
  by (simp_all add: next_ok_def)

subsection \<open>Transition systems\<close>

text \<open>
  A step relation with an invariant that every step keeps: the invariant, and whatever it
  implies, holds in every state that can be reached.
\<close>

locale step_system =
  fixes step :: "'s \<Rightarrow> 's \<Rightarrow> bool" and inv :: "'s \<Rightarrow> bool"
  assumes step_inv: "step s t \<Longrightarrow> inv s \<Longrightarrow> inv t"
begin

lemma reach_inv: "step\<^sup>*\<^sup>* s t \<Longrightarrow> inv s \<Longrightarrow> inv t"
  by (induction rule: rtranclp_induct) (auto intro: step_inv)

lemma reach_safe:
  assumes "step\<^sup>*\<^sup>* s t" and "inv s" and "\<And>u. inv u \<Longrightarrow> P u"
  shows "P t"
  using assms reach_inv by blast

text \<open>Quantities that no step lowers are not lowered by a run.\<close>

lemma reach_mono:
  fixes f :: "'s \<Rightarrow> 'b::preorder"
  assumes "step\<^sup>*\<^sup>* s t" and "inv s" and "\<And>u v. step u v \<Longrightarrow> inv u \<Longrightarrow> f u \<le> f v"
  shows "f s \<le> f t"
  using assms(1,2)
proof (induction rule: rtranclp_induct)
  case (step u v)
  then show ?case using assms(3) [of u v] reach_inv by (meson order_trans)
qed simp

end

text \<open>
  A step system that implements an abstract one: seen through \<open>abs\<close>, every step that starts
  in the invariant is one abstract step or none.
\<close>

locale simulation = step_system step inv
  for step :: "'s \<Rightarrow> 's \<Rightarrow> bool" and inv :: "'s \<Rightarrow> bool" +
  fixes spec :: "'t \<Rightarrow> 't \<Rightarrow> bool" and abs :: "'s \<Rightarrow> 't"
  assumes step_sim: "step s t \<Longrightarrow> inv s \<Longrightarrow> spec (abs s) (abs t) \<or> abs t = abs s"
begin

text \<open>Also after any run.\<close>

lemma reach_step_sim: "step\<^sup>*\<^sup>* s u \<Longrightarrow> inv s \<Longrightarrow> step u v \<Longrightarrow> spec (abs u) (abs v) \<or> abs v = abs u"
  using step_sim reach_inv by blast

lemma reach_sim: "step\<^sup>*\<^sup>* s t \<Longrightarrow> inv s \<Longrightarrow> spec\<^sup>*\<^sup>* (abs s) (abs t)"
proof (induction rule: rtranclp_induct)
  case (step u v)
  then have "spec (abs u) (abs v) \<or> abs v = abs u" using step_sim reach_inv by blast
  with step show ?case by (auto intro: rtranclp.rtrancl_into_rtrancl)
qed simp

text \<open>What the abstract system keeps, the implementation keeps of its abstraction.\<close>

lemma reach_abs:
  assumes "step\<^sup>*\<^sup>* s t" and "inv s" and "P (abs s)" and "\<And>u v. spec u v \<Longrightarrow> P u \<Longrightarrow> P v"
  shows "P (abs t)"
  using reach_sim [OF assms(1,2)] assms(3) by (induction rule: rtranclp_induct) (auto intro: assms(4))

end

subsection \<open>Word and list facts the components share\<close>

lemma unat_of_nat_small: "n < 2 ^ LENGTH('w::len) \<Longrightarrow> unat (of_nat n :: 'w word) = n"
  by (simp add: unat_of_nat take_bit_nat_eq_self)

lemma of_nat_word_eq_0_iff_small:
  "n < 2 ^ LENGTH('w::len) \<Longrightarrow> (of_nat n :: 'w word) = 0 \<longleftrightarrow> n = 0"
  by (auto simp: word_of_nat_eq_0_iff dest: dvd_imp_le)

lemma length_filter_remove:
  "x \<in> set xs \<Longrightarrow> distinct xs \<Longrightarrow> length xs = Suc (length (filter (\<lambda>y. y \<noteq> x) xs))"
proof (induction xs)
  case (Cons y ys)
  then show ?case
  proof (cases "y = x")
    case True
    then have "filter (\<lambda>z. z \<noteq> x) ys = ys" using Cons.prems(2) by (simp add: filter_id_conv) blast
    then show ?thesis using True by simp
  qed simp
qed simp

lemma map_upt_fun_cong: "(\<And>i. i < n \<Longrightarrow> f i = g i) \<Longrightarrow> map f [0..<n] = map g [0..<n]"
  by simp

end
