(* ===== verification/Ll_Queue.thy ===== *)
theory Ll_Queue
  imports Rpchat_Prelude
begin

text \<open>
  The linked-list queue of \<open>lib/rplib/src/rplib_ll_queue.c\<close>, on an explicit heap.

  A queue object is modelled together with the two typed arenas its operations allocate
  in: \<open>nodes\<close> holds the \<open>rplib_ll_queue_node_t\<close> objects and \<open>bufs\<close> the data buffers that
  \<open>p_data\<close> points to. An address that is not in the domain of its arena is not allocated,
  and using it is a fault. Allocation takes addresses from \<open>brk\<close> upwards, never twice;
  whether an allocation succeeds is decided by \<open>mallocs\<close>, the results of the \<open>malloc\<close>
  calls to come (once the list is used up they all succeed).

  The lemmas show that the pointer structure implements a list: \<open>ll_list\<close> is the
  sequence of (data pointer, data) pairs, enqueue appends to it, removal deletes from it,
  and neither leaks nor touches freed memory. The locale \<open>ll_fifo\<close> is what the
  clients of the queue rely on.
\<close>

subsection \<open>Data\<close>

record rplib_ll_queue_node =
  p_data :: addr
  data_size :: nat
  p_next_node :: addr

record 'a rplib_ll_queue =
  q_size :: "64 word"
  p_front :: addr
  p_rear :: addr
  nodes :: "addr \<rightharpoonup> rplib_ll_queue_node"
  bufs :: "addr \<rightharpoonup> 'a"
  brk :: addr
  mallocs :: "bool list"

definition INT_MAX :: nat where
  "INT_MAX = 2147483647"

subsection \<open>Memory primitives\<close>

definition malloc_ok :: "('a rplib_ll_queue, bool) prog" where
  "malloc_ok s = Some (Inr (next_ok (mallocs s), s\<lparr>mallocs := tl (mallocs s)\<rparr>))"

text \<open>
  Addresses are handed out in increasing order and never again after they were freed, so that every use of a
  freed object is seen; bugs that need an address to be reused cannot be expressed. A fresh node's fields are indeterminate in C; the code writes them all before it reads
  one. A data buffer is filled by the \<open>memcpy\<close> that follows its allocation.
\<close>

definition malloc_node :: "('a rplib_ll_queue, addr) prog" where
  "malloc_node =
     bindM malloc_ok (\<lambda>ok.
     if ok then
       bindM (getsM brk) (\<lambda>p.
       thenM (modifyM (\<lambda>s. s\<lparr>brk := Suc p,
                nodes := (nodes s)(p \<mapsto> \<lparr>p_data = NULL, data_size = 0, p_next_node = NULL\<rparr>)\<rparr>))
       (returnM p))
     else returnM NULL)"

definition malloc_buf :: "'a \<Rightarrow> ('a rplib_ll_queue, addr) prog" where
  "malloc_buf x =
     bindM malloc_ok (\<lambda>ok.
     if ok then
       bindM (getsM brk) (\<lambda>p.
       thenM (modifyM (\<lambda>s. s\<lparr>brk := Suc p, bufs := (bufs s)(p \<mapsto> x)\<rparr>))
       (returnM p))
     else returnM NULL)"

definition free_node :: "addr \<Rightarrow> ('a rplib_ll_queue, unit) prog" where
  "free_node p s =
     (if p = NULL then Some (Inr ((), s))
      else if nodes s p = None then Some (Inl DoubleFree)
      else Some (Inr ((), s\<lparr>nodes := (nodes s)(p := None)\<rparr>)))"

definition free_buf :: "addr \<Rightarrow> ('a rplib_ll_queue, unit) prog" where
  "free_buf p s =
     (if p = NULL then Some (Inr ((), s))
      else if bufs s p = None then Some (Inl DoubleFree)
      else Some (Inr ((), s\<lparr>bufs := (bufs s)(p := None)\<rparr>)))"

definition load_node :: "addr \<Rightarrow> ('a rplib_ll_queue, rplib_ll_queue_node) prog" where
  "load_node p s =
     (if p = NULL then Some (Inl NullDeref)
      else case nodes s p of
             None \<Rightarrow> Some (Inl UseAfterFree)
           | Some n \<Rightarrow> Some (Inr (n, s)))"

definition store_node ::
  "addr \<Rightarrow> (rplib_ll_queue_node \<Rightarrow> rplib_ll_queue_node) \<Rightarrow> ('a rplib_ll_queue, unit) prog" where
  "store_node p f =
     bindM (load_node p) (\<lambda>n. modifyM (\<lambda>s. s\<lparr>nodes := (nodes s)(p \<mapsto> f n)\<rparr>))"

definition load_buf :: "addr \<Rightarrow> ('a rplib_ll_queue, 'a) prog" where
  "load_buf p s =
     (if p = NULL then Some (Inl NullDeref)
      else case bufs s p of
             None \<Rightarrow> Some (Inl UseAfterFree)
           | Some x \<Rightarrow> Some (Inr (x, s)))"

subsection \<open>Operations\<close>

text \<open>
  \<open>rplib_ll_queue_create\<close>: \<open>None\<close> is the NULL result of a failed allocation. The list
  \<open>ms\<close> is what the later allocations of the queue will see.
\<close>

definition rplib_ll_queue_create :: "bool \<Rightarrow> bool list \<Rightarrow> 'a rplib_ll_queue option" where
  "rplib_ll_queue_create ok ms =
     (if ok then
        Some \<lparr>q_size = 0, p_front = NULL, p_rear = NULL,
              nodes = Map.empty, bufs = Map.empty, brk = 1, mallocs = ms\<rparr>
      else None)"

definition enqueue_cleanup :: "addr \<Rightarrow> addr \<Rightarrow> ('a rplib_ll_queue, addr) prog" where
  "enqueue_cleanup p_node p_buf =
     thenM (free_node p_node) (thenM (free_buf p_buf) (returnM NULL))"

definition enqueue_link :: "addr \<Rightarrow> ('a rplib_ll_queue, addr) prog" where
  "enqueue_link p_node =
     bindM (getsM p_front) (\<lambda>front.
     if front = NULL then
       thenM (modifyM (\<lambda>s. s\<lparr>p_front := p_node, p_rear := p_node\<rparr>))
       (returnM p_node)
     else
       bindM (getsM p_rear) (\<lambda>rear.
       thenM (store_node rear (\<lambda>n. n\<lparr>p_next_node := p_node\<rparr>))
       (thenM (modifyM (\<lambda>s. s\<lparr>p_rear := p_node\<rparr>))
       (returnM p_node))))"

definition rplib_ll_queue_enqueue :: "'a \<Rightarrow> nat \<Rightarrow> ('a rplib_ll_queue, addr) prog" where
  "rplib_ll_queue_enqueue x sz =
     thenM (assertM (0 < sz))
     (bindM malloc_node (\<lambda>p_node.
      bindM (malloc_buf x) (\<lambda>p_buf.
      if p_node = NULL \<or> p_buf = NULL then enqueue_cleanup p_node p_buf
      else
        thenM (store_node p_node
                 (\<lambda>n. n\<lparr>p_data := p_buf, data_size := sz, p_next_node := NULL\<rparr>))
        (bindM (getsM q_size) (\<lambda>n.
         if n + 1 < word_of_nat INT_MAX then
           thenM (modifyM (\<lambda>s. s\<lparr>q_size := q_size s + 1\<rparr>))
           (enqueue_link p_node)
         else enqueue_cleanup p_node p_buf)))))"

text \<open>The search for the predecessor of the node to remove (lines 121-125).\<close>

partial_function (option) ll_find_prev ::
  "addr \<Rightarrow> addr \<Rightarrow> ('a rplib_ll_queue, addr) prog" where
  "ll_find_prev p_tgt_node p_prev_node s =
     bindM (load_node p_prev_node) (\<lambda>n s'.
       if p_next_node n \<noteq> p_tgt_node then ll_find_prev p_tgt_node (p_next_node n) s'
       else Some (Inr (p_prev_node, s'))) s"

definition remove_update :: "addr \<Rightarrow> ('a rplib_ll_queue, int) prog" where
  "remove_update p_tgt_node =
     thenM (modifyM (\<lambda>s. s\<lparr>q_size := q_size s - 1\<rparr>))
     (bindM (load_node p_tgt_node) (\<lambda>n.
      thenM (free_buf (p_data n))
      (thenM (store_node p_tgt_node (\<lambda>n. n\<lparr>p_data := NULL\<rparr>))
      (thenM (free_node p_tgt_node)
      (returnM RPLIB_SUCCESS)))))"

definition rplib_ll_remove_node :: "addr \<Rightarrow> ('a rplib_ll_queue, int) prog" where
  "rplib_ll_remove_node p_tgt_node =
     bindM (getsM q_size) (\<lambda>n.
     bindM (getsM p_front) (\<lambda>front.
     if n = 1 then
       thenM (modifyM (\<lambda>s. s\<lparr>p_front := NULL, p_rear := NULL\<rparr>))
       (remove_update p_tgt_node)
     else if p_tgt_node = front then
       bindM (load_node p_tgt_node) (\<lambda>tgt.
       thenM (modifyM (\<lambda>s. s\<lparr>p_front := p_next_node tgt\<rparr>))
       (remove_update p_tgt_node))
     else
       bindM (ll_find_prev p_tgt_node front) (\<lambda>p_prev_node.
       bindM (load_node p_tgt_node) (\<lambda>tgt.
       thenM (store_node p_prev_node (\<lambda>n. n\<lparr>p_next_node := p_next_node tgt\<rparr>))
       (bindM (getsM p_rear) (\<lambda>rear.
        thenM (if p_tgt_node = rear then modifyM (\<lambda>s. s\<lparr>p_rear := p_prev_node\<rparr>)
               else returnM ())
        (remove_update p_tgt_node)))))))"

definition rplib_ll_queue_dequeue :: "('a rplib_ll_queue, int) prog" where
  "rplib_ll_queue_dequeue =
     bindM (getsM p_front) (\<lambda>front.
     thenM (assertM (front \<noteq> NULL))
     (bindM (getsM q_size) (\<lambda>n.
      thenM (assertM (n > 0))
      (bindM (load_node front) (\<lambda>nd.
       thenM (assertM (p_data nd \<noteq> NULL))
       (rplib_ll_remove_node front))))))"

definition rplib_ll_queue_peek :: "('a rplib_ll_queue, addr) prog" where
  "rplib_ll_queue_peek =
     bindM (getsM p_front) (\<lambda>front.
     thenM (assertM (front \<noteq> NULL))
     (returnM front))"

partial_function (option) destroy_loop ::
  "64 word \<Rightarrow> ('a rplib_ll_queue, unit) prog" where
  "destroy_loop free_node_index s =
     (if free_node_index < q_size s then
        bindM (getsM p_front) (\<lambda>front s1.
        bindM (assertM (front \<noteq> NULL)) (\<lambda>_ s2.
        bindM rplib_ll_queue_dequeue (\<lambda>_ s3.
        destroy_loop (free_node_index + 1) s3) s2) s1) s
      else Some (Inr ((), s)))"

text \<open>
  \<open>rplib_ll_queue_destroy\<close> frees the queue object itself last; the state it returns is
  what is left of the two arenas at that point.
\<close>

definition rplib_ll_queue_destroy :: "('a rplib_ll_queue, int) prog" where
  "rplib_ll_queue_destroy = thenM (destroy_loop 0) (returnM RPLIB_UNSUCCESS)"

subsection \<open>The list a queue represents\<close>

text \<open>\<open>ll_path h x ps y\<close>: following \<open>p_next_node\<close> from \<open>x\<close> visits \<open>ps\<close> and arrives at \<open>y\<close>.\<close>

fun ll_path :: "(addr \<rightharpoonup> rplib_ll_queue_node) \<Rightarrow> addr \<Rightarrow> addr list \<Rightarrow> addr \<Rightarrow> bool" where
  "ll_path h x [] y \<longleftrightarrow> x = y"
| "ll_path h x (a # as) y \<longleftrightarrow>
     x \<noteq> NULL \<and> a = x \<and> (case h x of None \<Rightarrow> False | Some n \<Rightarrow> ll_path h (p_next_node n) as y)"

fun ll_chain :: "nat \<Rightarrow> (addr \<rightharpoonup> rplib_ll_queue_node) \<Rightarrow> addr \<Rightarrow> addr list" where
  "ll_chain 0 h p = []"
| "ll_chain (Suc k) h p =
     (if p = NULL then []
      else case h p of None \<Rightarrow> [] | Some n \<Rightarrow> p # ll_chain k h (p_next_node n))"

definition ll_nodes :: "'a rplib_ll_queue \<Rightarrow> addr list" where
  "ll_nodes s = ll_chain (unat (q_size s)) (nodes s) (p_front s)"

definition dptr :: "'a rplib_ll_queue \<Rightarrow> addr \<Rightarrow> addr" where
  "dptr s p = p_data (the (nodes s p))"

definition ll_ptrs :: "'a rplib_ll_queue \<Rightarrow> addr list" where
  "ll_ptrs s = map (dptr s) (ll_nodes s)"

definition ll_list :: "'a rplib_ll_queue \<Rightarrow> (addr \<times> 'a) list" where
  "ll_list s = map (\<lambda>d. (d, the (bufs s d))) (ll_ptrs s)"

text \<open>
  Well-formedness, with the node addresses \<open>ps\<close> in list order. Besides the chain, \<open>p_rear\<close>
  and \<open>q_size\<close> it says that the two arenas hold exactly the nodes and the buffers of the
  list: nothing is leaked and no pointer of the list dangles.
\<close>

definition ll_wf :: "'a rplib_ll_queue \<Rightarrow> addr list \<Rightarrow> bool" where
  "ll_wf s ps \<longleftrightarrow>
     ll_path (nodes s) (p_front s) ps NULL \<and> distinct ps \<and>
     p_rear s = (if ps = [] then NULL else last ps) \<and>
     q_size s = word_of_nat (length ps) \<and> length ps < INT_MAX \<and>
     dom (nodes s) = set ps \<and>
     distinct (map (dptr s) ps) \<and> NULL \<notin> dptr s ` set ps \<and>
     dom (bufs s) = dptr s ` set ps \<and>
     (\<forall>p \<in> dom (nodes s) \<union> dom (bufs s). p < brk s) \<and> 0 < brk s"

definition ll_inv :: "'a rplib_ll_queue \<Rightarrow> bool" where
  "ll_inv s \<longleftrightarrow> ll_wf s (ll_nodes s)"

lemma ll_path_append:
  "ll_path h x (as @ bs) y \<longleftrightarrow> (\<exists>z. ll_path h x as z \<and> ll_path h z bs y)"
  by (induction as arbitrary: x) (auto split: option.splits)

lemma ll_path_upd [simp]: "a \<notin> set ps \<Longrightarrow> ll_path (h(a := v)) x ps y = ll_path h x ps y"
  by (induction ps arbitrary: x) (auto split: option.splits)

lemma ll_path_NULL [simp]: "ll_path h NULL ps y \<longleftrightarrow> ps = [] \<and> y = NULL"
  by (cases ps) auto

lemma ll_path_no_NULL: "ll_path h x ps y \<Longrightarrow> NULL \<notin> set ps"
  by (induction ps arbitrary: x) (auto split: option.splits)

lemma ll_chain_path: "ll_path h x ps NULL \<Longrightarrow> ll_chain (length ps) h x = ps"
  by (induction ps arbitrary: x) (auto split: option.splits)

lemma length_ll_wf: "ll_wf s ps \<Longrightarrow> unat (q_size s) = length ps"
  by (simp add: ll_wf_def INT_MAX_def unat_of_nat_small)

lemma ll_nodes_wf: "ll_wf s ps \<Longrightarrow> ll_nodes s = ps"
  using length_ll_wf [of s ps] by (simp add: ll_nodes_def ll_chain_path ll_wf_def)

lemma ll_inv_iff: "ll_inv s \<longleftrightarrow> (\<exists>ps. ll_wf s ps)"
  using ll_nodes_wf by (auto simp: ll_inv_def)

lemma ll_invI: "ll_wf s ps \<Longrightarrow> ll_inv s"
  using ll_inv_iff by blast

lemma ll_list_wf:
  "ll_wf s ps \<Longrightarrow> ll_list s = map (\<lambda>p. (dptr s p, the (bufs s (dptr s p)))) ps"
  by (simp add: ll_list_def ll_ptrs_def ll_nodes_wf)

lemma map_fst_ll_list [simp]: "map fst (ll_list s) = ll_ptrs s"
  by (simp add: ll_list_def comp_def)

lemma length_ll_ptrs: "length (ll_ptrs s) = length (ll_nodes s)"
  by (simp add: ll_ptrs_def)

lemma set_ll_ptrs: "ll_inv s \<Longrightarrow> set (ll_ptrs s) = dom (bufs s)"
  by (simp add: ll_inv_def ll_wf_def ll_ptrs_def)

lemma distinct_ll_ptrs: "ll_inv s \<Longrightarrow> distinct (ll_ptrs s)"
  by (simp add: ll_inv_def ll_wf_def ll_ptrs_def)

lemma ll_inv_bufs_NULL: "ll_inv s \<Longrightarrow> bufs s NULL = None"
  unfolding ll_inv_def ll_wf_def by blast

lemma unat_q_size: "ll_inv s \<Longrightarrow> unat (q_size s) = length (ll_list s)"
  by (simp add: ll_list_def ll_ptrs_def ll_inv_def length_ll_wf)

lemma length_ll_list_bound: "ll_inv s \<Longrightarrow> length (ll_list s) < INT_MAX"
  by (simp add: ll_list_def ll_ptrs_def ll_inv_def ll_wf_def)

lemma p_front_NULL_iff: "ll_inv s \<Longrightarrow> p_front s = NULL \<longleftrightarrow> ll_list s = []"
  unfolding ll_inv_def ll_wf_def ll_list_def ll_ptrs_def
  by (cases "ll_nodes s") auto

text \<open>Writing through a data pointer changes the data and nothing else.\<close>

definition store_buf :: "addr \<Rightarrow> ('a \<Rightarrow> 'a) \<Rightarrow> ('a rplib_ll_queue, unit) prog" where
  "store_buf p f =
     bindM (load_buf p) (\<lambda>x. modifyM (\<lambda>s. s\<lparr>bufs := (bufs s)(p \<mapsto> f x)\<rparr>))"

lemma ll_nodes_bufs [simp]: "ll_nodes (s\<lparr>bufs := b\<rparr>) = ll_nodes s"
  by (simp add: ll_nodes_def)

lemma dptr_bufs [simp]: "dptr (s\<lparr>bufs := b\<rparr>) = dptr s"
  by (simp add: dptr_def fun_eq_iff)

lemma ll_ptrs_bufs [simp]: "ll_ptrs (s\<lparr>bufs := b\<rparr>) = ll_ptrs s"
  by (simp add: ll_ptrs_def)

lemma ll_inv_store:
  "ll_inv s \<Longrightarrow> bufs s d = Some x \<Longrightarrow> ll_inv (s\<lparr>bufs := (bufs s)(d \<mapsto> y)\<rparr>)"
  by (auto simp: ll_inv_def ll_wf_def)

subsection \<open>Enqueueing\<close>

definition mallocs_ok :: "'a rplib_ll_queue \<Rightarrow> bool" where
  "mallocs_ok s \<longleftrightarrow> next_ok (mallocs s) \<and> next_ok (tl (mallocs s))"

definition same_queue :: "'a rplib_ll_queue \<Rightarrow> 'a rplib_ll_queue \<Rightarrow> bool" where
  "same_queue s s' \<longleftrightarrow>
     q_size s' = q_size s \<and> p_front s' = p_front s \<and> p_rear s' = p_rear s \<and>
     nodes s' = nodes s \<and> bufs s' = bufs s \<and> brk s \<le> brk s'"

lemmas mem_defs = malloc_ok_def malloc_node_def malloc_buf_def free_node_def free_buf_def
  load_node_def store_node_def load_buf_def

lemma ll_path_ConsE:
  assumes "ll_path h x (a # ps) y"
  obtains n where "x = a" and "a \<noteq> NULL" and "h a = Some n" and "ll_path h (p_next_node n) ps y"
  using assms by (cases "h x") auto

lemma ll_wf_nodeE:
  assumes "ll_wf s ps" and "p \<in> set ps"
  obtains n where "nodes s p = Some n"
  using assms unfolding ll_wf_def by blast

text \<open>From a node of the list, its buffer is live and the next pointer leads to a node or is NULL.\<close>

lemma ll_inv_node:
  assumes "ll_inv s" and "nodes s x = Some n"
  shows "x \<noteq> NULL" and "bufs s (p_data n) \<noteq> None"
    and "p_next_node n = NULL \<or> nodes s (p_next_node n) \<noteq> None"
proof -
  have wf: "ll_wf s (ll_nodes s)" using assms(1) by (simp add: ll_inv_def)
  then have x: "x \<in> set (ll_nodes s)" using assms(2) unfolding ll_wf_def by blast
  then obtain as bs where split: "ll_nodes s = as @ x # bs" by (meson split_list)
  with wf obtain z where "ll_path (nodes s) z (x # bs) NULL"
    by (auto simp: ll_wf_def ll_path_append)
  then have path: "ll_path (nodes s) (p_next_node n) bs NULL" and "x \<noteq> NULL"
    using assms(2) by (auto elim!: ll_path_ConsE)
  then show "x \<noteq> NULL" by simp
  show "p_next_node n = NULL \<or> nodes s (p_next_node n) \<noteq> None"
  proof (cases bs)
    case (Cons b bs')
    with path have "p_next_node n = b" by simp
    moreover have "b \<in> dom (nodes s)" using wf split Cons by (simp add: ll_wf_def)
    ultimately show ?thesis by auto
  qed (use path in simp)
  have "p_data n = dptr s x" by (simp add: dptr_def assms(2))
  then have "p_data n \<in> dom (bufs s)" using wf x unfolding ll_wf_def by blast
  then show "bufs s (p_data n) \<noteq> None" by auto
qed

lemma ll_inv_front: "ll_inv s \<Longrightarrow> p_front s = NULL \<or> nodes s (p_front s) \<noteq> None"
  by (cases "ll_nodes s") (auto simp: ll_inv_def ll_wf_def split: option.splits)

lemma ll_wf_fresh:
  assumes "ll_wf s ps" and "brk s \<le> p"
  shows "nodes s p = None" and "bufs s p = None" and "p \<notin> set ps" and "p \<noteq> NULL"
  using assms unfolding ll_wf_def by (auto simp: dom_def dest: leD)

lemma size_check:
  assumes "ll_wf s ps"
  shows "q_size s + 1 < word_of_nat INT_MAX \<longleftrightarrow> Suc (length ps) < INT_MAX"
proof -
  have "length ps < INT_MAX" and q: "q_size s = word_of_nat (length ps)"
    using assms by (auto simp: ll_wf_def)
  then have "q_size s + 1 = word_of_nat (Suc (length ps))" and "Suc (length ps) < 2 ^ 64"
    by (auto simp: INT_MAX_def)
  then show ?thesis
    by (simp add: word_less_nat_alt unat_of_nat_small INT_MAX_def del: of_nat_Suc)
qed

lemma fun_upd_None_id: "m p = None \<Longrightarrow> m(p := None) = m"
  by auto

lemma enqueue_fail_run:
  assumes wf: "ll_wf s ps" and "0 < sz" and fail: "\<not> (mallocs_ok s \<and> Suc (length ps) < INT_MAX)"
  shows "\<exists>s'. rplib_ll_queue_enqueue x sz s = Some (Inr (NULL, s')) \<and> same_queue s s'"
  using assms ll_wf_fresh [OF wf, of "brk s"]  ll_wf_fresh [OF wf, of "Suc (brk s)"] size_check [OF wf]
  by (cases "next_ok (mallocs s)"; cases "next_ok (tl (mallocs s))")
    (simp_all add: rplib_ll_queue_enqueue_def mem_defs run_simps enqueue_cleanup_def
      mallocs_ok_def same_queue_def fun_upd_None_id)

lemma ll_path_snoc:
  assumes "ll_path h x (ps @ [l]) NULL" and "l \<notin> set ps" and "h l = Some n"
    and "q \<notin> set (ps @ [l])" and "q \<noteq> NULL" and "p_next_node m = NULL"
  shows "ll_path (h(q \<mapsto> m, l \<mapsto> n\<lparr>p_next_node := q\<rparr>)) x (ps @ [l, q]) NULL"
  using assms by (auto simp: ll_path_append)

lemma enqueue_ok_run:
  fixes s :: "'a rplib_ll_queue"
  assumes wf: "ll_wf s ps" and "0 < sz" and ok: "mallocs_ok s" "Suc (length ps) < INT_MAX"
  defines "p \<equiv> brk s" and "d \<equiv> Suc (brk s)"
  defines "h \<equiv> (nodes s)(p \<mapsto> \<lparr>p_data = d, data_size = sz, p_next_node = NULL\<rparr>)"
  shows "rplib_ll_queue_enqueue x sz s = Some (Inr (p,
     s\<lparr>q_size := q_size s + 1, p_front := if ps = [] then p else p_front s, p_rear := p,
       nodes := if ps = [] then h else h(last ps \<mapsto> (the (nodes s (last ps)))\<lparr>p_next_node := p\<rparr>),
       bufs := (bufs s)(d \<mapsto> x), brk := Suc d, mallocs := tl (tl (mallocs s))\<rparr>))"
proof (cases "ps = []")
  case True
  with assms have "p_front s = NULL" by (simp add: ll_wf_def)
  with True show ?thesis
    using assms ll_wf_fresh [OF wf, of "brk s"] ll_wf_fresh [OF wf, of "Suc (brk s)"]
      size_check [OF wf]
    by (simp add: rplib_ll_queue_enqueue_def enqueue_link_def mem_defs run_simps mallocs_ok_def)
next
  case False
  then have "p_front s \<noteq> NULL" and "p_rear s = last ps" "last ps \<in> set ps"
    using wf by (auto simp: ll_wf_def)
  moreover obtain n where "nodes s (last ps) = Some n"
    using calculation(3) wf unfolding ll_wf_def by blast
  moreover have "last ps \<noteq> brk s"
    using calculation(3) ll_wf_fresh(3) [OF wf, of "brk s"] by auto
  moreover have "last ps \<noteq> NULL" 
    using calculation(3) wf ll_path_no_NULL unfolding ll_wf_def by metis
  ultimately show ?thesis using False
    using assms ll_wf_fresh [OF wf, of "brk s"] ll_wf_fresh [OF wf, of "Suc (brk s)"]
      size_check [OF wf]
    by (simp add: rplib_ll_queue_enqueue_def enqueue_link_def mem_defs run_simps mallocs_ok_def)
qed

lemma dptr_cong: "nodes s' p = nodes s p \<Longrightarrow> dptr s' p = dptr s p"
  by (simp add: dptr_def)

lemma enqueue_wf:
  assumes wf: "ll_wf s ps" and "0 < sz" and ok: "mallocs_ok s" "Suc (length ps) < INT_MAX"
  shows "\<exists>p d s'. rplib_ll_queue_enqueue x sz s = Some (Inr (p, s')) \<and> p \<noteq> NULL \<and>
     ll_wf s' (ps @ [p]) \<and> dptr s' p = d \<and> (\<forall>q \<in> set ps. dptr s' q = dptr s q) \<and>
     d \<noteq> NULL \<and> bufs s d = None \<and> bufs s' = (bufs s)(d \<mapsto> x) \<and> mallocs s' = tl (tl (mallocs s))"
proof -
  define p d where pd: "p = brk s" "d = Suc (brk s)"
  define h where "h = (nodes s)(p \<mapsto> \<lparr>p_data = d, data_size = sz, p_next_node = NULL\<rparr>)"
  define h' where "h' = (if ps = [] then h
       else h(last ps \<mapsto> (the (nodes s (last ps)))\<lparr>p_next_node := p\<rparr>))"
  define s' where "s' = s\<lparr>q_size := q_size s + 1, p_front := if ps = [] then p else p_front s,
     p_rear := p, nodes := h', bufs := (bufs s)(d \<mapsto> x), brk := Suc d,
     mallocs := tl (tl (mallocs s))\<rparr>"
  have fresh: "p \<notin> set ps" "p \<noteq> NULL" "bufs s d = None" "d \<noteq> NULL"
    using ll_wf_fresh [OF wf] by (simp_all add: pd)
  then have d_new: "d \<notin> dptr s ` set ps"
    using wf unfolding ll_wf_def by blast
  have run: "rplib_ll_queue_enqueue x sz s = Some (Inr (p, s'))"
    using enqueue_ok_run [OF assms, of x] by (simp add: s'_def h'_def h_def pd)
  have new: "dptr s' p = d"
    using fresh(1) last_in_set [of ps] by (auto simp: s'_def h'_def h_def dptr_def)
  have old: "dptr s' q = dptr s q" if "q \<in> set ps" for q
    using fresh(1) that by (cases "ps = []"; cases "q = p"; simp add: s'_def h'_def h_def dptr_def)
  have path: "ll_path (nodes s') (p_front s') (ps @ [p]) NULL"
  proof (cases ps rule: rev_cases)
    case Nil
    then show ?thesis using fresh by (simp add: s'_def h'_def h_def)
  next
    case (snoc qs l)
    moreover obtain n where "nodes s l = Some n"
      using snoc by (auto intro: ll_wf_nodeE [OF wf, of l])
    moreover have "ll_path (nodes s) (p_front s) (qs @ [l]) NULL" "l \<notin> set qs"
      using wf snoc by (simp_all add: ll_wf_def)
    ultimately show ?thesis
      using fresh ll_path_snoc [of "nodes s" "p_front s" qs l n p]
      by (simp add: s'_def h'_def h_def)
  qed
  have doms: "dom (nodes s') = set (ps @ [p])" "dom (bufs s') = insert d (dom (bufs s))"
    using wf by (auto simp: s'_def h'_def h_def ll_wf_def)
  have "ll_wf s' (ps @ [p])"
    unfolding ll_wf_def
  proof (intro conjI)
    show "distinct (map (dptr s') (ps @ [p]))"
      using wf new old d_new by (auto simp: ll_wf_def cong: map_cong)
    show "dom (bufs s') = dptr s' ` set (ps @ [p])"
      using wf new old doms by (auto simp: ll_wf_def)
    show "NULL \<notin> dptr s' ` set (ps @ [p])"
      using wf new old fresh by (auto simp: ll_wf_def)
    show "\<forall>q\<in>dom (nodes s') \<union> dom (bufs s'). q < brk s'"
      unfolding doms using wf pd by (auto simp: s'_def ll_wf_def less_Suc_eq)
  qed (use wf ok fresh path doms in \<open>auto simp: s'_def ll_wf_def\<close>)
  then show ?thesis using run new old fresh by (auto simp: s'_def)
qed

lemma find_prev_run:
  "ll_path (nodes s) x (as @ b # p # cs) NULL \<Longrightarrow> distinct (as @ b # p # cs) \<Longrightarrow>
   ll_find_prev p x s = Some (Inr (b, s))"
proof (induction as arbitrary: x)
  case Nil
  then show ?case
    by (subst ll_find_prev.simps) (auto simp: load_node_def run_simps split: option.splits)
next
  case (Cons a as)
  from Cons.prems(1) have "ll_path (nodes s) x (a # as @ b # p # cs) NULL" by simp
  then obtain n where n: "x = a" "a \<noteq> NULL" "nodes s a = Some n"
    and path: "ll_path (nodes s) (p_next_node n) (as @ b # p # cs) NULL"
    by (rule ll_path_ConsE)
  have "p_next_node n \<noteq> p"
    using path Cons.prems(2) by (cases as) auto
  with n show ?case
    using Cons.IH [OF path] Cons.prems(2)
    by (subst ll_find_prev.simps) (simp add: load_node_def run_simps)
qed
subsection \<open>Removing a node\<close>

lemma remove_update_run:
  assumes "nodes s p = Some n" "p \<noteq> NULL" "p_data n \<noteq> NULL" "bufs s (p_data n) = Some x"
  shows "remove_update p s = Some (Inr (RPLIB_SUCCESS,
     s\<lparr>q_size := q_size s - 1, nodes := (nodes s)(p := None), bufs := (bufs s)(p_data n := None)\<rparr>))"
  using assms by (simp add: remove_update_def mem_defs run_simps)

lemma ll_wf_delete:
  assumes wf: "ll_wf s (as @ p # bs)"
    and h: "ll_path h f (as @ bs) NULL" "dom h = set (as @ bs)"
      "\<And>q. q \<in> set (as @ bs) \<Longrightarrow> p_data (the (h q)) = dptr s q"
    and r: "r = (if as @ bs = [] then NULL else last (as @ bs))"
  shows "ll_wf (s\<lparr>q_size := q_size s - 1, p_front := f, p_rear := r, nodes := h,
     bufs := (bufs s)(dptr s p := None)\<rparr>) (as @ bs)" (is "ll_wf ?s _")
proof -
  have dp: "dptr ?s q = dptr s q" if "q \<in> set (as @ bs)" for q
    using h(3) [OF that] by (simp add: dptr_def)
  have p_out: "p \<notin> set (as @ bs)" and d_out: "dptr s p \<notin> dptr s ` set (as @ bs)"
    using wf by (auto simp: ll_wf_def)
  have img: "dptr ?s ` set (as @ bs) = dptr s ` set (as @ bs)"
    by (rule image_cong) (use dp in auto)
  have mp: "map (dptr ?s) (as @ bs) = map (dptr s) (as @ bs)"
    using dp by (auto simp del: map_append)
  have bd: "dom (bufs s) = insert (dptr s p) (dptr s ` set (as @ bs))"
    using wf by (auto simp: ll_wf_def)
  have "ll_path (nodes ?s) (p_front ?s) (as @ bs) NULL" "dom (nodes ?s) = set (as @ bs)"
    using h by simp_all
  moreover have "distinct (map (dptr ?s) (as @ bs))"
    unfolding mp using wf by (simp add: ll_wf_def)
  moreover have "NULL \<notin> dptr ?s ` set (as @ bs)"
    unfolding img using wf by (simp add: ll_wf_def image_Un)
  moreover have "dom (bufs ?s) = dptr ?s ` set (as @ bs)"
    unfolding img using bd d_out by simp
  moreover have "\<forall>q\<in>dom (nodes ?s) \<union> dom (bufs ?s). q < brk ?s"
    using wf h(2) unfolding ll_wf_def by (simp add: ball_Un)
  moreover have "q_size ?s = word_of_nat (length (as @ bs))" "length (as @ bs) < INT_MAX"
    "distinct (as @ bs)" "0 < brk ?s" "p_rear ?s = (if as @ bs = [] then NULL else last (as @ bs))"
    using wf r by (simp_all add: ll_wf_def)
  ultimately show ?thesis unfolding ll_wf_def by blast
qed

lemma ll_path_unlink:
  assumes "ll_path h x (as @ b # p # bs) NULL" "distinct (as @ b # p # bs)"
    "h b = Some nb" "h p = Some np"
  shows "ll_path (h(b \<mapsto> nb\<lparr>p_next_node := p_next_node np\<rparr>, p := None)) x (as @ b # bs) NULL"
  using assms by (simp add: ll_path_append)

lemma remove_wf:
  assumes wf: "ll_wf s (as @ p # bs)"
  shows "\<exists>s'. rplib_ll_remove_node p s = Some (Inr (RPLIB_SUCCESS, s')) \<and> ll_wf s' (as @ bs) \<and>
     bufs s' = (bufs s)(dptr s p := None) \<and> (\<forall>q \<in> set (as @ bs). dptr s' q = dptr s q)"
proof -
  note w = wf [unfolded ll_wf_def]
  obtain np where np: "nodes s p = Some np"
    by (rule ll_wf_nodeE [OF wf, of p]) simp
  have "dptr s p \<in> dom (bufs s)" "dptr s p \<noteq> NULL" using w by auto
  then obtain x where x: "bufs s (p_data np) = Some x" "p_data np \<noteq> NULL"
    using np by (auto simp: dptr_def)
  have p0: "p \<noteq> NULL" using w ll_path_no_NULL by fastforce
  have one: "q_size s = 1 \<longleftrightarrow> as @ bs = []"
  proof -
    have "q_size s = 1 \<longleftrightarrow> unat (q_size s) = 1" by (simp add: word_unat_eq_iff)
    then show ?thesis by (simp add: length_ll_wf [OF wf])
  qed
  have path: "ll_path (nodes s) (p_front s) (as @ p # bs) NULL"
    and dist: "distinct (as @ p # bs)" and domn: "dom (nodes s) = set (as @ p # bs)"
    using w by blast+
  have res: ?thesis
    if "rplib_ll_remove_node p s = Some (Inr (RPLIB_SUCCESS, s\<lparr>q_size := q_size s - 1,
         p_front := f, p_rear := r, nodes := h, bufs := (bufs s)(dptr s p := None)\<rparr>))"
      and "ll_path h f (as @ bs) NULL" "dom h = set (as @ bs)"
      "\<And>q. q \<in> set (as @ bs) \<Longrightarrow> p_data (the (h q)) = dptr s q"
      "r = (if as @ bs = [] then NULL else last (as @ bs))" for f r h
    using that ll_wf_delete [OF wf that(2,3,4,5)] by (auto simp: dptr_def)
  note run = rplib_ll_remove_node_def remove_update_run [where p=p] mem_defs run_simps
  consider (only) "as = []" "bs = []" | (front) "as = []" "bs \<noteq> []" | (mid) as' b where "as = as' @ [b]"
    by (cases as rule: rev_cases) auto
  then show ?thesis
  proof cases
    case only
    then show ?thesis
      by (intro res [where f = NULL and r = NULL and h = "(nodes s)(p := None)"])
        (use one np x p0 domn in \<open>simp_all add: run dptr_def\<close>)
  next
    case front
    have f: "p_front s = p" "ll_path (nodes s) (p_next_node np) bs NULL" "p_rear s = last bs"
      using w front np by simp_all
    then show ?thesis
      by (intro res [where f = "p_next_node np" and r = "last bs" and h = "(nodes s)(p := None)"])
        (use front one np x p0 dist domn in \<open>auto simp: run dptr_def\<close>)
  next
    case mid
    obtain nb where nb: "nodes s b = Some nb"
      by (rule ll_wf_nodeE [OF wf, of b]) (simp add: mid)
    have b: "b \<noteq> p" "b \<noteq> NULL" and pf: "p \<noteq> p_front s"
      using path dist mid ll_path_no_NULL [OF path] by (cases as', auto)+
    have prev: "ll_find_prev p (p_front s) s = Some (Inr (b, s))"
      using path dist mid by (intro find_prev_run [of _ _ as' b p bs]) simp_all
    let ?h = "(nodes s)(b \<mapsto> nb\<lparr>p_next_node := p_next_node np\<rparr>, p := None)"
    have "ll_path ?h (p_front s) (as @ bs) NULL"
      using ll_path_unlink [of "nodes s" "p_front s" as' b p bs nb np] path dist mid nb np by simp
    moreover have "p_rear s = last (p # bs)" using w mid by simp
    ultimately show ?thesis
      by (intro res [where f = "p_front s" and r = "if p = p_rear s then b else p_rear s" and h = ?h])
        (use mid one np nb x p0 b pf prev dist domn in \<open>auto simp: run dptr_def\<close>)
  qed
qed
subsection \<open>The operations on the represented list\<close>

lemma create_spec:
  assumes "rplib_ll_queue_create True ms = Some s"
  shows "ll_inv s" and "ll_list s = []"
proof -
  have "ll_wf s []"
    using assms by (auto simp: rplib_ll_queue_create_def ll_wf_def INT_MAX_def)
  then show "ll_inv s" and "ll_list s = []"
    by (auto simp: ll_list_wf intro: ll_invI)
qed

definition ll_room :: "'a rplib_ll_queue \<Rightarrow> bool" where
  "ll_room s \<longleftrightarrow> mallocs_ok s \<and> Suc (length (ll_list s)) < INT_MAX"

lemma length_ll_list: "length (ll_list s) = length (ll_nodes s)"
  by (simp add: ll_list_def ll_ptrs_def)

lemma enqueue_room:
  assumes "ll_inv s" and "0 < sz" and "ll_room s"
  shows "\<exists>p d s'. rplib_ll_queue_enqueue x sz s = Some (Inr (p, s')) \<and> p \<noteq> NULL \<and> ll_inv s' \<and>
     ll_list s' = ll_list s @ [(d, x)] \<and> bufs s d = None \<and> bufs s' = (bufs s)(d \<mapsto> x) \<and>
     dptr s' p = d \<and> nodes s' p \<noteq> None \<and> mallocs s' = tl (tl (mallocs s))"
proof -
  have wf: "ll_wf s (ll_nodes s)" using assms(1) by (simp add: ll_inv_def)
  obtain p d s' where e: "rplib_ll_queue_enqueue x sz s = Some (Inr (p, s'))" "p \<noteq> NULL"
      "ll_wf s' (ll_nodes s @ [p])" "dptr s' p = d" "\<forall>q \<in> set (ll_nodes s). dptr s' q = dptr s q"
      "bufs s d = None" "bufs s' = (bufs s)(d \<mapsto> x)" "mallocs s' = tl (tl (mallocs s))"
    using enqueue_wf [OF wf assms(2)] assms(3) unfolding ll_room_def length_ll_list by blast
  have "dptr s q \<noteq> d" if "q \<in> set (ll_nodes s)" for q
    using wf e(6) that unfolding ll_wf_def by blast
  then have "ll_list s' = ll_list s @ [(d, x)]"
    using e by (auto simp: ll_list_wf [OF e(3)] ll_list_wf [OF wf])
  moreover have "nodes s' p \<noteq> None" using e(3) unfolding ll_wf_def by auto
  ultimately show ?thesis using e by (blast intro: ll_invI)
qed

lemma same_queue_inv:
  assumes "same_queue s s'" "ll_inv s"
  shows "ll_inv s'" and "ll_list s' = ll_list s" and "bufs s' = bufs s"
proof -
  have n: "ll_nodes s' = ll_nodes s" and d: "dptr s' = dptr s"
    using assms(1) by (simp_all add: same_queue_def ll_nodes_def dptr_def [abs_def])
  show b: "bufs s' = bufs s" using assms(1) by (simp add: same_queue_def)
  show "ll_list s' = ll_list s" by (simp add: ll_list_def ll_ptrs_def n d b)
  show "ll_inv s'"
    using assms unfolding ll_inv_def ll_wf_def n d same_queue_def
    by (metis less_le_trans)
qed

lemma enqueue_no_room:
  assumes "ll_inv s" and "0 < sz" and "\<not> ll_room s"
  shows "\<exists>s'. rplib_ll_queue_enqueue x sz s = Some (Inr (NULL, s')) \<and> ll_inv s' \<and>
     ll_list s' = ll_list s \<and> bufs s' = bufs s"
proof -
  have wf: "ll_wf s (ll_nodes s)" using assms(1) by (simp add: ll_inv_def)
  obtain s' where "rplib_ll_queue_enqueue x sz s = Some (Inr (NULL, s'))" "same_queue s s'"
    using enqueue_fail_run [OF wf assms(2)] assms(3) unfolding ll_room_def length_ll_list by blast
  then show ?thesis using same_queue_inv assms(1) by blast
qed

lemma remove_spec:
  assumes inv: "ll_inv s" and p: "p \<in> set (ll_nodes s)"
  shows "\<exists>s'. rplib_ll_remove_node p s = Some (Inr (RPLIB_SUCCESS, s')) \<and> ll_inv s' \<and>
     ll_list s' = filter (\<lambda>e. fst e \<noteq> dptr s p) (ll_list s) \<and>
     bufs s' = (bufs s)(dptr s p := None)"
proof -
  obtain as bs where ps: "ll_nodes s = as @ p # bs" using p by (meson split_list)
  have wf: "ll_wf s (as @ p # bs)" using inv ps by (simp add: ll_inv_def)
  obtain s' where r: "rplib_ll_remove_node p s = Some (Inr (RPLIB_SUCCESS, s'))"
      "ll_wf s' (as @ bs)" "bufs s' = (bufs s)(dptr s p := None)"
      "\<forall>q \<in> set (as @ bs). dptr s' q = dptr s q"
    using remove_wf [OF wf] by blast
  have out: "dptr s q \<noteq> dptr s p" if "q \<in> set as \<union> set bs" for q
  proof -
    have "distinct (map (dptr s) (as @ p # bs))" using wf by (simp only: ll_wf_def)
    then show ?thesis using that by (auto simp: image_iff)
  qed
  have keep: "filter (\<lambda>e. fst e \<noteq> dptr s p) (map (\<lambda>q. (dptr s q, f q)) qs) =
      map (\<lambda>q. (dptr s q, f q)) qs" if "set qs \<subseteq> set as \<union> set bs" for qs f
    using that out by (induction qs) auto
  have "ll_list s' = filter (\<lambda>e. fst e \<noteq> dptr s p) (ll_list s)"
    using r(3,4) out
    by (auto simp: ll_list_wf [OF r(2)] ll_list_wf [OF wf] keep simp del: filter_map)
  then show ?thesis using r by (blast intro: ll_invI)
qed

lemma dequeue_spec:
  assumes inv: "ll_inv s" and l: "ll_list s = (d, x) # es"
  shows "\<exists>s'. rplib_ll_queue_dequeue s = Some (Inr (RPLIB_SUCCESS, s')) \<and> ll_inv s' \<and>
     ll_list s' = es \<and> bufs s' = (bufs s)(d := None)"
proof -
  have wf: "ll_wf s (ll_nodes s)" using inv by (simp add: ll_inv_def)
  obtain p ps where ps: "ll_nodes s = p # ps" and d: "d = dptr s p"
    using l by (cases "ll_nodes s") (auto simp: ll_list_wf [OF wf])
  obtain n where n: "nodes s p = Some n" by (rule ll_wf_nodeE [OF wf, of p]) (simp add: ps)
  have h: "p_front s = p" "p \<noteq> NULL" "p_data n \<noteq> NULL" "q_size s \<noteq> 0"
    using wf n ps length_ll_wf [OF wf] by (auto simp: ll_wf_def dptr_def)
  obtain s' where s': "rplib_ll_remove_node p s = Some (Inr (RPLIB_SUCCESS, s'))" "ll_inv s'"
     "ll_list s' = filter (\<lambda>e. fst e \<noteq> dptr s p) (ll_list s)" "bufs s' = (bufs s)(dptr s p := None)"
    using remove_spec [OF inv, of p] ps by auto
  have "d \<notin> fst ` set es" using distinct_ll_ptrs [OF inv] l by (simp flip: map_fst_ll_list)
  then have "filter (\<lambda>e. fst e \<noteq> d) (ll_list s) = es" unfolding l by (force simp: filter_id_conv)
  then show ?thesis
    using s' h n d by (simp add: rplib_ll_queue_dequeue_def run_simps load_node_def word_neq_0_conv)
qed

lemma dequeue_empty:
  "ll_inv s \<Longrightarrow> ll_list s = [] \<Longrightarrow> rplib_ll_queue_dequeue s = Some (Inl AssertFailed)"
  using p_front_NULL_iff [of s] by (simp add: rplib_ll_queue_dequeue_def run_simps)

lemma ll_front:
  assumes inv: "ll_inv s" and l: "ll_list s = (d, x) # es"
  obtains n where "load_node (p_front s) s = Some (Inr (n, s))" and "p_data n = d"
    and "load_buf d s = Some (Inr (x, s))"
proof -
  have wf: "ll_wf s (ll_nodes s)" using inv by (simp add: ll_inv_def)
  obtain p ps where ps: "ll_nodes s = p # ps" and d: "d = dptr s p" and x: "x = the (bufs s d)"
    using l by (cases "ll_nodes s") (auto simp: ll_list_wf [OF wf])
  obtain n where n: "nodes s p = Some n" by (rule ll_wf_nodeE [OF wf, of p]) (simp add: ps)
  have "p_front s = p" "p \<noteq> NULL" "d \<noteq> NULL" "d \<in> dom (bufs s)"
    using wf ps d by (auto simp: ll_wf_def)
  then show thesis
    using that [of n] n d x by (auto simp: load_node_def load_buf_def dptr_def)
qed

subsection \<open>Destroying a queue\<close>

lemma destroy_loop_spec:
  assumes "ll_inv s" and "i \<le> INT_MAX"
  shows "\<exists>s'. destroy_loop (word_of_nat i) s = Some (Inr ((), s')) \<and> ll_inv s' \<and>
     ll_list s' = drop ((length (ll_list s) - i + 1) div 2) (ll_list s)"
  using assms
proof (induction "length (ll_list s)" arbitrary: s i rule: less_induct)
  case less
  have lt: "word_of_nat i < q_size s \<longleftrightarrow> i < length (ll_list s)"
    using less.prems unat_q_size [OF less.prems(1)]
    by (simp add: word_less_nat_alt unat_of_nat_small INT_MAX_def)
  show ?case
  proof (cases "i < length (ll_list s)")
    case False
    then show ?thesis using less.prems lt by (subst destroy_loop.simps) simp
  next
    case True
    then obtain d x es where l: "ll_list s = (d, x) # es" by (cases "ll_list s") auto
    obtain s1 where s1: "rplib_ll_queue_dequeue s = Some (Inr (RPLIB_SUCCESS, s1))"
        "ll_inv s1" "ll_list s1 = es"
      using dequeue_spec [OF less.prems(1) l] by blast
    have front: "p_front s \<noteq> NULL" using p_front_NULL_iff [OF less.prems(1)] l by simp
    have "Suc i \<le> INT_MAX" using True length_ll_list_bound [OF less.prems(1)] by simp
    then obtain s' where "destroy_loop (word_of_nat (Suc i)) s1 = Some (Inr ((), s'))" "ll_inv s'"
        "ll_list s' = drop ((length es - Suc i + 1) div 2) es"
      using less.hyps [of s1 "Suc i"] s1 l by auto
    moreover have "(length (ll_list s) - i + 1) div 2 = Suc ((length es - Suc i + 1) div 2)"
      using True unfolding l by (simp, presburger)
    ultimately show ?thesis
      using True lt front s1 l
      by (subst destroy_loop.simps) (simp add: run_simps add.commute)
  qed
qed

subsection \<open>The interface the clients rely on\<close>

primrec seq_all :: "('a \<Rightarrow> ('s, 'b) prog) \<Rightarrow> 'a list \<Rightarrow> ('s, unit) prog" where
  "seq_all f [] = returnM ()"
| "seq_all f (x # xs) = thenM (f x) (seq_all f xs)"

text \<open>
  What the thread pool and the connection queue use of the linked list: a sequence of
  (data pointer, data) pairs with an append that reports failure by NULL, a removal at the
  front, and data buffers that keep their address for as long as their entry is queued.
  \<open>room k s\<close> says that the next \<open>k\<close> appends cannot fail.
\<close>

locale ll_fifo =
  fixes enq :: "'a \<Rightarrow> ('s, addr) prog"
    and deq :: "('s, int) prog"
    and inv :: "'s \<Rightarrow> bool"
    and seq :: "'s \<Rightarrow> (addr \<times> 'a) list"
    and room :: "nat \<Rightarrow> 's \<Rightarrow> bool"
  assumes enq_cases: "inv s \<Longrightarrow>
      (\<exists>p d s'. enq x s = Some (Inr (p, s')) \<and> p \<noteq> NULL \<and> inv s' \<and>
         seq s' = seq s @ [(d, x)] \<and> d \<notin> fst ` set (seq s)) \<or>
      (\<exists>s'. enq x s = Some (Inr (NULL, s')) \<and> inv s' \<and> seq s' = seq s)"
    and enq_room: "inv s \<Longrightarrow> room (Suc k) s \<Longrightarrow>
      \<exists>p d s'. enq x s = Some (Inr (p, s')) \<and> p \<noteq> NULL \<and> inv s' \<and>
         seq s' = seq s @ [(d, x)] \<and> room k s'"
    and deq_Cons: "inv s \<Longrightarrow> seq s = e # es \<Longrightarrow>
      \<exists>s'. deq s = Some (Inr (RPLIB_SUCCESS, s')) \<and> inv s' \<and> seq s' = es"
    and deq_Nil: "inv s \<Longrightarrow> seq s = [] \<Longrightarrow> deq s = Some (Inl AssertFailed)"
begin

lemma wp_enq:
  assumes "inv s"
    and "\<And>p d s'. p \<noteq> NULL \<Longrightarrow> inv s' \<Longrightarrow> seq s' = seq s @ [(d, x)] \<Longrightarrow>
           d \<notin> fst ` set (seq s) \<Longrightarrow> Q p s'"
    and "\<And>s'. inv s' \<Longrightarrow> seq s' = seq s \<Longrightarrow> Q NULL s'"
  shows "wp (enq x) E Q s"
  using enq_cases [OF assms(1), of x] assms(2,3) by (auto simp: wp_def)

lemma wp_deq:
  assumes "inv s" and "seq s = e # es" and "\<And>s'. inv s' \<Longrightarrow> seq s' = es \<Longrightarrow> Q RPLIB_SUCCESS s'"
  shows "wp deq E Q s"
  using deq_Cons [OF assms(1,2)] assms(3) by (auto simp: wp_def)

lemma enq_all:
  "inv s \<Longrightarrow> room (length xs) s \<Longrightarrow>
   \<exists>s'. seq_all enq xs s = Some (Inr ((), s')) \<and> inv s' \<and> map snd (seq s') = map snd (seq s) @ xs"
proof (induction xs arbitrary: s)
  case Nil
  then show ?case by (simp add: run_simps)
next
  case (Cons x xs)
  then obtain p d s1 where s1: "enq x s = Some (Inr (p, s1))" "inv s1"
      "seq s1 = seq s @ [(d, x)]" "room (length xs) s1"
    using enq_room [of s "length xs" x] by auto
  then show ?case using Cons.IH [of s1] by (auto simp: run_simps)
qed

lemma deq_all:
  "inv s \<Longrightarrow> seq s = es @ fs \<Longrightarrow>
   \<exists>s'. seq_all (\<lambda>_. deq) es s = Some (Inr ((), s')) \<and> inv s' \<and> seq s' = fs"
proof (induction es arbitrary: s)
  case Nil
  then show ?case by (simp add: run_simps)
next
  case (Cons e es)
  then obtain s1 where "deq s = Some (Inr (RPLIB_SUCCESS, s1))" "inv s1" "seq s1 = es @ fs"
    using deq_Cons [of s e "es @ fs"] by auto
  then show ?case using Cons.IH [of s1] by (auto simp: run_simps)
qed

end

definition ll_rooms :: "nat \<Rightarrow> 'a rplib_ll_queue \<Rightarrow> bool" where
  "ll_rooms k s \<longleftrightarrow> mallocs s = [] \<and> length (ll_list s) + k < INT_MAX"

interpretation lq: ll_fifo "\<lambda>x. rplib_ll_queue_enqueue x (Suc sz)" rplib_ll_queue_dequeue
  ll_inv ll_list ll_rooms for sz
proof
  fix s :: "'a rplib_ll_queue" and x :: 'a and e :: "addr \<times> 'a" and es k
  assume inv: "ll_inv s"
  show "(\<exists>p d s'. rplib_ll_queue_enqueue x (Suc sz) s = Some (Inr (p, s')) \<and> p \<noteq> NULL \<and> ll_inv s' \<and>
         ll_list s' = ll_list s @ [(d, x)] \<and> d \<notin> fst ` set (ll_list s)) \<or>
      (\<exists>s'. rplib_ll_queue_enqueue x (Suc sz) s = Some (Inr (NULL, s')) \<and> ll_inv s' \<and> ll_list s' = ll_list s)"
  proof (cases "ll_room s")
    case True
    then obtain p d s' where "rplib_ll_queue_enqueue x (Suc sz) s = Some (Inr (p, s'))" "p \<noteq> NULL"
        "ll_inv s'" "ll_list s' = ll_list s @ [(d, x)]" "bufs s d = None"
      using enqueue_room [OF inv zero_less_Suc] by blast
    moreover have "d \<notin> fst ` set (ll_list s)"
      using calculation(5) set_ll_ptrs [OF inv] by (auto simp flip: map_fst_ll_list)
    ultimately show ?thesis by blast
  next
    case False
    then show ?thesis using enqueue_no_room [OF inv zero_less_Suc] by blast
  qed
  show "\<exists>p d s'. rplib_ll_queue_enqueue x (Suc sz) s = Some (Inr (p, s')) \<and> p \<noteq> NULL \<and> ll_inv s' \<and>
         ll_list s' = ll_list s @ [(d, x)] \<and> ll_rooms k s'" if "ll_rooms (Suc k) s"
  proof -
    have "ll_room s" using that by (simp add: ll_rooms_def ll_room_def mallocs_ok_def)
    then show ?thesis
      using enqueue_room [OF inv zero_less_Suc, of x sz] that by (fastforce simp: ll_rooms_def)
  qed
  show "\<exists>s'. rplib_ll_queue_dequeue s = Some (Inr (RPLIB_SUCCESS, s')) \<and> ll_inv s' \<and> ll_list s' = es"
    if "ll_list s = e # es"
    using dequeue_spec [OF inv, of "fst e" "snd e" es] that by auto
  show "rplib_ll_queue_dequeue s = Some (Inl AssertFailed)" if "ll_list s = []"
    using inv that by (rule dequeue_empty)
qed

end
