(* ===== verification/Ll_Queue_Props.thy ===== *)
theory Ll_Queue_Props
  imports Ll_Queue
begin

text \<open>
  What the linked-list queue of \<open>Ll_Queue\<close> guarantees, stated for its four mutating
  operations: enqueue, removal of a node, the first-in first-out order of a run of calls,
  and what destroying a queue frees.
\<close>

subsection \<open>Properties\<close>

text \<open>
  Enqueueing on a well-formed queue always returns and keeps the queue well-formed. When
  both allocations succeed and the size stays below \<open>INT_MAX\<close> it returns the new node
  and appends the copied data under a data pointer that was not in use; otherwise it returns
  NULL and the represented list is as before.
\<close>

theorem enqueue_appends:
  assumes "ll_inv s" and "0 < sz"
  shows "\<exists>p s'. rplib_ll_queue_enqueue x sz s = Some (Inr (p, s')) \<and> ll_inv s' \<and>
     (if ll_room s
      then p \<noteq> NULL \<and> (\<exists>d. bufs s d = None \<and> ll_list s' = ll_list s @ [(d, x)])
      else p = NULL \<and> ll_list s' = ll_list s)"
  using enqueue_room [OF assms, of x] enqueue_no_room [OF assms, of x]
  by (cases "ll_room s") auto

definition demo_queue :: "nat rplib_ll_queue" where
  "demo_queue = \<lparr>q_size = 2, p_front = 1, p_rear = 3,
     nodes = [1 \<mapsto> \<lparr>p_data = 2, data_size = 8, p_next_node = 3\<rparr>,
              3 \<mapsto> \<lparr>p_data = 4, data_size = 8, p_next_node = 0\<rparr>],
     bufs = [2 \<mapsto> 70, 4 \<mapsto> 80], brk = 5, mallocs = []\<rparr>"

lemma demo_queue_wf: "ll_wf demo_queue [1, 3]"
  by (auto simp: ll_wf_def demo_queue_def dptr_def INT_MAX_def)

lemmas demo_queue_inv = ll_invI [OF demo_queue_wf]

lemma demo_queue_nodes: "ll_nodes demo_queue = [1, 3]"
  by (rule ll_nodes_wf [OF demo_queue_wf])

lemma demo_queue_list: "ll_list demo_queue = [(2, 70), (4, 80)]"
  by (simp add: ll_list_wf [OF demo_queue_wf]) (simp add: demo_queue_def dptr_def)

lemma demo_queue_dptr: "dptr demo_queue 3 = 4"
  by (simp add: demo_queue_def dptr_def)

lemma demo_queue_dom: "dom (bufs demo_queue) = {2, 4}"
  by (auto simp: demo_queue_def)

theorem enqueue_appends_witness:
  "\<exists>p s'. rplib_ll_queue_enqueue 90 8 demo_queue = Some (Inr (p, s')) \<and> ll_inv s' \<and> p \<noteq> NULL \<and>
     (\<exists>d. ll_list s' = [(2, 70), (4, 80), (d, 90)])"
proof -
  have "ll_room demo_queue"
    unfolding ll_room_def mallocs_ok_def demo_queue_list by (simp add: demo_queue_def INT_MAX_def)
  then show ?thesis
    using enqueue_appends [OF demo_queue_inv, of 8 90] by (auto simp: demo_queue_list)
qed

text \<open>
  C32. Removing any node of a well-formed queue returns \<open>RPLIB_SUCCESS\<close>, deletes exactly that
  node's entry, keeps the order of the others and frees the node and its data: no other
  node is touched, nothing is freed twice and no freed memory is read.
\<close>

theorem remove_node_deletes:
  assumes "ll_inv s" and "p \<in> set (ll_nodes s)"
  shows "\<exists>s'. rplib_ll_remove_node p s = Some (Inr (RPLIB_SUCCESS, s')) \<and> ll_inv s' \<and>
     ll_list s' = filter (\<lambda>e. fst e \<noteq> dptr s p) (ll_list s) \<and>
     dom (bufs s') = dom (bufs s) - {dptr s p}"
  using remove_spec [OF assms] by auto

theorem remove_node_deletes_witness:
  "\<exists>s'. rplib_ll_remove_node 3 demo_queue = Some (Inr (RPLIB_SUCCESS, s')) \<and>
     ll_list s' = [(2, 70)] \<and> dom (bufs s') = {2}"
proof -
  have "3 \<in> set (ll_nodes demo_queue)" by (simp add: demo_queue_nodes)
  from remove_node_deletes [OF demo_queue_inv this] show ?thesis
    by (auto simp: demo_queue_list demo_queue_dptr demo_queue_dom)
qed

lemma seq_all_const: "length xs = length ys \<Longrightarrow> seq_all (\<lambda>_. f) xs = seq_all (\<lambda>_. f) ys"
  by (induction xs ys rule: list_induct2) simp_all

text \<open>
  C12. First in, first out. Values enqueued on an empty queue with room for them are queued in the order of the calls;
  after any number \<open>k\<close> of dequeues, which all succeed, exactly the values enqueued first are gone, the others follow in
  their order, and the data of the front node is the value that was enqueued as number \<open>k\<close> (counted from 0).
\<close>

theorem queue_fifo:
  assumes "ll_inv s" and "ll_list s = []" and "ll_rooms (length xs) s"
  shows "\<exists>s1. seq_all (\<lambda>x. rplib_ll_queue_enqueue x (Suc sz)) xs s = Some (Inr ((), s1)) \<and>
     (\<forall>k \<le> length xs. \<exists>s2. seq_all (\<lambda>_. rplib_ll_queue_dequeue) [0..<k] s1 = Some (Inr ((), s2)) \<and>
        map snd (ll_list s2) = drop k xs \<and>
        (k < length xs \<longrightarrow> (\<exists>n. load_node (p_front s2) s2 = Some (Inr (n, s2)) \<and>
           load_buf (p_data n) s2 = Some (Inr (xs ! k, s2)))))"
proof -
  obtain s1 where s1: "seq_all (\<lambda>x. rplib_ll_queue_enqueue x (Suc sz)) xs s = Some (Inr ((), s1))"
      "ll_inv s1" "map snd (ll_list s1) = xs"
    using lq.enq_all [OF assms(1,3)] assms(2) by auto
  have "\<exists>s2. seq_all (\<lambda>_. rplib_ll_queue_dequeue) [0..<k] s1 = Some (Inr ((), s2)) \<and>
        map snd (ll_list s2) = drop k xs \<and>
        (k < length xs \<longrightarrow> (\<exists>n. load_node (p_front s2) s2 = Some (Inr (n, s2)) \<and>
           load_buf (p_data n) s2 = Some (Inr (xs ! k, s2))))" if k: "k \<le> length xs" for k
  proof -
    let ?es = "take k (ll_list s1)"
    obtain s2 where s2: "seq_all (\<lambda>_. rplib_ll_queue_dequeue) ?es s1 = Some (Inr ((), s2))" "ll_inv s2"
        "ll_list s2 = drop k (ll_list s1)"
      using lq.deq_all [OF s1(2), of ?es "drop k (ll_list s1)"] by auto
    have "length ?es = length [0..<k]" using k arg_cong [OF s1(3), of length] by simp
    then have "seq_all (\<lambda>_. rplib_ll_queue_dequeue) [0..<k] s1 = seq_all (\<lambda>_. rplib_ll_queue_dequeue) ?es s1"
      by (intro fun_cong [OF seq_all_const]) (rule sym)
    then have "seq_all (\<lambda>_. rplib_ll_queue_dequeue) [0..<k] s1 = Some (Inr ((), s2))" unfolding s2(1) .
    moreover have l: "map snd (ll_list s2) = drop k xs" unfolding s2(3) s1(3) [symmetric] by (rule drop_map [symmetric])
    moreover have "\<exists>n. load_node (p_front s2) s2 = Some (Inr (n, s2)) \<and>
        load_buf (p_data n) s2 = Some (Inr (xs ! k, s2))" if less: "k < length xs"
    proof -
      have "map snd (ll_list s2) = xs ! k # drop (Suc k) xs" unfolding l using less by (rule Cons_nth_drop_Suc [symmetric])
      then obtain d es where "ll_list s2 = (d, xs ! k) # es" by (cases "ll_list s2") auto
      from ll_front [OF s2(2) this] show ?thesis by metis
    qed
    ultimately show ?thesis by (intro exI [of _ s2]) simp
  qed
  with s1(1) show ?thesis by blast
qed

theorem queue_fifo_witness:
  "\<exists>s s1 s2. rplib_ll_queue_create True [] = Some s \<and>
     seq_all (\<lambda>x. rplib_ll_queue_enqueue x (Suc 7)) [1, 2, 3 :: nat] s = Some (Inr ((), s1)) \<and>
     seq_all (\<lambda>_. rplib_ll_queue_dequeue) [0..<2] s1 = Some (Inr ((), s2)) \<and> map snd (ll_list s2) = [3]"
proof -
  obtain s :: "nat rplib_ll_queue" where s: "rplib_ll_queue_create True [] = Some s"
    by (simp add: rplib_ll_queue_create_def)
  have "ll_rooms (length [1, 2, 3 :: nat]) s"
    using s create_spec(2) [OF s] by (auto simp: rplib_ll_queue_create_def ll_rooms_def INT_MAX_def)
  from queue_fifo [OF create_spec [OF s] this, of 7] obtain s1 where
    s1: "seq_all (\<lambda>x. rplib_ll_queue_enqueue x (Suc 7)) [1, 2, 3] s = Some (Inr ((), s1))" and
    all: "\<forall>k \<le> length [1, 2, 3 :: nat]. \<exists>s2. seq_all (\<lambda>_. rplib_ll_queue_dequeue) [0..<k] s1 = Some (Inr ((), s2)) \<and>
       map snd (ll_list s2) = drop k [1, 2, 3] \<and> (k < length [1, 2, 3 :: nat] \<longrightarrow>
         (\<exists>n. load_node (p_front s2) s2 = Some (Inr (n, s2)) \<and>
           load_buf (p_data n) s2 = Some (Inr ([1, 2, 3] ! k, s2))))"
    by (elim exE conjE)
  have "2 \<le> length [1, 2, 3 :: nat]" by simp
  from all [rule_format, OF this] obtain s2 where "seq_all (\<lambda>_. rplib_ll_queue_dequeue) [0..<2] s1 = Some (Inr ((), s2))"
      "map snd (ll_list s2) = drop 2 [1, 2, 3]"
    by (elim exE conjE)
  with s s1 show ?thesis by (intro exI conjI) simp_all
qed

text \<open>
  C40. Destroying a queue of \<open>n\<close> entries: the loop compares an index that grows with a size
  that shrinks, so it dequeues only the first \<open>(n + 1) div 2\<close> entries; the other \<open>n div 2\<close>
  nodes and their data are still allocated when the queue object is freed. The function
  returns \<open>RPLIB_UNSUCCESS\<close> in every case.
\<close>

theorem destroy_frees_half:
  assumes "ll_inv s"
  shows "\<exists>s'. rplib_ll_queue_destroy s = Some (Inr (RPLIB_UNSUCCESS, s')) \<and>
     ll_list s' = drop ((length (ll_list s) + 1) div 2) (ll_list s) \<and>
     card (dom (nodes s')) = length (ll_list s) div 2"
proof -
  obtain s' where s': "destroy_loop 0 s = Some (Inr ((), s'))" "ll_inv s'"
      "ll_list s' = drop ((length (ll_list s) + 1) div 2) (ll_list s)"
    using destroy_loop_spec [OF assms, of 0] by auto
  have "card (dom (nodes s')) = length (ll_nodes s')"
    using s'(2) by (simp add: ll_inv_def ll_wf_def distinct_card)
  also have "\<dots> = length (ll_list s')" by (simp add: length_ll_list)
  also have "\<dots> = length (ll_list s) div 2" unfolding s'(3) by simp
  finally show ?thesis using s' by (simp add: rplib_ll_queue_destroy_def run_simps)
qed

theorem destroy_frees_half_witness:
  "\<exists>s'. rplib_ll_queue_destroy demo_queue = Some (Inr (RPLIB_UNSUCCESS, s')) \<and>
     ll_list s' = [(4, 80)] \<and> card (dom (nodes s')) = 1"
  using destroy_frees_half [OF demo_queue_inv] by (simp add: demo_queue_list)

end
