(* ===== verification/Rpchat_String.thy ===== *)
theory Rpchat_String
  imports Rpchat_Prelude
begin

text \<open>
  The string type of \<open>include/components/rpchat_string.h\<close> and
  \<open>src/components/rpchat_string.c\<close>, and the C library calls the code formats strings with.

  \<open>rpchat_string_t\<close> is a 16-bit length followed by \<open>contents[4095]\<close>. Its alignment is 2, so
  \<open>sizeof\<close> rounds 4097 up to 4098: one padding byte follows the array. \<open>contents\<close> here
  is the storage from the start of the array to the end of the object, the indices below
  \<open>STR_STORAGE = 4096\<close>; index 4095 is the padding byte. Bytes never written hold whatever the
  memory held before.

  The lemmas show that \<open>rpchat_string_sanitize\<close> computes the filter it describes, that it
  stays inside the object but leaves the array by one byte exactly when all 4095 characters are
  kept, and that sanitizing twice is sanitizing once.
\<close>

definition RPCHAT_MAX_STR_LENGTH :: nat where
  "RPCHAT_MAX_STR_LENGTH = 4095"

definition STR_STORAGE :: nat where
  "STR_STORAGE = 4096"

text \<open>\<open>sizeof(rpchat_string_t)\<close>.\<close>

definition SIZEOF_STRING :: nat where
  "SIZEOF_STRING = 2 + STR_STORAGE"

record rpchat_string =
  len :: "16 word"
  contents :: "nat \<Rightarrow> byte"

text \<open>The bytes a string object denotes.\<close>

definition str_bytes :: "rpchat_string \<Rightarrow> byte list" where
  "str_bytes s = map (contents s) [0..<unat (len s)]"

definition str_wf :: "rpchat_string \<Rightarrow> bool" where
  "str_wf s \<longleftrightarrow> unat (len s) \<le> STR_STORAGE"

subsection \<open>Sanitizing\<close>

text \<open>\<open>char\<close> is signed on the target, so the comparisons are on \<open>sint\<close>.\<close>

definition RPCHAT_FILTER_ASCII_START :: int where
  "RPCHAT_FILTER_ASCII_START = 33"

definition RPCHAT_FILTER_ASCII_SPACE :: int where
  "RPCHAT_FILTER_ASCII_SPACE = 32"

definition RPCHAT_FILTER_ASCII_NEWLINE :: int where
  "RPCHAT_FILTER_ASCII_NEWLINE = 10"

definition RPCHAT_FILTER_ASCII_TAB :: int where
  "RPCHAT_FILTER_ASCII_TAB = 9"

definition RPCHAT_FILTER_ASCII_END :: int where
  "RPCHAT_FILTER_ASCII_END = 126"

definition keep_char :: "bool \<Rightarrow> byte \<Rightarrow> bool" where
  "keep_char b_allow_ctrl c \<longleftrightarrow>
     (sint c \<ge> RPCHAT_FILTER_ASCII_START \<and> sint c \<le> RPCHAT_FILTER_ASCII_END) \<or>
     (b_allow_ctrl \<and>
      (RPCHAT_FILTER_ASCII_TAB = sint c \<or> RPCHAT_FILTER_ASCII_NEWLINE = sint c \<or>
       RPCHAT_FILTER_ASCII_SPACE = sint c))"

function sanitize_loop ::
  "bool \<Rightarrow> (nat \<Rightarrow> byte) \<Rightarrow> nat \<Rightarrow> nat \<Rightarrow> (nat \<Rightarrow> byte) \<Rightarrow> nat \<Rightarrow> (nat \<Rightarrow> byte) \<times> nat" where
  "sanitize_loop b_allow_ctrl input n loop_index output curr_output_index =
     (if loop_index < n then
        let curr_char = input loop_index in
        if keep_char b_allow_ctrl curr_char then
          sanitize_loop b_allow_ctrl input n (Suc loop_index)
            (output(curr_output_index := curr_char)) (Suc curr_output_index)
        else sanitize_loop b_allow_ctrl input n (Suc loop_index) output curr_output_index
      else (output, curr_output_index))"
  by pat_completeness auto
termination
  by (relation "measure (\<lambda>(b, i, n, l, out, k). n - l)") auto

declare sanitize_loop.simps [simp del]

text \<open>
  \<open>rpchat_string_sanitize\<close>: the result code, the input (whose length is clamped in place) and
  the output. The \<open>memset\<close> of line 27 clears \<open>p_output_string->len\<close> bytes, which line 25 has
  just set to 0, so it clears nothing.
\<close>

definition rpchat_string_sanitize ::
  "rpchat_string \<Rightarrow> rpchat_string \<Rightarrow> bool \<Rightarrow> int \<times> rpchat_string \<times> rpchat_string" where
  "rpchat_string_sanitize p_input_string p_output_string b_allow_ctrl =
     (let input = p_input_string\<lparr>len :=
            if unat (len p_input_string) < RPCHAT_MAX_STR_LENGTH then len p_input_string
            else word_of_nat RPCHAT_MAX_STR_LENGTH\<rparr>;
          (out, k) = sanitize_loop b_allow_ctrl (contents input) (unat (len input)) 0
            (contents p_output_string) 0;
          (out, k) = (if k > 0 \<and> out (k - 1) \<noteq> 0 then (out(k := 0), k + 1) else (out, k));
          output = \<lparr>len = word_of_nat k, contents = out\<rparr>
      in (if len output > 0 then RPLIB_SUCCESS else RPLIB_UNSUCCESS, input, output))"

text \<open>What the code computes, as a function on byte sequences.\<close>

definition sanitize_spec :: "bool \<Rightarrow> byte list \<Rightarrow> byte list" where
  "sanitize_spec b bs =
     (let ys = filter (keep_char b) (take RPCHAT_MAX_STR_LENGTH bs)
      in if ys = [] then [] else ys @ [0])"

subsection \<open>C strings and formatting\<close>

text \<open>
  Reading a string argument of \<open>printf\<close> (\<open>%s\<close>): the bytes before the first NUL. \<open>None\<close> is a
  read past the \<open>n\<close> bytes that belong to the object.
\<close>

fun c_str :: "(nat \<Rightarrow> byte) \<Rightarrow> nat \<Rightarrow> nat \<Rightarrow> byte list option" where
  "c_str m i 0 = None"
| "c_str m i (Suc n) =
     (if m i = 0 then Some [] else map_option ((#) (m i)) (c_str m (Suc i) n))"

definition str_arg :: "rpchat_string \<Rightarrow> byte list option" where
  "str_arg s = c_str (contents s) 0 STR_STORAGE"

definition lit :: "string \<Rightarrow> byte list" where
  "lit cs = map of_char cs"

fun store_bytes :: "(nat \<Rightarrow> byte) \<Rightarrow> nat \<Rightarrow> byte list \<Rightarrow> (nat \<Rightarrow> byte)" where
  "store_bytes m i [] = m"
| "store_bytes m i (b # bs) = store_bytes (m(i := b)) (Suc i) bs"

text \<open>
  \<open>snprintf(buf + off, size, ...)\<close> with the formatted text \<open>bs\<close>: at most \<open>size - 1\<close> characters
  and a NUL are stored; the result is the length of \<open>bs\<close> whether or not it fitted.
\<close>

definition snprintf :: "(nat \<Rightarrow> byte) \<Rightarrow> nat \<Rightarrow> nat \<Rightarrow> byte list \<Rightarrow> nat \<times> (nat \<Rightarrow> byte)" where
  "snprintf m off sz bs =
     (length bs, if sz = 0 then m else store_bytes m off (take (sz - 1) bs @ [0]))"

text \<open>The idiom \<open>s.len = snprintf(s.contents, RPCHAT_MAX_STR_LENGTH, ...)\<close>.\<close>

definition snprintf_str :: "rpchat_string \<Rightarrow> byte list \<Rightarrow> rpchat_string" where
  "snprintf_str s bs =
     (let (n, m) = snprintf (contents s) 0 RPCHAT_MAX_STR_LENGTH bs
      in s\<lparr>len := word_of_nat n, contents := m\<rparr>)"

subsection \<open>Lemmas\<close>

lemmas filter_bounds = RPCHAT_FILTER_ASCII_START_def RPCHAT_FILTER_ASCII_SPACE_def
  RPCHAT_FILTER_ASCII_NEWLINE_def RPCHAT_FILTER_ASCII_TAB_def RPCHAT_FILTER_ASCII_END_def

lemma keep_char_nonzero: "keep_char b c \<Longrightarrow> c \<noteq> 0"
  by (auto simp: keep_char_def filter_bounds)

lemma store_bytes_nth:
  "store_bytes m i bs j = (if i \<le> j \<and> j < i + length bs then bs ! (j - i) else m j)"
  by (induction bs arbitrary: m i) (auto simp: nth_Cons')

lemma store_bytes_snoc: "store_bytes m i (bs @ [c]) = (store_bytes m i bs)(i + length bs := c)"
  by (induction bs arbitrary: m i) auto

lemma map_store_bytes: "map (store_bytes m 0 bs) [0..<length bs] = bs"
  by (rule nth_equalityI) (auto simp: store_bytes_nth)

lemma map_store_bytes_take: "n \<le> length bs \<Longrightarrow> map (store_bytes m 0 bs) [0..<n] = take n bs"
  by (rule nth_equalityI) (auto simp: store_bytes_nth)

lemma sanitize_loop_eq:
  "sanitize_loop b inp n i out k =
     (store_bytes out k (filter (keep_char b) (map inp [i..<n])),
      k + length (filter (keep_char b) (map inp [i..<n])))"
proof (induction b inp n i out k rule: sanitize_loop.induct)
  case (1 b inp n i out k)
  show ?case
  proof (cases "i < n")
    case True
    then have "[i..<n] = i # [Suc i..<n]" by (rule upt_conv_Cons)
    with True show ?thesis
      using 1 by (subst sanitize_loop.simps) (simp add: Let_def fun_upd_def)
  qed (simp add: sanitize_loop.simps)
qed

lemma take_str_bytes:
  "take RPCHAT_MAX_STR_LENGTH (str_bytes s) =
     map (contents s) [0..<unat (if unat (len s) < RPCHAT_MAX_STR_LENGTH then len s
       else word_of_nat RPCHAT_MAX_STR_LENGTH)]"
  by (simp add: str_bytes_def take_map RPCHAT_MAX_STR_LENGTH_def min_def)

lemma length_sanitize_spec: "length (sanitize_spec b bs) \<le> STR_STORAGE"
proof -
  have "length (filter (keep_char b) (take RPCHAT_MAX_STR_LENGTH bs)) \<le> RPCHAT_MAX_STR_LENGTH"
    using length_filter_le [of "keep_char b" "take RPCHAT_MAX_STR_LENGTH bs"] by simp
  then show ?thesis
    by (simp add: sanitize_spec_def Let_def RPCHAT_MAX_STR_LENGTH_def STR_STORAGE_def)
qed

text \<open>The closed form: clamp the input, store the filtered bytes over the old output.\<close>

lemma sanitize_eq:
  "rpchat_string_sanitize inp out b =
     (let bs = sanitize_spec b (str_bytes inp) in
      (if bs = [] then RPLIB_UNSUCCESS else RPLIB_SUCCESS,
       inp\<lparr>len := if unat (len inp) < RPCHAT_MAX_STR_LENGTH then len inp
                  else word_of_nat RPCHAT_MAX_STR_LENGTH\<rparr>,
       \<lparr>len = word_of_nat (length bs), contents = store_bytes (contents out) 0 bs\<rparr>))"
proof -
  let ?ys = "filter (keep_char b) (take RPCHAT_MAX_STR_LENGTH (str_bytes inp))"
  let ?o = "store_bytes (contents out) 0 ?ys"
  have loop: "sanitize_loop b (contents inp) (unat (if unat (len inp) < RPCHAT_MAX_STR_LENGTH
        then len inp else word_of_nat RPCHAT_MAX_STR_LENGTH)) 0 (contents out) 0 = (?o, length ?ys)"
    by (simp add: sanitize_loop_eq take_str_bytes)
  have last: "?o (length ?ys - 1) \<noteq> 0" if "?ys \<noteq> []"
  proof -
    have "?o (length ?ys - 1) = ?ys ! (length ?ys - 1)" using that by (simp add: store_bytes_nth)
    moreover have "?ys ! (length ?ys - 1) \<in> set ?ys" using that by (intro nth_mem) simp
    ultimately show ?thesis using keep_char_nonzero by (metis (mono_tags, lifting) mem_Collect_eq set_filter)
  qed
  show ?thesis
  proof (cases "?ys = []")
    case True
    then show ?thesis
      by (simp add: rpchat_string_sanitize_def Let_def loop sanitize_spec_def)
  next
    case False
    have "length (?ys @ [0]) < 2 ^ 16"
      using length_sanitize_spec [of b "str_bytes inp"] False
      by (simp add: sanitize_spec_def Let_def STR_STORAGE_def)
    then have "(word_of_nat (length (?ys @ [0])) :: 16 word) > 0"
      by (simp add: word_neq_0_conv [symmetric] of_nat_word_eq_0_iff_small del: of_nat_Suc)
    with False last [OF False] show ?thesis
      by (simp add: rpchat_string_sanitize_def Let_def loop sanitize_spec_def store_bytes_snoc)
  qed
qed

lemma sanitize_out_bytes:
  "str_bytes \<lparr>len = word_of_nat (length (sanitize_spec b bs)),
     contents = store_bytes m 0 (sanitize_spec b bs)\<rparr> = sanitize_spec b bs"
proof -
  have "length (sanitize_spec b bs) < 2 ^ 16"
    using length_sanitize_spec [of b bs] by (simp add: STR_STORAGE_def)
  then have "unat (word_of_nat (length (sanitize_spec b bs)) :: 16 word) = length (sanitize_spec b bs)"
    by (simp add: unat_of_nat_small)
  then show ?thesis by (simp add: str_bytes_def map_store_bytes)
qed

lemma sanitize_spec_idem: "sanitize_spec b (sanitize_spec b bs) = sanitize_spec b bs"
proof -
  define ys where "ys = filter (keep_char b) (take RPCHAT_MAX_STR_LENGTH bs)"
  have len: "length ys \<le> RPCHAT_MAX_STR_LENGTH"
    using length_filter_le [of "keep_char b" "take RPCHAT_MAX_STR_LENGTH bs"] by (simp add: ys_def)
  have idem: "filter (keep_char b) ys = ys" by (simp add: ys_def)
  have "\<not> keep_char b 0" using keep_char_nonzero by blast
  then have "filter (keep_char b) (take RPCHAT_MAX_STR_LENGTH (ys @ [0])) = ys"
    using len idem by (cases "RPCHAT_MAX_STR_LENGTH - length ys") auto
  then show ?thesis
    by (auto simp: sanitize_spec_def Let_def simp flip: ys_def)
qed

lemma c_str_store:
  "0 \<notin> set bs \<Longrightarrow> length bs < n \<Longrightarrow> c_str (store_bytes m i (bs @ [0])) i n = Some bs"
proof (induction bs arbitrary: m i n)
  case Nil
  then show ?case by (cases n) (auto simp: store_bytes_nth)
next
  case (Cons c bs)
  then obtain k where k: "n = Suc k" by (cases n) auto
  have "store_bytes m i ((c # bs) @ [0]) i = c" by (simp add: store_bytes_nth)
  with Cons k show ?case by auto
qed

lemma snprintf_str_bytes:
  assumes "length bs < 2 ^ 16"
  shows "take RPCHAT_MAX_STR_LENGTH (str_bytes (snprintf_str s bs)) =
     (if length bs < RPCHAT_MAX_STR_LENGTH then bs else take (RPCHAT_MAX_STR_LENGTH - 1) bs @ [0])"
proof -
  let ?cs = "take (RPCHAT_MAX_STR_LENGTH - 1) bs @ [0]"
  have l: "unat (word_of_nat (length bs) :: 16 word) = length bs"
    using assms by (simp add: unat_of_nat_small)
  have "take RPCHAT_MAX_STR_LENGTH (str_bytes (snprintf_str s bs)) =
      map (store_bytes (contents s) 0 ?cs) [0..<min (length bs) RPCHAT_MAX_STR_LENGTH]"
    using l by (simp add: snprintf_str_def snprintf_def str_bytes_def RPCHAT_MAX_STR_LENGTH_def
        take_map min_def)
  also have "\<dots> = take (min (length bs) RPCHAT_MAX_STR_LENGTH) ?cs"
    by (rule map_store_bytes_take) (simp add: RPCHAT_MAX_STR_LENGTH_def)
  finally show ?thesis by (auto simp: RPCHAT_MAX_STR_LENGTH_def min_def)
qed

lemma snprintf_str_exact:
  assumes "length bs < RPCHAT_MAX_STR_LENGTH"
  shows "str_bytes (snprintf_str s bs) = bs"
proof -
  have "length (str_bytes (snprintf_str s bs)) = length bs"
    using assms by (simp add: str_bytes_def snprintf_str_def snprintf_def unat_of_nat_small RPCHAT_MAX_STR_LENGTH_def)
  then show ?thesis
    using snprintf_str_bytes [of bs s] assms by (simp add: RPCHAT_MAX_STR_LENGTH_def)
qed

lemma sanitize_snprintf_str:
  assumes "length bs < 2 ^ 16"
  shows "sanitize_spec b (str_bytes (snprintf_str s bs)) =
     sanitize_spec b (take (RPCHAT_MAX_STR_LENGTH - 1) bs)"
proof -
  have "\<not> keep_char b 0" using keep_char_nonzero by blast
  then have "filter (keep_char b) (take RPCHAT_MAX_STR_LENGTH (str_bytes (snprintf_str s bs))) =
      filter (keep_char b) (take (RPCHAT_MAX_STR_LENGTH - 1) bs)"
    by (auto simp: snprintf_str_bytes [OF assms])
  then show ?thesis by (simp add: sanitize_spec_def Let_def RPCHAT_MAX_STR_LENGTH_def)
qed

subsection \<open>Properties\<close>

text \<open>
  C29. \<open>rpchat_string_sanitize\<close> computes the filter its comment describes: the output holds the
  printable ASCII characters of the first 4095 bytes of the input (and, if control characters
  are allowed, tab, newline and space), in order, followed by a NUL; with no such
  character it is empty and the call returns \<open>RPLIB_UNSUCCESS\<close>. Read as a C string the output
  is the kept characters, and sanitizing it again changes nothing.
\<close>

theorem sanitize_filters:
  "let (res, inp', out') = rpchat_string_sanitize inp out b;
       ys = filter (keep_char b) (take 4095 (str_bytes inp))
   in str_bytes out' = (if ys = [] then [] else ys @ [0]) \<and>
      res = (if ys = [] then RPLIB_UNSUCCESS else RPLIB_SUCCESS) \<and>
      str_arg out' = (if ys = [] then str_arg out else Some ys) \<and>
      sanitize_spec b (str_bytes out') = str_bytes out'"
proof -
  let ?ys = "filter (keep_char b) (take 4095 (str_bytes inp))"
  let ?o = "\<lparr>len = word_of_nat (length (sanitize_spec b (str_bytes inp))),
     contents = store_bytes (contents out) 0 (sanitize_spec b (str_bytes inp))\<rparr>"
  have spec: "sanitize_spec b (str_bytes inp) = (if ?ys = [] then [] else ?ys @ [0])"
    by (simp add: sanitize_spec_def Let_def RPCHAT_MAX_STR_LENGTH_def)
  have "0 \<notin> set ?ys" using keep_char_nonzero by (metis (mono_tags, lifting) mem_Collect_eq set_filter)
  moreover have "length ?ys < 4096"
    using length_filter_le [of "keep_char b" "take 4095 (str_bytes inp)"] by simp
  ultimately have "str_arg ?o = (if ?ys = [] then str_arg out else Some ?ys)"
    by (simp add: str_arg_def spec STR_STORAGE_def c_str_store)
  then show ?thesis
    using sanitize_out_bytes [of b "str_bytes inp" "contents out"] spec
      sanitize_spec_idem [of b "str_bytes inp"]
    by (simp add: sanitize_eq Let_def)
qed

text \<open>
  C30. \<open>rpchat_string_sanitize\<close> never writes outside its output object: the length stays within
  the 4096 bytes of storage and only the bytes below it change. The terminator is written to
  \<open>contents[4095]\<close>, one past the declared array and onto the padding byte, exactly when the
  first 4095 bytes of the input are all kept.
\<close>

theorem sanitize_bounds:
  "let (res, inp', out') = rpchat_string_sanitize inp out b
   in unat (len out') \<le> STR_STORAGE \<and> unat (len inp') \<le> RPCHAT_MAX_STR_LENGTH \<and>
      contents out' = store_bytes (contents out) 0 (str_bytes out') \<and>
      (unat (len out') = STR_STORAGE \<longleftrightarrow>
         length (filter (keep_char b) (take RPCHAT_MAX_STR_LENGTH (str_bytes inp)))
           = RPCHAT_MAX_STR_LENGTH)"
proof -
  let ?bs = "sanitize_spec b (str_bytes inp)"
  have "length ?bs < 2 ^ 16"
    using length_sanitize_spec [of b "str_bytes inp"] by (simp add: STR_STORAGE_def)
  then have l: "unat (word_of_nat (length ?bs) :: 16 word) = length ?bs"
    by (simp add: unat_of_nat_small)
  have "length ?bs = STR_STORAGE \<longleftrightarrow>
     length (filter (keep_char b) (take RPCHAT_MAX_STR_LENGTH (str_bytes inp))) = RPCHAT_MAX_STR_LENGTH"
    by (auto simp: sanitize_spec_def Let_def STR_STORAGE_def RPCHAT_MAX_STR_LENGTH_def)
  then show ?thesis
    using l length_sanitize_spec [of b "str_bytes inp"]
      sanitize_out_bytes [of b "str_bytes inp" "contents out"]
    by (simp add: sanitize_eq Let_def) (simp add: RPCHAT_MAX_STR_LENGTH_def)
qed

end
