(* ===== verification/Tpool.thy ===== *)
theory Tpool
  imports Ll_Queue
begin

text \<open>
  The thread pool of \<open>lib/rplib/src/rplib_tpool.c\<close>: its data, creation, the task queue
  operations, and how a worker takes a task. A mutex is a flag; locking one that is held
  never returns. Task functions are represented by the type \<open>'f\<close> and their arguments, which the
  pool only passes on, by \<open>'arg\<close>. Of the thread handles in \<open>p_thread_buf\<close> only matters whether
  their array could be allocated. The locale \<open>task_pool\<close> is what the server relies on; the pool
  is an instance of it.
\<close>

record ('f, 'arg) rplib_tpool_task =
  p_function :: 'f
  p_arg :: 'arg

record ('f, 'arg) rplib_tpool =
  p_queue_tasks :: "('f, 'arg) rplib_tpool_task rplib_ll_queue"
  p_thread_buf :: bool
  num_threads :: nat
  num_threads_busy :: "64 word"
  num_threads_alive :: "64 word"
  mutex_task_queue :: bool
  mutex_thrd_count :: bool
  b_terminate :: bool

text \<open>\<open>sizeof(rplib_tpool_task_t)\<close>: two pointers.\<close>

definition SIZEOF_TASK :: nat where
  "SIZEOF_TASK = 16"

text \<open>What stays as it is while the pool works: its number of threads and whether it is to stop.\<close>

definition pool_flags :: "('f, 'arg) rplib_tpool \<Rightarrow> nat \<times> bool" where
  [simp]: "pool_flags s = (num_threads s, b_terminate s)"

abbreviation tasks_op ::
  "(('f, 'arg) rplib_tpool_task rplib_ll_queue, 'a) prog \<Rightarrow> (('f, 'arg) rplib_tpool, 'a) prog" where
  "tasks_op m \<equiv> zoomM p_queue_tasks (\<lambda>q s. s\<lparr>p_queue_tasks := q\<rparr>) m"

subsection \<open>Creation\<close>

text \<open>
  \<open>rplib_tpool_initialize\<close>: \<open>queue_ok\<close> and \<open>buf_ok\<close> are whether the task queue and the array of
  thread handles could be allocated and \<open>inits\<close> are the results of the four \<open>pthread\<close>
  initialisers. The fields are set whether or not an initialiser fails; failed allocations go
  unnoticed, the \<open>None\<close> here is the NULL left in \<open>p_queue_tasks\<close>.
\<close>

definition rplib_tpool_initialize ::
  "nat \<Rightarrow> bool \<Rightarrow> bool \<Rightarrow> bool list \<Rightarrow> int list \<Rightarrow> (fault + int \<times> ('f, 'arg) rplib_tpool option) option" where
  "rplib_tpool_initialize n queue_ok buf_ok ms inits =
     (if n = 0 then Some (Inl AssertFailed)
      else Some (Inr
        (if list_all (\<lambda>r. r = 0) inits then RPLIB_SUCCESS else RPLIB_UNSUCCESS,
         map_option (\<lambda>q. \<lparr>p_queue_tasks = q, p_thread_buf = buf_ok, num_threads = n, num_threads_busy = 0,
             num_threads_alive = 0, mutex_task_queue = False, mutex_thrd_count = False,
             b_terminate = False\<rparr>)
           (rplib_ll_queue_create queue_ok ms))))"

text \<open>\<open>rplib_tpool_create\<close> ignores the result of the initialisation.\<close>

definition rplib_tpool_create ::
  "nat \<Rightarrow> bool \<Rightarrow> bool \<Rightarrow> bool \<Rightarrow> bool list \<Rightarrow> int list \<Rightarrow> (fault + ('f, 'arg) rplib_tpool option option) option" where
  "rplib_tpool_create n pool_ok queue_ok buf_ok ms inits =
     (if \<not> pool_ok then Some (Inr None)
      else case rplib_tpool_initialize n queue_ok buf_ok ms inits of
             None \<Rightarrow> None
           | Some (Inl e) \<Rightarrow> Some (Inl e)
           | Some (Inr (res, p)) \<Rightarrow> Some (Inr (Some p)))"

subsection \<open>The task queue\<close>

definition lock_task_queue :: "(('f, 'arg) rplib_tpool, unit) prog" where
  "lock_task_queue s =
     (if mutex_task_queue s then None else Some (Inr ((), s\<lparr>mutex_task_queue := True\<rparr>)))"

definition unlock_task_queue :: "(('f, 'arg) rplib_tpool, unit) prog" where
  "unlock_task_queue = modifyM (\<lambda>s. s\<lparr>mutex_task_queue := False\<rparr>)"

text \<open>
  \<open>rplib_tpool_enqueue_task\<close>: the comparison with NULL is stored in \<open>res\<close>, so on failure \<open>res\<close> is
  0, which is \<open>RPLIB_SUCCESS\<close>, and the jump to \<open>leave\<close> skips the unlocking.
\<close>

definition rplib_tpool_enqueue_task :: "'f \<Rightarrow> 'arg \<Rightarrow> (('f, 'arg) rplib_tpool, int) prog" where
  "rplib_tpool_enqueue_task f a =
     thenM lock_task_queue
     (bindM (tasks_op (rplib_ll_queue_enqueue \<lparr>p_function = f, p_arg = a\<rparr> SIZEOF_TASK)) (\<lambda>p_node.
      let res = (if NULL \<noteq> p_node then 1 else 0 :: int) in
      if res = 0 then returnM res
      else thenM unlock_task_queue (returnM RPLIB_SUCCESS)))"

text \<open>
  How a worker gets its next task (\<open>rplib_tpool_thread_do\<close>, from taking the queue's lock to
  releasing it). \<open>None\<close> as a result is the termination branch; with an empty queue the worker
  waits, which does not return.
\<close>

definition tpool_take_task ::
  "(('f, 'arg) rplib_tpool, ('f, 'arg) rplib_tpool_task option) prog" where
  "tpool_take_task =
     thenM lock_task_queue
     (bindM (getsM (\<lambda>s. q_size (p_queue_tasks s))) (\<lambda>n.
      bindM (getsM b_terminate) (\<lambda>term.
      if n = 0 \<and> \<not> term then blockM
      else if term then thenM unlock_task_queue (returnM None)
      else
        bindM (getsM (\<lambda>s. p_front (p_queue_tasks s))) (\<lambda>front.
        bindM (tasks_op (load_node front)) (\<lambda>nd.
        bindM (tasks_op (load_buf (p_data nd))) (\<lambda>t.
        thenM (tasks_op rplib_ll_queue_dequeue)
        (thenM unlock_task_queue
        (returnM (Some t)))))))))"

subsection \<open>Queued tasks\<close>

definition tpool_tasks :: "('f, 'arg) rplib_tpool \<Rightarrow> ('f, 'arg) rplib_tpool_task list" where
  "tpool_tasks s = map snd (ll_list (p_queue_tasks s))"

abbreviation tpool_inv :: "('f, 'arg) rplib_tpool \<Rightarrow> bool" where
  "tpool_inv s \<equiv> ll_inv (p_queue_tasks s)"

lemma SIZEOF_TASK_Suc: "SIZEOF_TASK = Suc 15"
  by (simp add: SIZEOF_TASK_def)

text \<open>
  What the pool promises the rest of the server. A call on a locked queue does not return. On a free
  queue an enqueue always reports success: either the task is appended, which it is while there is
  \<open>room\<close>, or it is dropped and the lock stays held. A worker gets the oldest task, waits on an empty queue
  and stops without a task once the pool is to stop. \<open>flags\<close> is what neither call changes.
\<close>

locale task_pool =
  fixes enq :: "'f \<Rightarrow> 'arg \<Rightarrow> ('s, int) prog"
    and get :: "('s, ('f, 'arg) rplib_tpool_task option) prog"
    and inv :: "'s \<Rightarrow> bool"
    and tasks :: "'s \<Rightarrow> ('f, 'arg) rplib_tpool_task list"
    and locked :: "'s \<Rightarrow> bool"
    and stopped :: "'s \<Rightarrow> bool"
    and room :: "nat \<Rightarrow> 's \<Rightarrow> bool"
    and flags :: "'s \<Rightarrow> 'b"
  assumes enq_locked: "locked s \<Longrightarrow> enq f a s = None"
    and enq_cases: "inv s \<Longrightarrow> \<not> locked s \<Longrightarrow>
      \<exists>s'. enq f a s = Some (Inr (RPLIB_SUCCESS, s')) \<and> inv s' \<and> flags s' = flags s \<and>
        tasks s' = (if locked s' then tasks s else tasks s @ [\<lparr>p_function = f, p_arg = a\<rparr>])"
    and enq_room: "inv s \<Longrightarrow> \<not> locked s \<Longrightarrow> room (Suc k) s \<Longrightarrow>
      \<exists>s'. enq f a s = Some (Inr (RPLIB_SUCCESS, s')) \<and> \<not> locked s' \<and> room k s'"
    and get_locked: "locked s \<Longrightarrow> get s = None"
    and get_stopped: "\<not> locked s \<Longrightarrow> stopped s \<Longrightarrow> get s = Some (Inr (None, s))"
    and get_Nil: "inv s \<Longrightarrow> \<not> locked s \<Longrightarrow> \<not> stopped s \<Longrightarrow> tasks s = [] \<Longrightarrow> get s = None"
    and get_Cons: "inv s \<Longrightarrow> \<not> locked s \<Longrightarrow> \<not> stopped s \<Longrightarrow> tasks s = t # ts \<Longrightarrow>
      \<exists>s'. get s = Some (Inr (Some t, s')) \<and> inv s' \<and> \<not> locked s' \<and> flags s' = flags s \<and> tasks s' = ts"
    and stopped_flags: "flags s = flags s' \<Longrightarrow> stopped s = stopped s'"
begin

lemma wp_enq:
  assumes "inv s"
    and ok: "\<And>s'. inv s' \<Longrightarrow> tasks s' = tasks s @ [\<lparr>p_function = f, p_arg = a\<rparr>] \<Longrightarrow>
        \<not> locked s \<Longrightarrow> \<not> locked s' \<Longrightarrow> flags s' = flags s \<Longrightarrow> Q RPLIB_SUCCESS s'"
    and failed: "\<And>s'. inv s' \<Longrightarrow> tasks s' = tasks s \<Longrightarrow>
        \<not> locked s \<Longrightarrow> locked s' \<Longrightarrow> flags s' = flags s \<Longrightarrow> Q RPLIB_SUCCESS s'"
  shows "wp (enq f a) E Q s"
proof (cases "locked s")
  case False
  obtain s' where "enq f a s = Some (Inr (RPLIB_SUCCESS, s'))" "inv s'" "flags s' = flags s"
      "tasks s' = (if locked s' then tasks s else tasks s @ [\<lparr>p_function = f, p_arg = a\<rparr>])"
    using enq_cases [OF assms(1) False] by blast
  then show ?thesis using ok failed False by (cases "locked s'") (simp_all add: wp_def)
qed (simp add: wp_def enq_locked)

lemma enq_run:
  assumes "inv s" and "\<not> locked s" and "room (Suc k) s"
  shows "\<exists>s'. enq f a s = Some (Inr (RPLIB_SUCCESS, s')) \<and> inv s' \<and>
     tasks s' = tasks s @ [\<lparr>p_function = f, p_arg = a\<rparr>] \<and> \<not> locked s' \<and>
     stopped s' = stopped s \<and> room k s'"
proof -
  obtain s' where s': "enq f a s = Some (Inr (RPLIB_SUCCESS, s'))" "\<not> locked s'" "room k s'"
    using enq_room [OF assms] by blast
  then have "inv s'" "flags s' = flags s" "tasks s' = tasks s @ [\<lparr>p_function = f, p_arg = a\<rparr>]"
    using enq_cases [OF assms(1,2), of f a] by simp_all
  with s' show ?thesis using stopped_flags [of s' s] by simp
qed

text \<open>A result of an enqueue is one of the two.\<close>

lemma enq_effect:
  assumes "inv s" and "enq f a s = Some (Inr (r, s'))"
  shows "inv s' \<and> \<not> locked s \<and> flags s' = flags s \<and>
     tasks s' = (if locked s' then tasks s else tasks s @ [\<lparr>p_function = f, p_arg = a\<rparr>])"
proof -
  have "\<not> locked s" using assms(2) enq_locked [of s f a] by auto
  then show ?thesis using enq_cases [OF assms(1), of f a] assms(2) by auto
qed

lemma wp_get:
  assumes "inv s"
    and task: "\<And>s' t ts. inv s' \<Longrightarrow> tasks s = t # ts \<Longrightarrow> tasks s' = ts \<Longrightarrow> \<not> stopped s \<Longrightarrow>
        \<not> locked s \<Longrightarrow> \<not> locked s' \<Longrightarrow> flags s' = flags s \<Longrightarrow> Q (Some t) s'"
    and stop: "stopped s \<Longrightarrow> \<not> locked s \<Longrightarrow> Q None s"
  shows "wp get E Q s"
proof (cases "locked s \<or> stopped s")
  case True
  then show ?thesis using stop by (cases "locked s") (simp_all add: wp_def get_locked get_stopped)
next
  case False
  show ?thesis
  proof (cases "tasks s")
    case Nil
    then show ?thesis using get_Nil [OF assms(1)] False by (simp add: wp_def)
  next
    case (Cons t ts)
    then obtain s' where "get s = Some (Inr (Some t, s'))" "inv s'" "\<not> locked s'" "flags s' = flags s" "tasks s' = ts"
      using get_Cons [OF assms(1)] False by blast
    then show ?thesis using task [OF _ Cons] False by (simp add: wp_def)
  qed
qed

lemma get_spec:
  assumes "inv s" and "\<not> locked s"
  shows "if stopped s then get s = Some (Inr (None, s))
     else case tasks s of
            [] \<Rightarrow> get s = None
          | t # ts \<Rightarrow> \<exists>s'. get s = Some (Inr (Some t, s')) \<and> inv s' \<and> tasks s' = ts \<and> \<not> locked s'"
  using get_stopped [OF assms(2)] get_Nil [OF assms] get_Cons [OF assms] by (auto split: list.split)

text \<open>A dropped task is the last thing that happens on the queue.\<close>

lemma dropped_wedges:
  assumes "inv s" and "enq f a s = Some (Inr (r, s'))" and "tasks s' \<noteq> tasks s @ [\<lparr>p_function = f, p_arg = a\<rparr>]"
  shows "tasks s' = tasks s \<and> enq g b s' = None \<and> get s' = None"
proof -
  have "locked s'" "tasks s' = tasks s" using enq_effect [OF assms(1,2)] assms(3) by (auto split: if_splits)
  then show ?thesis by (simp add: enq_locked get_locked)
qed

end

subsection \<open>The pool keeps its promises\<close>

lemmas tpool_run = rplib_tpool_enqueue_task_def tpool_take_task_def lock_task_queue_def
  unlock_task_queue_def SIZEOF_TASK_Suc tpool_tasks_def run_simps

lemma q_size_tasks: "tpool_inv s \<Longrightarrow> q_size (p_queue_tasks s) = 0 \<longleftrightarrow> tpool_tasks s = []"
  using unat_q_size [of "p_queue_tasks s"] by (metis tpool_tasks_def length_0_conv unat_eq_zero map_is_Nil_conv)

lemma take_enabled:
  assumes "tpool_inv p" and "tpool_tasks p \<noteq> []"
  obtains nd t q where "load_node (p_front (p_queue_tasks p)) (p_queue_tasks p) = Some (Inr (nd, p_queue_tasks p))"
    and "load_buf (p_data nd) (p_queue_tasks p) = Some (Inr (t, p_queue_tasks p))"
    and "rplib_ll_queue_dequeue (p_queue_tasks p) = Some (Inr (RPLIB_SUCCESS, q))"
    and "ll_inv q" and "tpool_tasks p = t # map snd (ll_list q)"
proof -
  obtain d t es where l: "ll_list (p_queue_tasks p) = (d, t) # es"
    using assms(2) by (cases "ll_list (p_queue_tasks p)") (auto simp: tpool_tasks_def)
  obtain nd where nd: "load_node (p_front (p_queue_tasks p)) (p_queue_tasks p)
      = Some (Inr (nd, p_queue_tasks p))" "p_data nd = d"
      "load_buf d (p_queue_tasks p) = Some (Inr (t, p_queue_tasks p))"
    using ll_front [OF assms(1) l] by metis
  obtain q where q: "rplib_ll_queue_dequeue (p_queue_tasks p) = Some (Inr (RPLIB_SUCCESS, q))"
      "ll_inv q" "ll_list q = es"
    using lq.deq_Cons [OF assms(1) l] by blast
  show ?thesis by (rule that [of nd t q]) (use nd q l in \<open>simp_all add: tpool_tasks_def\<close>)
qed

lemma enqueue_task_cases:
  assumes "tpool_inv s" and "\<not> mutex_task_queue s"
  shows "\<exists>s'. rplib_tpool_enqueue_task f a s = Some (Inr (RPLIB_SUCCESS, s')) \<and> tpool_inv s' \<and>
     pool_flags s' = pool_flags s \<and>
     tpool_tasks s' = (if mutex_task_queue s' then tpool_tasks s
       else tpool_tasks s @ [\<lparr>p_function = f, p_arg = a\<rparr>])"
  using lq.enq_cases [OF assms(1), of "\<lparr>p_function = f, p_arg = a\<rparr>" 15] assms(2)
  by (elim disjE exE conjE) (simp_all add: tpool_run)

lemma enqueue_task_room:
  assumes "tpool_inv s" and "\<not> mutex_task_queue s" and "ll_rooms (Suc k) (p_queue_tasks s)"
  shows "\<exists>s'. rplib_tpool_enqueue_task f a s = Some (Inr (RPLIB_SUCCESS, s')) \<and> \<not> mutex_task_queue s' \<and>
     ll_rooms k (p_queue_tasks s')"
  using lq.enq_room [OF assms(1,3), of "\<lparr>p_function = f, p_arg = a\<rparr>" 15] assms(2)
  by (elim exE conjE) (simp add: tpool_run)

lemma take_task_Cons:
  assumes "tpool_inv s" and "\<not> mutex_task_queue s" and "\<not> b_terminate s" and "tpool_tasks s = t # ts"
  shows "\<exists>s'. tpool_take_task s = Some (Inr (Some t, s')) \<and> tpool_inv s' \<and> \<not> mutex_task_queue s' \<and>
     pool_flags s' = pool_flags s \<and> tpool_tasks s' = ts"
proof -
  have "tpool_tasks s \<noteq> []" and n: "q_size (p_queue_tasks s) \<noteq> 0"
    using assms(4) q_size_tasks [OF assms(1)] by simp_all
  then obtain nd u q where "load_node (p_front (p_queue_tasks s)) (p_queue_tasks s) = Some (Inr (nd, p_queue_tasks s))"
      "load_buf (p_data nd) (p_queue_tasks s) = Some (Inr (u, p_queue_tasks s))"
      "rplib_ll_queue_dequeue (p_queue_tasks s) = Some (Inr (RPLIB_SUCCESS, q))"
      "ll_inv q" and l: "tpool_tasks s = u # map snd (ll_list q)"
    using take_enabled [OF assms(1)] by blast
  moreover have "u = t" "map snd (ll_list q) = ts" using l assms(4) by simp_all
  ultimately show ?thesis using n assms(2,3) by (simp add: tpool_run)
qed

interpretation tq: task_pool rplib_tpool_enqueue_task tpool_take_task tpool_inv tpool_tasks mutex_task_queue
  b_terminate "\<lambda>k s. ll_rooms k (p_queue_tasks s)" pool_flags
proof (unfold_locales, goal_cases)
  case (2 s f a)
  then show ?case by (rule enqueue_task_cases)
next
  case (3 s k f a)
  then show ?case by (rule enqueue_task_room)
next
  case (6 s)
  then show ?case using q_size_tasks [OF 6(1)] by (simp add: tpool_run)
next
  case (7 s t ts)
  then show ?case by (rule take_task_Cons)
qed (auto simp: tpool_run)

end
