(* ===== verification/Chat_Os.thy ===== *)
theory Chat_Os
  imports Rpchat_Prelude
begin

text \<open>
  The part of the kernel and of the C library the server talks to: open descriptors, the epoll
  interest list, the bytes that have arrived on each socket, what was sent, the clock, pending
  signals and standard output. The calls are deterministic functions of this state; what
  is not determined by it (whether a \<open>send\<close> or a \<open>malloc\<close> succeeds, which descriptor \<open>accept\<close>
  returns, what uninitialised memory holds) is a field of the state that nothing
  constrains, so a theorem about a call holds for every answer the system can give.

  Modelled behaviour, as documented for Linux: \<open>recv\<close> returns what has arrived, at most the
  requested number of bytes, 0 at the end of the stream, and when nothing has arrived it is -1 on a
  non-blocking descriptor and waits on any other;
  \<open>epoll_ctl\<close> refuses closed descriptors, adding a descriptor twice and removing one that is
  not there; \<open>close\<close> removes the descriptor from every interest list; a \<open>send\<close> on a
  connection the peer has reset raises SIGPIPE, which ends a process that does not handle it.
\<close>

subsection \<open>epoll events\<close>

text \<open>
  \<open>epoll_data_t\<close> is a union. A connection is registered by pointer and the two service
  descriptors by number; reading \<open>data.fd\<close> of a pointer gives its low 32 bits.
\<close>

datatype epoll_data = Data_fd int | Data_ptr addr

fun data_fd :: "epoll_data \<Rightarrow> int" where
  "data_fd (Data_fd fd) = fd"
| "data_fd (Data_ptr p) = sint (word_of_nat p :: 32 word)"

fun data_ptr :: "epoll_data \<Rightarrow> addr" where
  "data_ptr (Data_fd fd) = unat (word_of_int fd :: 32 word)"
| "data_ptr (Data_ptr p) = p"

record epoll_event =
  ev_events :: "32 word"
  ev_data :: epoll_data

definition EPOLLIN :: "32 word" where
  "EPOLLIN = 0x001"

definition EPOLLERR :: "32 word" where
  "EPOLLERR = 0x008"

definition EPOLLHUP :: "32 word" where
  "EPOLLHUP = 0x010"

definition EPOLLET :: "32 word" where
  "EPOLLET = 0x80000000"

definition has_event :: "32 word \<Rightarrow> 32 word \<Rightarrow> bool" where
  "has_event evs bits \<longleftrightarrow> Bit_Operations.and evs bits \<noteq> 0"

subsection \<open>State\<close>

record os =
  open_fds :: "int \<Rightarrow> bool"
  interest :: "int \<rightharpoonup> epoll_event"
  rx :: "int \<Rightarrow> byte list"
  peer_closed :: "int \<Rightarrow> bool"
  tx :: "(int \<times> byte list) list"
  send_results :: "int list"
  clock :: int
  backlog :: "int list"
  nonblocking :: "int \<Rightarrow> bool"
  signals :: "int list"
  heap_results :: "bool list"
  uninit :: "nat \<Rightarrow> byte"
  uninit_event :: epoll_event
  log_out :: "byte list list"

subsection \<open>Calls\<close>

definition os_malloc :: "(os, bool) prog" where
  "os_malloc s = Some (Inr (next_ok (heap_results s), s\<lparr>heap_results := tl (heap_results s)\<rparr>))"

definition os_time :: "(os, int) prog" where
  "os_time = getsM clock"

definition os_printf :: "byte list \<Rightarrow> (os, unit) prog" where
  "os_printf bs = modifyM (\<lambda>s. s\<lparr>log_out := log_out s @ [bs]\<rparr>)"

definition os_recv :: "int \<Rightarrow> nat \<Rightarrow> (os, int \<times> byte list) prog" where
  "os_recv fd n s =
     (if \<not> open_fds s fd then Some (Inr ((- 1, []), s))
      else if n = 0 then Some (Inr ((0, []), s))
      else if rx s fd = [] then
        if peer_closed s fd then Some (Inr ((0, []), s))
        else if nonblocking s fd then Some (Inr ((- 1, []), s))
        else None
      else Some (Inr ((int (min n (length (rx s fd))), take n (rx s fd)),
             s\<lparr>rx := (rx s)(fd := drop n (rx s fd))\<rparr>)))"

definition EPIPE :: int where
  "EPIPE = 32"

text \<open>
  The next element of \<open>send_results\<close> is what \<open>send\<close> will do: fail (any negative number, with
  \<open>- EPIPE\<close> for a reset connection) or accept at most that many bytes. With the list used up
  everything is accepted.
\<close>

definition os_send :: "int \<Rightarrow> byte list \<Rightarrow> (os, int) prog" where
  "os_send fd bs s =
     (let r = (case send_results s of [] \<Rightarrow> int (length bs) | r # _ \<Rightarrow> r);
          s' = s\<lparr>send_results := tl (send_results s)\<rparr>
      in if \<not> open_fds s fd then Some (Inr (- 1, s))
         else if r = - EPIPE then Some (Inl Killed)
         else if r < 0 then Some (Inr (- 1, s'))
         else let n = min (nat r) (length bs)
              in Some (Inr (int n, s'\<lparr>tx := tx s @ [(fd, take n bs)]\<rparr>)))"

definition os_close :: "int \<Rightarrow> (os, int) prog" where
  "os_close fd s =
     (if open_fds s fd then
        Some (Inr (0, s\<lparr>open_fds := (open_fds s)(fd := False), interest := (interest s)(fd := None)\<rparr>))
      else Some (Inr (- 1, s)))"

definition os_epoll_add :: "int \<Rightarrow> int \<Rightarrow> epoll_event \<Rightarrow> (os, int) prog" where
  "os_epoll_add epfd fd ev s =
     (if \<not> open_fds s epfd \<or> \<not> open_fds s fd \<or> interest s fd \<noteq> None then Some (Inr (- 1, s))
      else Some (Inr (0, s\<lparr>interest := (interest s)(fd \<mapsto> ev)\<rparr>)))"

definition os_epoll_del :: "int \<Rightarrow> int \<Rightarrow> (os, int) prog" where
  "os_epoll_del epfd fd s =
     (if \<not> open_fds s epfd \<or> \<not> open_fds s fd \<or> interest s fd = None then Some (Inr (- 1, s))
      else Some (Inr (0, s\<lparr>interest := (interest s)(fd := None)\<rparr>)))"

text \<open>
  \<open>accept\<close> returns the descriptor at the front of \<open>backlog\<close>; it is never one that is open. A
  negative entry is a failed call. The listening socket is a blocking one: with nobody waiting the
  call does not return.
\<close>

definition os_accept :: "int \<Rightarrow> (os, int) prog" where
  "os_accept fd s =
     (if \<not> open_fds s fd then Some (Inr (- 1, s))
      else case backlog s of
        [] \<Rightarrow> None
      | n # ns \<Rightarrow>
          if n < 0 \<or> open_fds s n then Some (Inr (- 1, s\<lparr>backlog := ns\<rparr>))
          else Some (Inr (n, s\<lparr>backlog := ns, open_fds := (open_fds s)(n := True),
                 rx := (rx s)(n := []), peer_closed := (peer_closed s)(n := False),
                 nonblocking := (nonblocking s)(n := False)\<rparr>)))"

definition os_set_nonblocking :: "int \<Rightarrow> (os, int) prog" where
  "os_set_nonblocking fd s =
     (if open_fds s fd then Some (Inr (0, s\<lparr>nonblocking := (nonblocking s)(fd := True)\<rparr>))
      else Some (Inr (- 1, s)))"

text \<open>Reading the signal descriptor takes the oldest pending signal, and waits for one when there is none.\<close>

definition os_read_signal :: "int \<Rightarrow> (os, int) prog" where
  "os_read_signal fd s =
     (if \<not> open_fds s fd then Some (Inr (- 1, s))
      else case signals s of
             [] \<Rightarrow> None
           | n # ns \<Rightarrow> Some (Inr (n, s\<lparr>signals := ns\<rparr>)))"

lemmas os_defs = os_malloc_def os_time_def os_printf_def os_recv_def os_send_def os_close_def
  os_epoll_add_def os_epoll_del_def os_accept_def os_set_nonblocking_def os_read_signal_def

end
