(* ===== verification/Bcp_Util.thy ===== *)
theory Bcp_Util
  imports Chat_Os Rpchat_String
begin

text \<open>
  Basic Chat Protocol definitions and helpers: \<open>include/rpchat_basic_chat_util.h\<close> and
  \<open>src/rpchat_basic_chat_util.c\<close>, the message buffers the server assembles messages in, and the
  abstract messages with their encoding (\<open>chat_server.md\<close>).

  A message buffer is a heap block: \<open>buf_cap\<close> bytes that may be accessed until the block is freed.
  Accessing it outside, or after it was freed, is a fault.
\<close>

subsection \<open>Message types\<close>

text \<open>
  The enumerators of \<open>rpchat_msg_type_t\<close> and \<open>rpchat_stat_code_t\<close> are integers here because
  \<open>rpchat_get_msg_type\<close> returns \<open>RPLIB_UNSUCCESS\<close>, which is not one of them by name but has the
  value of \<open>RPCHAT_BCP_REGISTER\<close>.
\<close>

abbreviation (input) RPCHAT_BCP_REGISTER :: int where
  "RPCHAT_BCP_REGISTER \<equiv> 1"

abbreviation (input) RPCHAT_BCP_SEND :: int where
  "RPCHAT_BCP_SEND \<equiv> 2"

abbreviation (input) RPCHAT_BCP_DELIVER :: int where
  "RPCHAT_BCP_DELIVER \<equiv> 3"

abbreviation (input) RPCHAT_BCP_STATUS :: int where
  "RPCHAT_BCP_STATUS \<equiv> 4"

abbreviation (input) RPCHAT_BCP_STATUS_GOOD :: byte where
  "RPCHAT_BCP_STATUS_GOOD \<equiv> 0"

abbreviation (input) RPCHAT_BCP_STATUS_ERROR :: byte where
  "RPCHAT_BCP_STATUS_ERROR \<equiv> 1"

text \<open>The packed packet structures: an opcode, a status code for STATUS, and string objects.\<close>

definition SIZEOF_PKT_STATUS :: nat where
  "SIZEOF_PKT_STATUS = 2 + SIZEOF_STRING"

definition SIZEOF_PKT_DELIVER :: nat where
  "SIZEOF_PKT_DELIVER = 1 + 2 * SIZEOF_STRING"

subsection \<open>Message buffers\<close>

text \<open>
  Exactly one pointer of the program leads to a message buffer, the field \<open>p_msg_buf\<close> of one argument
  object, so the block is kept with that pointer: \<open>None\<close> is NULL, and a pointer to a block that was freed
  leads to a buffer that is not \<open>buf_live\<close>.
\<close>

record msg_buf =
  buf_cap :: nat
  buf_bytes :: "nat \<Rightarrow> byte"
  buf_live :: bool

definition read_buf :: "msg_buf option \<Rightarrow> nat \<Rightarrow> fault + byte list" where
  "read_buf p n =
     (case p of
        None \<Rightarrow> if n = 0 then Inr [] else Inl NullDeref
      | Some b \<Rightarrow>
          if \<not> buf_live b then Inl UseAfterFree
          else if n \<le> buf_cap b then Inr (map (buf_bytes b) [0..<n]) else Inl BufferOverrun)"

definition write_buf :: "msg_buf option \<Rightarrow> nat \<Rightarrow> byte list \<Rightarrow> fault + msg_buf" where
  "write_buf p off bs =
     (case p of
        None \<Rightarrow> Inl NullDeref
      | Some b \<Rightarrow>
          if \<not> buf_live b then Inl UseAfterFree
          else if off + length bs \<le> buf_cap b
          then Inr (b\<lparr>buf_bytes := store_bytes (buf_bytes b) off bs\<rparr>)
          else Inl BufferOverrun)"

text \<open>\<open>free\<close>: NULL is ignored, a block may be freed once. The pointer is left as it is, and dangles.\<close>

definition free_msg_buf :: "msg_buf option \<Rightarrow> fault + msg_buf option" where
  "free_msg_buf p =
     (case p of
        None \<Rightarrow> Inr None
      | Some b \<Rightarrow> if buf_live b then Inr (Some (b\<lparr>buf_live := False\<rparr>)) else Inl DoubleFree)"

text \<open>Writing a sequence of fields one after the other.\<close>

fun write_fields :: "msg_buf option \<Rightarrow> nat \<Rightarrow> byte list list \<Rightarrow> fault + msg_buf option" where
  "write_fields p off [] = Inr p"
| "write_fields p off (f # fs) =
     (case write_buf p off f of
        Inl e \<Rightarrow> Inl e
      | Inr b \<Rightarrow> write_fields (Some b) (off + length f) fs)"

definition liftM :: "fault + 'a \<Rightarrow> ('s, 'a) prog" where
  "liftM r = (case r of Inl e \<Rightarrow> faultM e | Inr a \<Rightarrow> returnM a)"

text \<open>\<open>memcpy\<close> of the first \<open>n\<close> bytes of a string's contents; the object ends after \<open>STR_STORAGE\<close>.\<close>

definition read_str :: "rpchat_string \<Rightarrow> nat \<Rightarrow> fault + byte list" where
  "read_str s n = (if n \<le> STR_STORAGE then Inr (map (contents s) [0..<n]) else Inl OutOfBounds)"

text \<open>A number and a string object in memory that was not initialised.\<close>

definition uninit_nat :: "os \<Rightarrow> nat \<Rightarrow> nat \<Rightarrow> nat" where
  "uninit_nat s off k = (\<Sum>j < k. unat (uninit s (off + j)) * 256 ^ j)"

definition stack_string :: "nat \<Rightarrow> os \<Rightarrow> rpchat_string" where
  "stack_string off s =
     \<lparr>len = word_of_nat (uninit_nat s off 2), contents = (\<lambda>j. uninit s (off + 2 + j))\<rparr>"

text \<open>\<open>htobe16\<close> stored to memory, \<open>be16toh\<close> of two received bytes, whatever the host order.\<close>

definition be16 :: "16 word \<Rightarrow> byte list" where
  "be16 w = [word_of_nat (unat w div 256), word_of_nat (unat w mod 256)]"

definition be16toh :: "byte list \<Rightarrow> 16 word" where
  "be16toh bs = (case bs of [hi, lo] \<Rightarrow> word_of_nat (256 * unat hi + unat lo) | _ \<Rightarrow> 0)"

subsection \<open>The helper functions\<close>

definition rpchat_get_msg_type :: "msg_buf option \<Rightarrow> fault + int" where
  "rpchat_get_msg_type p_msg_buf =
     (case read_buf p_msg_buf 1 of
        Inl e \<Rightarrow> Inl e
      | Inr bs \<Rightarrow>
          let opcode = sint (hd bs) in
          Inr (if opcode = 1 then RPCHAT_BCP_REGISTER
               else if opcode = 2 then RPCHAT_BCP_SEND
               else if opcode = 3 then RPCHAT_BCP_DELIVER
               else if opcode = 4 then RPCHAT_BCP_STATUS
               else RPLIB_UNSUCCESS))"

definition conn_event :: "addr \<Rightarrow> epoll_event" where
  "conn_event p =
     \<lparr>ev_events = Bit_Operations.or EPOLLIN
        (Bit_Operations.or EPOLLERR (Bit_Operations.or EPOLLHUP EPOLLET)),
      ev_data = Data_ptr p\<rparr>"

text \<open>Enabling ignores the result of \<open>epoll_ctl\<close> and returns \<open>RPLIB_UNSUCCESS\<close>.\<close>

definition rpchat_toggle_descriptor :: "int \<Rightarrow> int \<Rightarrow> addr \<Rightarrow> bool \<Rightarrow> (os, int) prog" where
  "rpchat_toggle_descriptor h_fd_epoll h_toggle_fd p_data_ptr enabled =
     (if \<not> enabled then os_epoll_del h_fd_epoll h_toggle_fd
      else thenM (os_epoll_add h_fd_epoll h_toggle_fd (conn_event p_data_ptr))
             (returnM RPLIB_UNSUCCESS))"

subsection \<open>The protocol's messages\<close>

text \<open>The messages of \<open>chat_server.md\<close>, their wire format and its decoder.\<close>

datatype bcp_msg =
    Register "byte list"
  | Send "byte list"
  | Deliver "byte list" "byte list"
  | Status byte "byte list"

definition enc_string :: "byte list \<Rightarrow> byte list" where
  "enc_string bs = be16 (word_of_nat (length bs)) @ bs"

fun encode :: "bcp_msg \<Rightarrow> byte list" where
  "encode (Register u) = 1 # enc_string u"
| "encode (Send m) = 2 # enc_string m"
| "encode (Deliver f m) = 3 # enc_string f @ enc_string m"
| "encode (Status c m) = 4 # c # enc_string m"

definition dec_string :: "byte list \<Rightarrow> (byte list \<times> byte list) option" where
  "dec_string bs =
     (if length bs < 2 then None
      else let n = unat (be16toh (take 2 bs)); r = drop 2 bs
           in if length r < n then None else Some (take n r, drop n r))"

fun decode :: "byte list \<Rightarrow> (bcp_msg \<times> byte list) option" where
  "decode [] = None"
| "decode (t # r) =
     (if t = 1 then map_option (\<lambda>(u, r). (Register u, r)) (dec_string r)
      else if t = 2 then map_option (\<lambda>(m, r). (Send m, r)) (dec_string r)
      else if t = 3 then
        Option.bind (dec_string r) (\<lambda>(f, r').
          map_option (\<lambda>(m, r''). (Deliver f m, r'')) (dec_string r'))
      else if t = 4 then
        (case r of [] \<Rightarrow> None | c # r' \<Rightarrow> map_option (\<lambda>(m, r''). (Status c m, r'')) (dec_string r'))
      else None)"

fun msg_ok :: "bcp_msg \<Rightarrow> bool" where
  "msg_ok (Register u) \<longleftrightarrow> length u < 65536"
| "msg_ok (Send m) \<longleftrightarrow> length m < 65536"
| "msg_ok (Deliver f m) \<longleftrightarrow> length f < 65536 \<and> length m < 65536"
| "msg_ok (Status c m) \<longleftrightarrow> length m < 65536"

subsection \<open>Lemmas\<close>

lemma wp_liftM [wp_simps]:
  "wp (liftM r) E Q s \<longleftrightarrow> (case r of Inl e \<Rightarrow> E e | Inr a \<Rightarrow> Q a s)"
  by (simp add: liftM_def wp_simps split: sum.splits)

lemma run_liftM [run_simps]:
  "liftM r s = (case r of Inl e \<Rightarrow> Some (Inl e) | Inr a \<Rightarrow> Some (Inr (a, s)))"
  by (simp add: liftM_def run_simps split: sum.splits)

lemma length_be16 [simp]: "length (be16 w) = 2"
  by (simp add: be16_def)

lemma be16toh_be16 [simp]: "be16toh (be16 w) = w"
proof -
  have "unat w < 2 ^ LENGTH(16)" by (rule unsigned_less)
  then have "unat w div 256 < 256" by simp
  then have bytes: "unat (word_of_nat (unat w div 256) :: byte) = unat w div 256"
      "unat (word_of_nat (unat w mod 256) :: byte) = unat w mod 256"
    by (simp_all add: unat_of_nat_small)
  have "be16toh (be16 w) = word_of_nat (256 * (unat w div 256) + unat w mod 256)"
    unfolding be16toh_def be16_def by (simp only: list.case bytes)
  also have "256 * (unat w div 256) + unat w mod 256 = unat w" by simp
  finally show ?thesis by simp
qed

lemma dec_enc_string:
  "length bs < 65536 \<Longrightarrow> dec_string (enc_string bs @ r) = Some (bs, r)"
  by (simp add: dec_string_def enc_string_def unat_of_nat_small)

lemma store_bytes_append:
  "store_bytes m i (bs @ cs) = store_bytes (store_bytes m i bs) (i + length bs) cs"
  by (induction bs arbitrary: m i) auto

lemma write_fields_eq:
  "off + length (concat fs) \<le> buf_cap b \<Longrightarrow> buf_live b \<Longrightarrow>
   write_fields (Some b) off fs =
     Inr (Some (b\<lparr>buf_bytes := store_bytes (buf_bytes b) off (concat fs)\<rparr>))"
  by (induction fs arbitrary: b off) (auto simp: write_buf_def store_bytes_append)

end
