(* ===== verification/Networking.thy ===== *)
theory Networking
  imports Chat_Os
begin

text \<open>
  \<open>src/rpchat_networking.c\<close>: the wrappers around the socket calls, the signal descriptor and the
  set-up of the server's descriptors.

  \<open>rpchat_begin_networking\<close> and \<open>rpchat_setup_server_socket\<close> make one system call after the
  other; the record \<open>setup_results\<close> holds what each of them returns. The lemmas give the result
  of every failure path and the descriptors that are left open on it.
\<close>

definition RPCHAT_DEFAULT_PORT :: int where
  "RPCHAT_DEFAULT_PORT = 9001"

definition RPCHAT_MAX_INCOMING_MSG :: nat where
  "RPCHAT_MAX_INCOMING_MSG = 8195"

definition RPCHAT_CLIENT_AUDIT_INTERVAL :: int where
  "RPCHAT_CLIENT_AUDIT_INTERVAL = 10"

definition RPCHAT_CONNECTION_TIMEOUT :: int where
  "RPCHAT_CONNECTION_TIMEOUT = 60"

subsection \<open>Sending, receiving, closing, signals\<close>

definition rpchat_recv :: "int \<Rightarrow> nat \<Rightarrow> (os, int \<times> byte list) prog" where
  "rpchat_recv h_fd_client n =
     bindM (os_recv h_fd_client n) (\<lambda>(read_bytes, bs).
     returnM (if 0 < read_bytes then read_bytes else RPLIB_ERROR, bs))"

definition rpchat_sendmsg :: "int \<Rightarrow> byte list \<Rightarrow> (os, int) prog" where
  "rpchat_sendmsg h_fd_client bs = os_send h_fd_client bs"

definition rpchat_close_connection :: "int \<Rightarrow> int \<Rightarrow> (os, int) prog" where
  "rpchat_close_connection h_fd_epoll h_fd =
     bindM (os_close h_fd) (\<lambda>res.
     if res \<noteq> RPLIB_SUCCESS then returnM res
     else os_epoll_del h_fd_epoll h_fd)"

definition rpchat_get_signal :: "int \<Rightarrow> (os, int) prog" where
  "rpchat_get_signal h_fd_signal =
     bindM (os_read_signal h_fd_signal) (\<lambda>n. if 0 > n then returnM RPLIB_ERROR else returnM n)"

definition rpchat_accept_new_connection :: "int \<Rightarrow> (os, int) prog" where
  "rpchat_accept_new_connection h_fd_server =
     bindM (os_accept h_fd_server) (\<lambda>h_new_fd.
     if 0 > h_new_fd then returnM RPLIB_ERROR
     else thenM (os_set_nonblocking h_new_fd) (returnM h_new_fd))"

text \<open>
  \<open>rpchat_monitor_connections\<close>: \<open>ready\<close> is what \<open>epoll_wait\<close> returned and \<open>eintr\<close> whether \<open>errno\<close>
  is \<open>EINTR\<close>.
\<close>

definition rpchat_monitor_connections :: "int \<Rightarrow> bool \<Rightarrow> int" where
  "rpchat_monitor_connections ready eintr =
     (if 0 > ready then if eintr then RPLIB_SUCCESS else RPLIB_ERROR
      else ready)"

definition rpchat_stop_networking :: "int \<Rightarrow> int \<Rightarrow> int \<Rightarrow> (os, unit) prog" where
  "rpchat_stop_networking h_fd_epoll h_fd_server h_fd_signal =
     thenM (os_close h_fd_server)
     (thenM (os_close h_fd_signal)
     (thenM (os_close h_fd_epoll)
     (returnM ())))"

subsection \<open>Setting the server up\<close>

record setup_results =
  r_sigset :: "int list"   \<comment> \<open>\<open>sigemptyset\<close>, \<open>sigaddset\<close> twice, \<open>sigprocmask\<close>\<close>
  r_signalfd :: int
  r_epoll_create :: int
  r_socket :: int
  r_reuseaddr :: int
  r_reuseport :: int
  r_bind :: int
  r_listen :: int
  r_setitimer :: int

definition os_new_fd :: "int \<Rightarrow> (os, unit) prog" where
  "os_new_fd fd = modifyM (\<lambda>s. if 0 \<le> fd then s\<lparr>open_fds := (open_fds s)(fd := True)\<rparr> else s)"

definition rpchat_setup_server_socket :: "setup_results \<Rightarrow> (os, int) prog" where
  "rpchat_setup_server_socket r =
     thenM (os_new_fd (r_socket r))
     (if 0 > r_socket r then returnM RPLIB_ERROR
      else if 0 > r_reuseaddr r then returnM RPLIB_ERROR
      else if 0 > r_reuseport r then returnM RPLIB_ERROR
      else if 0 > r_bind r then returnM RPLIB_ERROR
      else if 0 > r_listen r then returnM RPLIB_ERROR
      else returnM (r_socket r))"

text \<open>
  \<open>rpchat_begin_networking\<close> returns its result code and the three descriptors its caller sees
  afterwards (\<open>p_h_fd_server\<close>, \<open>p_h_fd_epoll\<close>, \<open>p_h_fd_signal\<close>); the caller has initialised all
  three with \<open>RPLIB_ERROR\<close>. \<open>res\<close> holds the result of \<open>sigprocmask\<close> when one of the later calls
  fails.
\<close>

definition service_event :: "int \<Rightarrow> epoll_event" where
  "service_event fd = \<lparr>ev_events = EPOLLIN, ev_data = Data_fd fd\<rparr>"

definition rpchat_begin_networking ::
  "setup_results \<Rightarrow> (os, int \<times> int \<times> int \<times> int) prog" where
  "rpchat_begin_networking r =
     thenM (assertM (list_all (\<lambda>n. n = 0) (r_sigset r)))
     (thenM (os_new_fd (r_signalfd r))
     (thenM (assertM (r_signalfd r \<noteq> - 1))
     (thenM (os_new_fd (r_epoll_create r))
     (if 0 > r_epoll_create r then returnM (0, RPLIB_ERROR, RPLIB_ERROR, r_signalfd r)
      else
        bindM (rpchat_setup_server_socket r) (\<lambda>h_sock_server.
        if 0 > h_sock_server then returnM (0, RPLIB_ERROR, RPLIB_ERROR, r_signalfd r)
        else
          bindM (os_epoll_add (r_epoll_create r) h_sock_server (service_event h_sock_server)) (\<lambda>e1.
          if 0 > e1 then returnM (0, RPLIB_ERROR, RPLIB_ERROR, r_signalfd r)
          else
            bindM (os_epoll_add (r_epoll_create r) (r_signalfd r) (service_event (r_signalfd r))) (\<lambda>e2.
            if 0 > e2 then returnM (0, RPLIB_ERROR, RPLIB_ERROR, r_signalfd r)
            else returnM (r_setitimer r, h_sock_server, r_epoll_create r, r_signalfd r))))))))"

subsection \<open>Failure of the set-up\<close>

lemma networking_failure_run:
  assumes "list_all (\<lambda>n. n = 0) (r_sigset r)" and "0 \<le> r_signalfd r" and "0 \<le> r_epoll_create r"
    and "r_socket r < 0 \<or> r_reuseaddr r < 0 \<or> r_reuseport r < 0 \<or> r_bind r < 0 \<or> r_listen r < 0"
  shows "\<exists>s'. rpchat_begin_networking r s =
       Some (Inr ((RPLIB_SUCCESS, RPLIB_ERROR, RPLIB_ERROR, r_signalfd r), s')) \<and>
     open_fds s' (r_epoll_create r) \<and> open_fds s' (r_signalfd r) \<and> tx s' = tx s"
  using assms
  by (auto simp: rpchat_begin_networking_def rpchat_setup_server_socket_def run_simps os_new_fd_def)

end
