(* ===== verification/Chat_State.thy ===== *)
theory Chat_State
  imports Ll_Queue Tpool Bcp_Util Networking
begin

text \<open>
  The state of the running server and the connection objects
  (\<open>include/components/rpchat_conn_info.h\<close>, \<open>src/components/rpchat_conn_info.c\<close>,
  \<open>include/components/rpchat_conn_queue.h\<close> and the task arguments of
  \<open>include/rpchat_process_event.h\<close>).

  A connection object is the data buffer of a node of the connection list, and its address is
  what tasks and epoll registrations hold; using an address whose object was freed is a
  fault. There is one connection queue and one thread pool, so the pointers to them that the C
  functions pass around are left out.
\<close>

subsection \<open>Connection objects\<close>

datatype rpchat_conn_stat =
    RPCHAT_CONN_PRE_REGISTER
  | RPCHAT_CONN_AVAILABLE
  | RPCHAT_CONN_SEND_STAT
  | RPCHAT_CONN_SEND_MSG
  | RPCHAT_CONN_PENDING_STATUS
  | RPCHAT_CONN_ERR
  | RPCHAT_CONN_CLOSING

record rpchat_conn_info =
  h_fd :: int
  pending_jobs :: "32 word"
  username :: rpchat_string
  stat_msg :: rpchat_string
  mutex_conn :: bool
  conn_status :: rpchat_conn_stat
  last_active :: int

text \<open>\<open>sizeof(rpchat_conn_info_t)\<close> on the target.\<close>

definition SIZEOF_CONN_INFO :: nat where
  "SIZEOF_CONN_INFO = 8264"

text \<open>\<open>rpchat_conn_info_initialize\<close>; the contents of the two strings are left as they are.\<close>

definition rpchat_conn_info_initialize ::
  "rpchat_conn_info \<Rightarrow> int \<Rightarrow> int \<Rightarrow> int \<times> rpchat_conn_info" where
  "rpchat_conn_info_initialize p_new_conn_info h_new_fd now =
     (RPLIB_SUCCESS,
      p_new_conn_info\<lparr>h_fd := h_new_fd, conn_status := RPCHAT_CONN_PRE_REGISTER,
        mutex_conn := False,
        username := (username p_new_conn_info)\<lparr>len := 0\<rparr>,
        stat_msg := (stat_msg p_new_conn_info)\<lparr>len := 0\<rparr>,
        pending_jobs := 0, last_active := now\<rparr>)"

subsection \<open>The connection queue object and the task arguments\<close>

record rpchat_conn_queue =
  p_conn_ll :: "rpchat_conn_info rplib_ll_queue"
  mutex_conn_ll :: bool
  h_fd_epoll :: int
  server_str :: rpchat_string

datatype rpchat_args_proc_event_src =
    RPCHAT_PROC_EVENT_INBOUND
  | RPCHAT_PROC_EVENT_OUTBOUND
  | RPCHAT_PROC_EVENT_HEARTBEAT

record rpchat_args_proc_event =
  args_type :: rpchat_args_proc_event_src
  args_event :: epoll_event
  p_conn_info :: addr
  p_msg_buf :: "msg_buf option"
  sz_msg_buf :: nat
  args_live :: bool

text \<open>
  A task's argument object is a heap block that only the task, queued or running, leads to, so it is
  kept with the pointer to it; \<open>args_live\<close> says that it was not freed. A task starts with a use of the
  object.
\<close>

definition use_args :: "rpchat_args_proc_event \<Rightarrow> ('s, unit) prog" where
  "use_args args = (if args_live args then returnM () else faultM UseAfterFree)"

lemma use_live [simp]: "args_live args \<Longrightarrow> use_args args = returnM ()"
  by (simp add: use_args_def)

definition free_args :: "rpchat_args_proc_event \<Rightarrow> fault + rpchat_args_proc_event" where
  "free_args args = (if args_live args then Inr (args\<lparr>args_live := False\<rparr>) else Inl DoubleFree)"

datatype task_fn = Rpchat_task_conn_proc_event

type_synonym chat_tpool = "(task_fn, rpchat_args_proc_event) rplib_tpool"
type_synonym chat_task = "(task_fn, rpchat_args_proc_event) rplib_tpool_task"

record server =
  cq :: rpchat_conn_queue
  tp :: chat_tpool
  sys :: os

abbreviation cq_op :: "(rpchat_conn_queue, 'a) prog \<Rightarrow> (server, 'a) prog" where
  "cq_op m \<equiv> zoomM cq (\<lambda>q w. w\<lparr>cq := q\<rparr>) m"

abbreviation tp_op :: "(chat_tpool, 'a) prog \<Rightarrow> (server, 'a) prog" where
  "tp_op m \<equiv> zoomM tp (\<lambda>q w. w\<lparr>tp := q\<rparr>) m"

abbreviation os_op :: "(os, 'a) prog \<Rightarrow> (server, 'a) prog" where
  "os_op m \<equiv> zoomM sys (\<lambda>q w. w\<lparr>sys := q\<rparr>) m"

abbreviation ll_op :: "(rpchat_conn_info rplib_ll_queue, 'a) prog \<Rightarrow> (server, 'a) prog" where
  "ll_op m \<equiv> cq_op (zoomM p_conn_ll (\<lambda>l q. q\<lparr>p_conn_ll := l\<rparr>) m)"

definition conn_ll :: "server \<Rightarrow> rpchat_conn_info rplib_ll_queue" where
  "conn_ll w = p_conn_ll (cq w)"

subsection \<open>Access to connections and locks\<close>

definition load_conn :: "addr \<Rightarrow> (server, rpchat_conn_info) prog" where
  "load_conn p = ll_op (load_buf p)"

definition store_conn :: "addr \<Rightarrow> (rpchat_conn_info \<Rightarrow> rpchat_conn_info) \<Rightarrow> (server, unit) prog" where
  "store_conn p f = ll_op (store_buf p f)"

definition load_conn_node :: "addr \<Rightarrow> (server, rplib_ll_queue_node) prog" where
  "load_conn_node p = ll_op (load_node p)"

definition lock_conn_ll :: "(server, unit) prog" where
  "lock_conn_ll =
     cq_op (\<lambda>q. if mutex_conn_ll q then None else Some (Inr ((), q\<lparr>mutex_conn_ll := True\<rparr>)))"

definition unlock_conn_ll :: "(server, unit) prog" where
  "unlock_conn_ll = cq_op (modifyM (\<lambda>q. q\<lparr>mutex_conn_ll := False\<rparr>))"

text \<open>\<open>pthread_mutex_trylock\<close> on a connection: 0 if the lock was free.\<close>

definition trylock_conn :: "addr \<Rightarrow> (server, int) prog" where
  "trylock_conn p =
     bindM (load_conn p) (\<lambda>c.
     if mutex_conn c then returnM 16
     else thenM (store_conn p (\<lambda>c. c\<lparr>mutex_conn := True\<rparr>)) (returnM 0))"

definition unlock_conn :: "addr \<Rightarrow> (server, unit) prog" where
  "unlock_conn p = store_conn p (\<lambda>c. c\<lparr>mutex_conn := False\<rparr>)"

definition set_status :: "addr \<Rightarrow> rpchat_conn_stat \<Rightarrow> (server, unit) prog" where
  "set_status p st = store_conn p (\<lambda>c. c\<lparr>conn_status := st\<rparr>)"

text \<open>\<open>rpchat_conn_info_enqueue_task\<close>: enqueue, and count the job if the pool reports success.\<close>

definition rpchat_conn_info_enqueue_task ::
  "addr \<Rightarrow> rpchat_args_proc_event \<Rightarrow> (server, int) prog" where
  "rpchat_conn_info_enqueue_task p args =
     bindM (tp_op (rplib_tpool_enqueue_task Rpchat_task_conn_proc_event args)) (\<lambda>res.
     thenM (if res = RPLIB_SUCCESS
            then store_conn p (\<lambda>c. c\<lparr>pending_jobs := pending_jobs c + 1\<rparr>)
            else returnM ())
     (returnM res))"

end
