(* ===== verification/Conn_Queue.thy ===== *)
theory Conn_Queue
  imports Chat_State
begin

text \<open>
  The connection queue, \<open>src/components/rpchat_conn_queue.c\<close>: creation and destruction,
  removal of a connection, the user name lookup and the list of users.
\<close>

subsection \<open>Creation and destruction\<close>

definition RPCHAT_SERVER_IDENTIFIER :: string where
  "RPCHAT_SERVER_IDENTIFIER = ''[Server]''"

text \<open>
  \<open>None\<close> is the NULL result. \<open>old\<close> is what the freshly allocated \<open>server_str\<close> holds.
\<close>

definition rpchat_conn_queue_create ::
  "int \<Rightarrow> bool \<Rightarrow> bool \<Rightarrow> bool list \<Rightarrow> rpchat_string \<Rightarrow> rpchat_conn_queue option" where
  "rpchat_conn_queue_create fd queue_ok ll_ok ms old =
     (if \<not> queue_ok then None
      else case rplib_ll_queue_create ll_ok ms of
             None \<Rightarrow> None
           | Some l \<Rightarrow>
               Some \<lparr>p_conn_ll = l, mutex_conn_ll = False, h_fd_epoll = fd,
                     server_str = snprintf_str old (lit RPCHAT_SERVER_IDENTIFIER)\<rparr>)"

definition rpchat_conn_queue_destroy :: "(server, int) prog" where
  "rpchat_conn_queue_destroy = thenM (ll_op rplib_ll_queue_destroy) (returnM RPLIB_SUCCESS)"

subsection \<open>Removing a connection\<close>

partial_function (option) destroy_conn_loop :: "addr \<Rightarrow> addr \<Rightarrow> (server, int) prog" where
  "destroy_conn_loop p_conn p_tgt_node w =
     (if p_tgt_node = NULL then Some (Inr (RPLIB_UNSUCCESS, w))
      else
        bindM (load_conn_node p_tgt_node) (\<lambda>n w1.
          if p_data n = p_conn then
            bindM (ll_op (rplib_ll_remove_node p_tgt_node)) (\<lambda>_ w2. Some (Inr (RPLIB_SUCCESS, w2))) w1
          else destroy_conn_loop p_conn (p_next_node n) w1) w)"

definition rpchat_conn_queue_destroy_conn_info :: "addr \<Rightarrow> (server, int) prog" where
  "rpchat_conn_queue_destroy_conn_info p_conn =
     bindM (getsM (\<lambda>w. p_front (conn_ll w))) (\<lambda>p_tgt_node.
     thenM (unlock_conn p_conn)
     (thenM lock_conn_ll
     (bindM (destroy_conn_loop p_conn p_tgt_node) (\<lambda>res.
      thenM unlock_conn_ll
      (returnM res)))))"

subsection \<open>Looking a user name up\<close>

fun strncmp :: "(nat \<Rightarrow> byte) \<Rightarrow> (nat \<Rightarrow> byte) \<Rightarrow> nat \<Rightarrow> nat \<Rightarrow> int" where
  "strncmp a b i 0 = 0"
| "strncmp a b i (Suc n) =
     (if a i \<noteq> b i then uint (a i) - uint (b i)
      else if a i = 0 then 0
      else strncmp a b (Suc i) n)"

text \<open>
  The loop of \<open>rpchat_conn_queue_find_by_username\<close>: \<open>p_tgt_node\<close> is not advanced and \<open>cmp_size\<close>
  keeps its initial value 0.
\<close>

primrec find_loop :: "nat \<Rightarrow> addr \<Rightarrow> rpchat_string \<Rightarrow> nat \<Rightarrow> (server, addr) prog" where
  "find_loop 0 p_tgt_node tgt cmp_size = returnM NULL"
| "find_loop (Suc k) p_tgt_node tgt cmp_size =
     bindM (load_conn_node p_tgt_node) (\<lambda>n.
     bindM (load_conn (p_data n)) (\<lambda>c.
     if len (username c) \<noteq> len tgt then find_loop k p_tgt_node tgt cmp_size
     else if 0 = strncmp (contents (username c)) (contents tgt) 0 cmp_size then returnM (p_data n)
     else find_loop k p_tgt_node tgt cmp_size))"

definition rpchat_conn_queue_find_by_username :: "rpchat_string \<Rightarrow> (server, addr) prog" where
  "rpchat_conn_queue_find_by_username tgt =
     thenM lock_conn_ll
     (bindM (getsM (\<lambda>w. p_front (conn_ll w))) (\<lambda>p_tgt_node.
      bindM (getsM (\<lambda>w. unat (q_size (conn_ll w)))) (\<lambda>n.
      bindM (find_loop n p_tgt_node tgt 0) (\<lambda>p_found_info.
      thenM unlock_conn_ll
      (returnM p_found_info)))))"

subsection \<open>Listing the users\<close>

text \<open>
  One \<open>snprintf\<close> of the loop: the room left, \<open>RPCHAT_MAX_STR_LENGTH - buf_index\<close>, is an \<open>int\<close>
  converted to \<open>size_t\<close>. A store outside the string object is a fault.
\<close>

definition append_user :: "rpchat_string \<Rightarrow> int \<Rightarrow> byte list \<Rightarrow> fault + rpchat_string" where
  "append_user out buf_index text =
     (let sz = nat ((int RPCHAT_MAX_STR_LENGTH - buf_index) mod 2 ^ 64);
          stored = (if sz = 0 then 0 else Suc (min (sz - 1) (length text)))
      in if buf_index < 0 \<or> nat buf_index + stored > STR_STORAGE then Inl OutOfBounds
         else Inr (out\<lparr>contents := snd (snprintf (contents out) (nat buf_index) sz text)\<rparr>))"

partial_function (option) list_users_loop ::
  "addr \<Rightarrow> addr \<Rightarrow> rpchat_string \<Rightarrow> int \<Rightarrow> (server, rpchat_string \<times> int) prog" where
  "list_users_loop p_front_node p_curr_node out buf_index w =
     (if p_curr_node = NULL then Some (Inr ((out, buf_index), w))
      else
        bindM (load_conn_node p_curr_node) (\<lambda>n w1.
        bindM (load_conn (p_data n)) (\<lambda>c w2.
          case str_arg (username c) of
            None \<Rightarrow> Some (Inl OutOfBounds)
          | Some u \<Rightarrow>
              (let text = (if p_front_node = p_curr_node then u else lit '', '' @ u) in
               case append_user out buf_index text of
                 Inl e \<Rightarrow> Some (Inl e)
               | Inr out' \<Rightarrow>
                   list_users_loop p_front_node (p_next_node n) out'
                     (buf_index + int (length text)) w2)) w1) w)"

definition rpchat_conn_queue_list_users :: "rpchat_string \<Rightarrow> (server, int \<times> rpchat_string) prog" where
  "rpchat_conn_queue_list_users p_output_buf =
     thenM lock_conn_ll
     (bindM (getsM (\<lambda>w. p_front (conn_ll w))) (\<lambda>front.
      bindM (list_users_loop front front p_output_buf (uint (len p_output_buf) - 1)) (\<lambda>(out, buf_index).
      thenM unlock_conn_ll
      (returnM (RPLIB_SUCCESS, out\<lparr>len := word_of_int buf_index\<rparr>)))))"

end
