(* ===== verification/Process_Event.thy ===== *)
theory Process_Event
  imports Conn_Queue
begin

text \<open>
  Event processing, \<open>src/rpchat_process_event.c\<close>: assembling and queueing STATUS and DELIVER
  messages, broadcasting, the handlers of the three client messages, and
  \<open>rpchat_task_conn_proc_event\<close>, the task that drives a connection's state machine.

  Functions that change the task's argument object return the changed object. The argument
  object and its message buffer belong to the task that runs, so they are passed along with it;
  each carries a flag that says whether it was freed, and using or freeing it after that is a fault.
\<close>

subsection \<open>Sending a message to one connection\<close>

definition rpchat_conn_info_submit_msg ::
  "addr \<Rightarrow> msg_buf option \<Rightarrow> nat \<Rightarrow> (server, int) prog" where
  "rpchat_conn_info_submit_msg p buf sz =
     bindM (load_conn p) (\<lambda>c.
     bindM (liftM (read_buf buf sz)) (\<lambda>bs.
     bindM (os_op (rpchat_sendmsg (h_fd c) bs)) (\<lambda>n.
     let res = (if 0 > n then RPLIB_UNSUCCESS else RPLIB_SUCCESS) in
     thenM (if res = RPLIB_UNSUCCESS then set_status p RPCHAT_CONN_ERR else returnM ())
     (returnM res))))"

definition rpchat_conn_proc_handle_outbound_msg :: "rpchat_args_proc_event \<Rightarrow> (server, int) prog" where
  "rpchat_conn_proc_handle_outbound_msg args =
     bindM (liftM (rpchat_get_msg_type (p_msg_buf args))) (\<lambda>new_msg_type.
     if new_msg_type = RPCHAT_BCP_DELIVER then
       rpchat_conn_info_submit_msg (p_conn_info args) (p_msg_buf args) (sz_msg_buf args)
     else if new_msg_type = RPCHAT_BCP_STATUS then
       rpchat_conn_info_submit_msg (p_conn_info args) (p_msg_buf args) (sz_msg_buf args)
     else returnM RPLIB_UNSUCCESS)"

subsection \<open>STATUS and DELIVER messages\<close>

text \<open>
  The native-order copy of a length that precedes each big-endian store is overwritten by it
  and left out.
\<close>

definition rpchat_conn_proc_set_status ::
  "addr \<Rightarrow> rpchat_args_proc_event \<Rightarrow> byte \<Rightarrow> (server, int \<times> rpchat_args_proc_event) prog" where
  "rpchat_conn_proc_set_status p args status_code =
     thenM (assertM (p_msg_buf args \<noteq> None))
     (bindM (load_conn p) (\<lambda>c.
      let n = unat (len (stat_msg c)) in
      bindM (liftM (read_str (stat_msg c) n)) (\<lambda>bs.
      bindM (liftM (write_fields (p_msg_buf args) 0
               [[word_of_int RPCHAT_BCP_STATUS], [status_code], be16 (len (stat_msg c)), bs])) (\<lambda>buf.
      thenM (store_conn p (\<lambda>c. c\<lparr>stat_msg := (stat_msg c)\<lparr>len := 0\<rparr>\<rparr>))
      (returnM (RPLIB_SUCCESS, args\<lparr>p_msg_buf := buf, sz_msg_buf := 1 + 1 + 2 + n\<rparr>))))))"

definition uninit_string :: "(server, rpchat_string) prog" where
  "uninit_string = getsM (\<lambda>w. stack_string 0 (sys w))"

definition rpchat_conn_proc_set_deliver ::
  "rpchat_args_proc_event \<Rightarrow> rpchat_string \<Rightarrow> rpchat_string \<Rightarrow>
   (server, int \<times> rpchat_args_proc_event) prog" where
  "rpchat_conn_proc_set_deliver args p_sender p_msg =
     bindM uninit_string (\<lambda>junk.
     let (_, _, sanitized_msg) = rpchat_string_sanitize p_msg junk True;
         n1 = unat (len p_sender); n2 = unat (len sanitized_msg) in
     bindM (liftM (read_str p_sender n1)) (\<lambda>from.
     bindM (liftM (read_str sanitized_msg n2)) (\<lambda>msg.
     bindM (liftM (write_fields (p_msg_buf args) 0
              [[word_of_int RPCHAT_BCP_DELIVER], be16 (len p_sender), from,
               be16 (len sanitized_msg), msg])) (\<lambda>buf.
     returnM (RPLIB_SUCCESS, args\<lparr>p_msg_buf := buf, sz_msg_buf := 1 + 2 + n1 + 2 + n2\<rparr>)))))"

text \<open>The argument object both enqueue functions build: outbound, with an uninitialised buffer.\<close>

definition outbound_args :: "addr \<Rightarrow> nat \<Rightarrow> (server, rpchat_args_proc_event) prog" where
  "outbound_args p cap =
     getsM (\<lambda>w. \<lparr>args_type = RPCHAT_PROC_EVENT_OUTBOUND, args_event = uninit_event (sys w),
       p_conn_info = p, p_msg_buf = Some \<lparr>buf_cap = cap, buf_bytes = uninit (sys w), buf_live = True\<rparr>,
       sz_msg_buf = 0, args_live = True\<rparr>)"

definition rpchat_conn_proc_enqueue_status :: "addr \<Rightarrow> byte \<Rightarrow> (server, int) prog" where
  "rpchat_conn_proc_enqueue_status p status_code =
     bindM (os_op os_malloc) (\<lambda>ok1.
     if \<not> ok1 then returnM RPLIB_ERROR
     else
       bindM (os_op os_malloc) (\<lambda>ok2.
       if \<not> ok2 then returnM RPLIB_ERROR
       else
         bindM (outbound_args p SIZEOF_PKT_STATUS) (\<lambda>args.
         bindM (rpchat_conn_proc_set_status p args status_code) (\<lambda>(res, args).
         if res \<noteq> RPLIB_SUCCESS then returnM res
         else rpchat_conn_info_enqueue_task p args))))"

definition rpchat_conn_proc_enqueue_deliver ::
  "addr \<Rightarrow> rpchat_string \<Rightarrow> rpchat_string \<Rightarrow> (server, int) prog" where
  "rpchat_conn_proc_enqueue_deliver p p_sender_str p_msg =
     bindM (os_op os_malloc) (\<lambda>ok1.
     if \<not> ok1 then returnM RPLIB_ERROR
     else
       bindM (os_op os_malloc) (\<lambda>ok2.
       if \<not> ok2 then returnM RPLIB_ERROR
       else
         bindM (outbound_args p SIZEOF_PKT_DELIVER) (\<lambda>args.
         bindM (rpchat_conn_proc_set_deliver args p_sender_str p_msg) (\<lambda>(res, args).
         if res \<noteq> RPLIB_SUCCESS then returnM res
         else rpchat_conn_info_enqueue_task p args))))"

subsection \<open>Broadcasting\<close>

text \<open>
  The loop over the connections: \<open>continue\<close> on a closing connection jumps back to the loop
  condition without advancing \<open>p_current_node\<close>.
\<close>

partial_function (option) broadcast_loop ::
  "addr \<Rightarrow> rpchat_string \<Rightarrow> rpchat_string \<Rightarrow> addr \<Rightarrow> (server, unit) prog" where
  "broadcast_loop p_sender p_sender_str msg p_current_node w =
     (if p_current_node = NULL then Some (Inr ((), w))
      else
        bindM (load_conn_node p_current_node) (\<lambda>n w1.
          if p_sender \<noteq> p_data n then
            bindM (load_conn (p_data n)) (\<lambda>c w2.
              if conn_status c = RPCHAT_CONN_CLOSING \<or> conn_status c = RPCHAT_CONN_ERR then
                broadcast_loop p_sender p_sender_str msg p_current_node w2
              else
                bindM (rpchat_conn_proc_enqueue_deliver (p_data n) p_sender_str msg) (\<lambda>_ w3.
                  broadcast_loop p_sender p_sender_str msg (p_next_node n) w3) w2) w1
          else broadcast_loop p_sender p_sender_str msg (p_next_node n) w1) w)"

definition printf_msg :: "rpchat_string \<Rightarrow> rpchat_string \<Rightarrow> (server, unit) prog" where
  "printf_msg from msg =
     (case (str_arg from, str_arg msg) of
        (Some a, Some b) \<Rightarrow> os_op (os_printf (a @ lit '': '' @ b @ [10]))
      | _ \<Rightarrow> faultM OutOfBounds)"

text \<open>
  \<open>rpchat_broadcast_msg\<close>; a NULL \<open>p_sender_str\<close> is \<open>None\<close>. The sanitizer clamps the length of \<open>p_msg\<close> in
  place; no caller reads the message again after the call.
\<close>

definition rpchat_broadcast_msg ::
  "addr \<Rightarrow> rpchat_string option \<Rightarrow> rpchat_string \<Rightarrow> (server, int) prog" where
  "rpchat_broadcast_msg p_sender p_sender_str p_msg =
     bindM uninit_string (\<lambda>junk.
     let (_, _, sanitized_msg) = rpchat_string_sanitize p_msg junk True in
     bindM (case p_sender_str of
              None \<Rightarrow> bindM (load_conn p_sender) (\<lambda>c. returnM (username c))
            | Some s \<Rightarrow> returnM s) (\<lambda>sender_str.
     thenM (printf_msg sender_str sanitized_msg)
     (thenM lock_conn_ll
     (bindM (getsM (\<lambda>w. p_front (conn_ll w))) (\<lambda>front.
      thenM (broadcast_loop p_sender sender_str sanitized_msg front)
      (thenM unlock_conn_ll
      (returnM RPLIB_SUCCESS)))))))"

subsection \<open>Handlers of the client's messages\<close>

text \<open>Receiving a length-prefixed string; \<open>None\<close> is each of the early exits.\<close>

definition recv_string :: "addr \<Rightarrow> (server, rpchat_string option) prog" where
  "recv_string p =
     bindM (load_conn p) (\<lambda>c.
     bindM (os_op (rpchat_recv (h_fd c) 2)) (\<lambda>(n, lenbs).
     if n \<noteq> 2 then returnM None
     else
       let l = be16toh lenbs in
       if RPCHAT_MAX_STR_LENGTH < unat l then returnM None
       else
         bindM (os_op (rpchat_recv (h_fd c) (unat l))) (\<lambda>(m, bs).
         if m \<noteq> uint l then returnM None
         else
           bindM uninit_string (\<lambda>junk.
           returnM (Some \<lparr>len = l, contents = store_bytes (contents junk) 0 bs\<rparr>)))))"

text \<open>Formatting a text around a C string into an uninitialised string object.\<close>

definition format_msg :: "string \<Rightarrow> rpchat_string \<Rightarrow> string \<Rightarrow> (server, rpchat_string) prog" where
  "format_msg pre s post =
     bindM uninit_string (\<lambda>junk.
     case str_arg s of
       None \<Rightarrow> faultM OutOfBounds
     | Some u \<Rightarrow> returnM (snprintf_str junk (lit pre @ u @ lit post)))"

definition NEWLINE :: string where
  "NEWLINE = [CHR 0x0A]"

definition rpchat_handle_register :: "addr \<Rightarrow> (server, int) prog" where
  "rpchat_handle_register p =
     bindM (load_conn p) (\<lambda>c.
     if conn_status c \<noteq> RPCHAT_CONN_PRE_REGISTER then returnM RPLIB_UNSUCCESS
     else
       bindM (recv_string p) (\<lambda>new_username.
       case new_username of
         None \<Rightarrow> returnM RPLIB_UNSUCCESS
       | Some new_username \<Rightarrow>
           bindM uninit_string (\<lambda>junk.
           let (res, _, sanitized_username) = rpchat_string_sanitize new_username junk False in
           if res \<noteq> RPLIB_SUCCESS then returnM res
           else
             bindM (rpchat_conn_queue_find_by_username sanitized_username) (\<lambda>found.
             if found \<noteq> NULL then returnM RPLIB_UNSUCCESS
             else
               thenM (store_conn p (\<lambda>c. c\<lparr>username := sanitized_username\<rparr>))
               (bindM (format_msg [] sanitized_username '' has joined the server.'') (\<lambda>group_reg_msg.
                bindM (format_msg ''Logged in as '' sanitized_username
                         (''.'' @ NEWLINE @ ''Current Clients: '' @ NEWLINE)) (\<lambda>client_reg_msg.
                bindM (getsM (\<lambda>w. q_size (conn_ll w))) (\<lambda>n.
                bindM (if 1 < n
                       then bindM (rpchat_conn_queue_list_users client_reg_msg) (\<lambda>(_, out). returnM out)
                       else returnM client_reg_msg) (\<lambda>client_reg_msg.
                bindM (getsM (\<lambda>w. server_str (cq w))) (\<lambda>srv.
                thenM (rpchat_conn_proc_enqueue_deliver p srv client_reg_msg)
                (thenM (rpchat_broadcast_msg p (Some srv) group_reg_msg)
                (returnM RPLIB_SUCCESS))))))))))))"

definition rpchat_handle_send :: "addr \<Rightarrow> (server, int) prog" where
  "rpchat_handle_send p =
     bindM (recv_string p) (\<lambda>curr_msg.
     case curr_msg of
       None \<Rightarrow> returnM RPLIB_UNSUCCESS
     | Some curr_msg \<Rightarrow>
         bindM uninit_string (\<lambda>junk.
         let (_, _, sanitized_msg) = rpchat_string_sanitize curr_msg junk True in
         if 1 > unat (len sanitized_msg) then returnM RPLIB_UNSUCCESS
         else
           bindM (load_conn p) (\<lambda>c.
           rpchat_broadcast_msg p (Some (username c)) sanitized_msg)))"

definition rpchat_conn_info_handle_status :: "addr \<Rightarrow> (server, int) prog" where
  "rpchat_conn_info_handle_status p =
     thenM (assertM (p \<noteq> NULL))
     (bindM (load_conn p) (\<lambda>c.
      if conn_status c \<noteq> RPCHAT_CONN_PENDING_STATUS then returnM RPLIB_UNSUCCESS
      else
        bindM (os_op (rpchat_recv (h_fd c) 1)) (\<lambda>(n, bs).
        if n \<noteq> 1 then returnM RPLIB_UNSUCCESS
        else if hd bs = RPCHAT_BCP_STATUS_GOOD then returnM RPLIB_SUCCESS
        else returnM RPLIB_ERROR)))"

definition rpchat_handle_msg :: "addr \<Rightarrow> msg_buf option \<Rightarrow> (server, int) prog" where
  "rpchat_handle_msg p buf =
     bindM (liftM (rpchat_get_msg_type buf)) (\<lambda>msg_type.
     if msg_type = RPCHAT_BCP_REGISTER then
       bindM (rpchat_handle_register p) (\<lambda>res.
       returnM (if res = RPLIB_SUCCESS then RPLIB_SUCCESS else RPLIB_ERROR))
     else if msg_type = RPCHAT_BCP_SEND then rpchat_handle_send p
     else if msg_type = RPCHAT_BCP_STATUS then rpchat_conn_info_handle_status p
     else returnM RPLIB_ERROR)"

definition rpchat_conn_proc_handle_inbound_msg ::
  "rpchat_args_proc_event \<Rightarrow> (server, int \<times> rpchat_args_proc_event) prog" where
  "rpchat_conn_proc_handle_inbound_msg args =
     (let p = data_ptr (ev_data (args_event args));
          handle = (\<lambda>args. bindM (rpchat_handle_msg p (p_msg_buf args)) (\<lambda>res. returnM (res, args)))
      in
      if sz_msg_buf args = 0 then
        if has_event (ev_events (args_event args)) EPOLLIN then
          bindM (load_conn p) (\<lambda>c.
          bindM (os_op (rpchat_recv (h_fd c) 1)) (\<lambda>(n, bs).
          if 0 \<ge> n then
            bindM (liftM (free_msg_buf (p_msg_buf args))) (\<lambda>dangling.
            let args = args\<lparr>p_msg_buf := dangling\<rparr> in
            returnM (RPLIB_ERROR, args\<lparr>p_msg_buf := None\<rparr>))
          else
            bindM (liftM (write_buf (p_msg_buf args) 0 bs)) (\<lambda>b.
            handle (args\<lparr>p_msg_buf := Some b, sz_msg_buf := nat n\<rparr>))))
        else if has_event (ev_events (args_event args)) (Bit_Operations.or EPOLLERR EPOLLHUP) then
          returnM (RPLIB_ERROR, args)
        else handle args
      else handle args)"

subsection \<open>The task\<close>

definition rpchat_conn_proc_error ::
  "rpchat_args_proc_event \<Rightarrow> (server, int \<times> rpchat_args_proc_event) prog" where
  "rpchat_conn_proc_error args =
     (let p = p_conn_info args in
      bindM (rpchat_conn_proc_set_status p args RPCHAT_BCP_STATUS_ERROR) (\<lambda>(_, args).
      thenM (rpchat_conn_info_submit_msg p (p_msg_buf args) (sz_msg_buf args))
      (bindM (load_conn p) (\<lambda>c.
       bindM (getsM (\<lambda>w. h_fd_epoll (cq w))) (\<lambda>ep.
       bindM (os_op (rpchat_close_connection ep (h_fd c))) (\<lambda>res.
       returnM (res, args)))))))"

text \<open>How a case of the \<open>switch\<close> is left: \<open>break\<close> with a value of \<open>res\<close>, or one of the labels.\<close>

datatype jump = Break int | Goto_requeue | Goto_cleanup_no_unlock

definition start_listening :: "addr \<Rightarrow> (server, unit) prog" where
  "start_listening p =
     bindM (load_conn p) (\<lambda>c.
     bindM (getsM (\<lambda>w. h_fd_epoll (cq w))) (\<lambda>ep.
     thenM (os_op (rpchat_toggle_descriptor ep (h_fd c) p True))
     (returnM ())))"

definition case_available ::
  "rpchat_args_proc_event \<Rightarrow> (server, jump \<times> rpchat_args_proc_event) prog" where
  "case_available args =
     (let p = p_conn_info args in
      if args_type args = RPCHAT_PROC_EVENT_INBOUND then
        bindM (rpchat_conn_proc_handle_inbound_msg args) (\<lambda>(res, args).
        if res = RPLIB_SUCCESS then
          thenM (set_status p RPCHAT_CONN_SEND_STAT)
          (thenM (rpchat_conn_proc_enqueue_status p RPCHAT_BCP_STATUS_GOOD)
          (returnM (Break res, args)))
        else returnM (Break RPLIB_ERROR, args))
      else
        thenM (set_status p RPCHAT_CONN_SEND_MSG)
        (returnM (Goto_requeue, args)))"

definition case_send_stat ::
  "rpchat_args_proc_event \<Rightarrow> (server, jump \<times> rpchat_args_proc_event) prog" where
  "case_send_stat args =
     (let p = p_conn_info args in
      if args_type args \<noteq> RPCHAT_PROC_EVENT_OUTBOUND then returnM (Goto_requeue, args)
      else
        bindM (liftM (rpchat_get_msg_type (p_msg_buf args))) (\<lambda>t.
        if t \<noteq> RPCHAT_BCP_STATUS then returnM (Goto_requeue, args)
        else
          bindM (rpchat_conn_proc_handle_outbound_msg args) (\<lambda>res.
          thenM (if res = RPLIB_SUCCESS
                 then thenM (set_status p RPCHAT_CONN_AVAILABLE) (start_listening p)
                 else returnM ())
          (returnM (Break res, args)))))"

definition case_send_msg ::
  "rpchat_args_proc_event \<Rightarrow> (server, jump \<times> rpchat_args_proc_event) prog" where
  "case_send_msg args =
     (let p = p_conn_info args in
      if args_type args \<noteq> RPCHAT_PROC_EVENT_OUTBOUND then returnM (Goto_requeue, args)
      else
        bindM (rpchat_conn_proc_handle_outbound_msg args) (\<lambda>res.
        thenM (if res = RPLIB_SUCCESS
               then thenM (set_status p RPCHAT_CONN_PENDING_STATUS) (start_listening p)
               else returnM ())
        (returnM (Break res, args))))"

definition case_pending_status ::
  "rpchat_args_proc_event \<Rightarrow> (server, jump \<times> rpchat_args_proc_event) prog" where
  "case_pending_status args =
     (let p = p_conn_info args in
      if args_type args \<noteq> RPCHAT_PROC_EVENT_INBOUND then returnM (Goto_requeue, args)
      else
        bindM (rpchat_conn_proc_handle_inbound_msg args) (\<lambda>(res, args).
        if res = RPLIB_ERROR then
          thenM (set_status p RPCHAT_CONN_ERR) (returnM (Goto_requeue, args))
        else
          thenM (set_status p RPCHAT_CONN_AVAILABLE)
          (thenM (start_listening p)
          (returnM (Break res, args)))))"

definition case_err ::
  "rpchat_args_proc_event \<Rightarrow> (server, jump \<times> rpchat_args_proc_event) prog" where
  "case_err args =
     bindM (rpchat_conn_proc_error args) (\<lambda>(_, args).
     thenM (set_status (p_conn_info args) RPCHAT_CONN_CLOSING)
     (returnM (Goto_requeue, args)))"

definition left_msg :: "rpchat_conn_info \<Rightarrow> (server, rpchat_string) prog" where
  "left_msg c =
     (if 0 < unat (len (username c)) then format_msg [] (username c) '' has left the server.''
      else bindM uninit_string (\<lambda>junk.
           returnM (snprintf_str junk (lit (''An unregistered user'' @ '' has left the server.'')))))"

definition case_closing ::
  "rpchat_args_proc_event \<Rightarrow> (server, jump \<times> rpchat_args_proc_event) prog" where
  "case_closing args =
     (let p = p_conn_info args in
      bindM (load_conn p) (\<lambda>c.
      if pending_jobs c = 0 then
        bindM (left_msg c) (\<lambda>dc_msg.
        bindM (getsM (\<lambda>w. server_str (cq w))) (\<lambda>srv.
        thenM (rpchat_broadcast_msg p (Some srv) dc_msg)
        (thenM (rpchat_conn_queue_destroy_conn_info p)
        (returnM (Goto_cleanup_no_unlock, args)))))
      else returnM (Break RPLIB_SUCCESS, args)))"

definition proc_switch ::
  "rpchat_args_proc_event \<Rightarrow> (server, jump \<times> rpchat_args_proc_event) prog" where
  "proc_switch args =
     bindM (load_conn (p_conn_info args)) (\<lambda>c.
     case conn_status c of
       RPCHAT_CONN_PRE_REGISTER \<Rightarrow> case_available args
     | RPCHAT_CONN_AVAILABLE \<Rightarrow> case_available args
     | RPCHAT_CONN_SEND_STAT \<Rightarrow> case_send_stat args
     | RPCHAT_CONN_SEND_MSG \<Rightarrow> case_send_msg args
     | RPCHAT_CONN_PENDING_STATUS \<Rightarrow> case_pending_status args
     | RPCHAT_CONN_ERR \<Rightarrow> case_err args
     | RPCHAT_CONN_CLOSING \<Rightarrow> case_closing args)"

definition requeue_no_unlock :: "rpchat_args_proc_event \<Rightarrow> (server, unit) prog" where
  "requeue_no_unlock args =
     bindM (getsM (\<lambda>w. b_terminate (tp w))) (\<lambda>term.
     if \<not> term then
       thenM (rpchat_conn_info_enqueue_task (p_conn_info args) args) (returnM ())
     else returnM ())"

definition requeue :: "rpchat_args_proc_event \<Rightarrow> (server, unit) prog" where
  "requeue args = thenM (unlock_conn (p_conn_info args)) (requeue_no_unlock args)"

definition cleanup_no_unlock :: "rpchat_args_proc_event \<Rightarrow> (server, unit) prog" where
  "cleanup_no_unlock args =
     thenM (use_args args)
     (bindM (liftM (free_msg_buf (p_msg_buf args))) (\<lambda>dangling.
      let args = args\<lparr>p_msg_buf := dangling\<rparr>;
          args = args\<lparr>p_msg_buf := None\<rparr> in
      bindM (liftM (free_args args)) (\<lambda>_. returnM ())))"

definition cleanup :: "rpchat_args_proc_event \<Rightarrow> (server, unit) prog" where
  "cleanup args = thenM (unlock_conn (p_conn_info args)) (cleanup_no_unlock args)"

definition proc_finish :: "jump \<Rightarrow> rpchat_args_proc_event \<Rightarrow> (server, unit) prog" where
  "proc_finish j args =
     (case j of
        Break res \<Rightarrow>
          if res = RPLIB_ERROR then
            thenM (set_status (p_conn_info args) RPCHAT_CONN_ERR) (requeue args)
          else cleanup args
      | Goto_requeue \<Rightarrow> requeue args
      | Goto_cleanup_no_unlock \<Rightarrow> cleanup_no_unlock args)"

text \<open>Allocating the message buffer on the first pass (lines 395-406).\<close>

definition ensure_msg_buf ::
  "rpchat_args_proc_event \<Rightarrow> (server, bool \<times> rpchat_args_proc_event) prog" where
  "ensure_msg_buf args =
     (if p_msg_buf args = None then
        bindM (os_op os_malloc) (\<lambda>ok.
        bindM (getsM (\<lambda>w. uninit (sys w))) (\<lambda>junk.
        if ok then
          returnM (True, args\<lparr>p_msg_buf :=
            Some \<lparr>buf_cap = RPCHAT_MAX_INCOMING_MSG, buf_bytes = junk, buf_live = True\<rparr>\<rparr>)
        else returnM (False, args)))
      else returnM (True, args))"

text \<open>The body that runs with the connection's lock held (lines 388-585).\<close>

definition proc_locked :: "rpchat_args_proc_event \<Rightarrow> (server, unit) prog" where
  "proc_locked args =
     (let p = p_conn_info args in
      thenM (if args_type args \<noteq> RPCHAT_PROC_EVENT_HEARTBEAT
             then bindM (os_op os_time) (\<lambda>now. store_conn p (\<lambda>c. c\<lparr>last_active := now\<rparr>))
             else returnM ())
      (bindM (ensure_msg_buf args) (\<lambda>(ok, args).
       if \<not> ok then cleanup args
       else
         bindM (load_conn p) (\<lambda>c.
         bindM (os_op os_time) (\<lambda>now.
         if args_type args = RPCHAT_PROC_EVENT_HEARTBEAT \<and>
            conn_status c \<noteq> RPCHAT_CONN_CLOSING \<and> conn_status c \<noteq> RPCHAT_CONN_ERR \<and>
            \<not> RPCHAT_CONNECTION_TIMEOUT < now - last_active c
         then cleanup args
         else
           thenM (if args_type args = RPCHAT_PROC_EVENT_HEARTBEAT \<and>
                     conn_status c \<noteq> RPCHAT_CONN_CLOSING \<and> conn_status c \<noteq> RPCHAT_CONN_ERR
                  then store_conn p (\<lambda>c. c\<lparr>
                         stat_msg := snprintf_str (stat_msg c) (lit ''Disconnected for inactivity.''),
                         conn_status := RPCHAT_CONN_ERR\<rparr>)
                  else returnM ())
           (bindM (proc_switch args) (\<lambda>(j, args). proc_finish j args)))))))"

definition rpchat_task_conn_proc_event :: "rpchat_args_proc_event \<Rightarrow> (server, unit) prog" where
  "rpchat_task_conn_proc_event args =
     (let p = p_conn_info args in
      thenM (use_args args)
      (thenM (store_conn p (\<lambda>c. c\<lparr>pending_jobs := pending_jobs c - 1\<rparr>))
      (bindM (trylock_conn p) (\<lambda>r.
       if r \<noteq> RPLIB_SUCCESS then requeue_no_unlock args
       else proc_locked args))))"

end
