(* ===== verification/Chat_Inv.thy ===== *)
theory Chat_Inv
  imports Process_Event
begin

text \<open>
  The invariant of the server between and during tasks, and the rules for the primitive
  operations on it.

  \<open>srv_inv L w\<close> says that the connection list and the task queue are well-formed, that
  every queued task has an argument object that was not freed, points to a live connection and has either no message
  buffer or a live one that is large enough, that
  all strings fit their storage, that exactly the connections in \<open>L\<close> are locked, and that each
  connection's \<open>pending_jobs\<close> counts its queued tasks (as long as no failed enqueue has
  left the task queue's lock held, after which no task can be taken or queued any more). Its
  descriptor part says that every connection that is not closing owns an open descriptor of its
  own and that an epoll registration leads to such a connection, so that no event is
  ever reported for an object that was freed.

  \<open>moves L p st w w'\<close> is what the code that runs for connection \<open>p\<close> may do: it
  re-establishes the invariant, leaves \<open>p\<close> in status \<open>st\<close>, and outside \<open>p\<close> it only queues tasks
  and counts them.
\<close>

subsection \<open>Views of the state\<close>

definition conn_map :: "server \<Rightarrow> addr \<rightharpoonup> rpchat_conn_info" where
  "conn_map w = bufs (conn_ll w)"

definition conn_ptrs :: "server \<Rightarrow> addr list" where
  "conn_ptrs w = ll_ptrs (conn_ll w)"

definition queued :: "server \<Rightarrow> rpchat_args_proc_event list" where
  "queued w = map p_arg (tpool_tasks (tp w))"

definition jobs :: "server \<Rightarrow> addr \<Rightarrow> nat" where
  "jobs w p = length (filter (\<lambda>a. p_conn_info a = p) (queued w))"

definition upd_conn :: "addr \<Rightarrow> rpchat_conn_info \<Rightarrow> server \<Rightarrow> server" where
  "upd_conn p c w = w\<lparr>cq := (cq w)\<lparr>p_conn_ll := (p_conn_ll (cq w))\<lparr>bufs := (bufs (p_conn_ll (cq w)))(p \<mapsto> c)\<rparr>\<rparr>\<rparr>"

subsection \<open>The invariant\<close>

definition buf_ok :: "rpchat_args_proc_event \<Rightarrow> bool" where
  "buf_ok a \<longleftrightarrow>
     (case p_msg_buf a of
        None \<Rightarrow> sz_msg_buf a = 0
      | Some b \<Rightarrow> buf_live b \<and> SIZEOF_PKT_STATUS \<le> buf_cap b \<and> sz_msg_buf a \<le> buf_cap b)"

definition args_ok :: "server \<Rightarrow> rpchat_args_proc_event \<Rightarrow> bool" where
  "args_ok w a \<longleftrightarrow>
     conn_map w (p_conn_info a) \<noteq> None \<and> args_live a \<and> buf_ok a \<and>
     (args_type a = RPCHAT_PROC_EVENT_INBOUND \<longrightarrow>
        data_ptr (ev_data (args_event a)) = p_conn_info a)"

definition conn_ok :: "addr set \<Rightarrow> addr \<Rightarrow> rpchat_conn_info \<Rightarrow> bool" where
  "conn_ok L p c \<longleftrightarrow> str_wf (username c) \<and> str_wf (stat_msg c) \<and> (mutex_conn c \<longleftrightarrow> p \<in> L)"

text \<open>\<open>p\<close> is a connection that is not closing, and \<open>fd\<close> its descriptor.\<close>

definition live_on :: "server \<Rightarrow> addr \<Rightarrow> int \<Rightarrow> bool" where
  "live_on w p fd \<longleftrightarrow>
     (\<exists>c. conn_map w p = Some c \<and> h_fd c = fd \<and> conn_status c \<noteq> RPCHAT_CONN_CLOSING)"

definition fd_inv :: "server \<Rightarrow> bool" where
  "fd_inv w \<longleftrightarrow>
     (\<forall>fd ev p. interest (sys w) fd = Some ev \<longrightarrow> ev_data ev = Data_ptr p \<longrightarrow> live_on w p fd) \<and>
     (\<forall>p fd. live_on w p fd \<longrightarrow> open_fds (sys w) fd) \<and>
     (\<forall>p q fd. live_on w p fd \<longrightarrow> live_on w q fd \<longrightarrow> p = q)"

definition srv_inv :: "addr set \<Rightarrow> server \<Rightarrow> bool" where
  "srv_inv L w \<longleftrightarrow>
     ll_inv (conn_ll w) \<and> tpool_inv (tp w) \<and> fd_inv w \<and>
     (\<forall>a \<in> set (queued w). args_ok w a) \<and>
     (\<forall>p c. conn_map w p = Some c \<longrightarrow> conn_ok L p c) \<and>
     str_wf (server_str (cq w)) \<and>
     (\<not> mutex_task_queue (tp w) \<longrightarrow>
        (\<forall>p c. conn_map w p = Some c \<longrightarrow> pending_jobs c = word_of_nat (jobs w p)))"

definition status :: "server \<Rightarrow> addr \<Rightarrow> rpchat_conn_stat option" where
  "status w p = map_option conn_status (conn_map w p)"

text \<open>A connection up to its job count.\<close>

definition core :: "server \<Rightarrow> addr \<Rightarrow> rpchat_conn_info option" where
  "core w p = map_option (\<lambda>c. c\<lparr>pending_jobs := 0\<rparr>) (conn_map w p)"

text \<open>Nothing is registered by number that was not registered before.\<close>

definition no_new_service :: "os \<Rightarrow> os \<Rightarrow> bool" where
  "no_new_service s s' \<longleftrightarrow>
     (\<forall>fd ev x. interest s' fd = Some ev \<longrightarrow> ev_data ev = Data_fd x \<longrightarrow> interest s fd = Some ev)"

lemma no_new_service_simps [simp]:
  "no_new_service s s" "interest s' = interest s \<Longrightarrow> no_new_service s s'"
  "interest s' = (interest s)(fd := None) \<Longrightarrow> no_new_service s s'"
  "interest s' = (interest s)(fd \<mapsto> conn_event p) \<Longrightarrow> no_new_service s s'"
  by (auto simp: no_new_service_def conn_event_def split: if_splits)

lemma no_new_service_trans: "no_new_service s t \<Longrightarrow> no_new_service t u \<Longrightarrow> no_new_service s u"
  by (simp add: no_new_service_def)

text \<open>What the system calls made for one descriptor change.\<close>

definition os_frame :: "int \<Rightarrow> os \<Rightarrow> os \<Rightarrow> bool" where
  "os_frame fd s s' \<longleftrightarrow>
     (\<forall>fd'. fd' \<noteq> fd \<longrightarrow>
        open_fds s' fd' = open_fds s fd' \<and> interest s' fd' = interest s fd' \<and> rx s' fd' = rx s fd') \<and>
     (\<exists>out. tx s' = tx s @ out \<and> fst ` set out \<subseteq> {fd}) \<and> clock s' = clock s \<and> no_new_service s s'"

definition frame :: "addr \<Rightarrow> server \<Rightarrow> server \<Rightarrow> bool" where
  "frame p w w' \<longleftrightarrow>
     (\<forall>q. q \<noteq> p \<longrightarrow> core w' q = core w q) \<and>
     (\<exists>c c'. conn_map w p = Some c \<and> conn_map w' p = Some c' \<and> h_fd c' = h_fd c \<and>
        os_frame (h_fd c) (sys w) (sys w')) \<and>
     nodes (conn_ll w') = nodes (conn_ll w) \<and> p_front (conn_ll w') = p_front (conn_ll w) \<and>
     q_size (conn_ll w') = q_size (conn_ll w) \<and>
     mutex_conn_ll (cq w') = mutex_conn_ll (cq w) \<and> server_str (cq w') = server_str (cq w) \<and>
     h_fd_epoll (cq w') = h_fd_epoll (cq w) \<and> pool_flags (tp w') = pool_flags (tp w) \<and>
     (\<exists>ts. queued w' = queued w @ ts)"

definition moves :: "addr set \<Rightarrow> addr \<Rightarrow> rpchat_conn_stat \<Rightarrow> server \<Rightarrow> server \<Rightarrow> bool" where
  "moves L p st w w' \<longleftrightarrow> srv_inv L w' \<and> frame p w w' \<and> status w' p = Some st"

text \<open>The faults the invariant does not exclude.\<close>

definition tolerated :: "fault \<Rightarrow> bool" where
  "tolerated e \<longleftrightarrow> e = OutOfBounds \<or> e = Killed"

subsection \<open>Facts about the invariant\<close>

lemma srv_inv_conn_ok: "srv_inv L w \<Longrightarrow> conn_map w p = Some c \<Longrightarrow> conn_ok L p c"
  by (simp add: srv_inv_def)

lemma srv_inv_not_NULL: "srv_inv L w \<Longrightarrow> conn_map w p = Some c \<Longrightarrow> p \<noteq> NULL"
  using ll_inv_bufs_NULL [of "conn_ll w"] by (cases "p = NULL") (simp_all add: srv_inv_def conn_map_def)

lemma statusE:
  assumes "status w p = Some st"
  obtains c where "conn_map w p = Some c" and "conn_status c = st"
  using assms by (auto simp: status_def)

lemma status_conn: "conn_map w p = Some c \<Longrightarrow> status w p = Some (conn_status c)"
  by (simp add: status_def)

lemma core_None: "core w p = None \<longleftrightarrow> conn_map w p = None"
  by (simp add: core_def)

lemma core_status: "core w' q = core w q \<Longrightarrow> status w' q = status w q"
  by (cases "conn_map w q"; cases "conn_map w' q")
    (auto simp: core_def status_def dest: arg_cong [where f = conn_status])

lemma os_frame_refl: "os_frame fd s s"
  by (simp add: os_frame_def)

lemma os_frame_trans: "os_frame fd s t \<Longrightarrow> os_frame fd t u \<Longrightarrow> os_frame fd s u"
  unfolding os_frame_def
  by (elim conjE exE) (intro conjI allI impI, simp_all add: image_Un no_new_service_trans [of s t u])

lemma frame_refl: "conn_map w p = Some c \<Longrightarrow> frame p w w"
  by (simp add: frame_def os_frame_refl)

lemma frame_trans: "frame p w w1 \<Longrightarrow> frame p w1 w2 \<Longrightarrow> frame p w w2"
  unfolding frame_def by (elim conjE exE) (simp, metis os_frame_trans append_assoc)

lemma moves_refl: "srv_inv L w \<Longrightarrow> status w p = Some st \<Longrightarrow> moves L p st w w"
  by (auto simp: moves_def elim: statusE intro: frame_refl)

lemma moves_trans: "moves L p st w w1 \<Longrightarrow> moves L' p st' w1 w2 \<Longrightarrow> moves L' p st' w w2"
  by (auto simp: moves_def intro: frame_trans)

lemma moves_inv: "moves L p st w w' \<Longrightarrow> srv_inv L w'"
  by (simp add: moves_def)

lemma moves_status: "moves L p st w w' \<Longrightarrow> status w' p = Some st"
  by (simp add: moves_def)

subsection \<open>Views after the primitive updates\<close>

named_theorems view_simps \<open>views of an updated server state\<close>

lemma sys_views [view_simps]:
  "conn_ll (w\<lparr>sys := s\<rparr>) = conn_ll w" "conn_map (w\<lparr>sys := s\<rparr>) = conn_map w"
  "conn_ptrs (w\<lparr>sys := s\<rparr>) = conn_ptrs w" "queued (w\<lparr>sys := s\<rparr>) = queued w"
  by (simp_all add: conn_ll_def conn_map_def conn_ptrs_def queued_def)

lemma jobs_sys [view_simps]: "jobs (w\<lparr>sys := s\<rparr>) = jobs w"
  by (simp add: jobs_def view_simps fun_eq_iff)

lemma args_ok_sys [view_simps]: "args_ok (w\<lparr>sys := s\<rparr>) a = args_ok w a"
  by (simp add: args_ok_def view_simps)

lemma live_on_sys [view_simps]: "live_on (w\<lparr>sys := s\<rparr>) = live_on w"
  by (simp add: live_on_def view_simps fun_eq_iff)

lemma status_sys [view_simps]: "status (w\<lparr>sys := s\<rparr>) = status w" "core (w\<lparr>sys := s\<rparr>) = core w"
  by (simp_all add: status_def core_def view_simps fun_eq_iff)

lemma srv_inv_sys:
  "srv_inv L w \<Longrightarrow> fd_inv (w\<lparr>sys := s\<rparr>) \<Longrightarrow> srv_inv L (w\<lparr>sys := s\<rparr>)"
  by (simp add: srv_inv_def view_simps)

lemma tp_views [view_simps]:
  "conn_ll (w\<lparr>tp := t\<rparr>) = conn_ll w" "conn_map (w\<lparr>tp := t\<rparr>) = conn_map w"
  "live_on (w\<lparr>tp := t\<rparr>) = live_on w" "queued (w\<lparr>tp := t\<rparr>) = map p_arg (tpool_tasks t)"
  "core (w\<lparr>tp := t\<rparr>) = core w"
  by (simp_all add: conn_ll_def conn_map_def live_on_def queued_def core_def fun_eq_iff)

lemma upd_views [view_simps]:
  "conn_map (upd_conn p c w) = (conn_map w)(p \<mapsto> c)"
  "conn_ptrs (upd_conn p c w) = conn_ptrs w" "queued (upd_conn p c w) = queued w"
  "tp (upd_conn p c w) = tp w" "sys (upd_conn p c w) = sys w"
  "server_str (cq (upd_conn p c w)) = server_str (cq w)"
  "h_fd_epoll (cq (upd_conn p c w)) = h_fd_epoll (cq w)"
  "mutex_conn_ll (cq (upd_conn p c w)) = mutex_conn_ll (cq w)"
  "p_front (conn_ll (upd_conn p c w)) = p_front (conn_ll w)"
  "nodes (conn_ll (upd_conn p c w)) = nodes (conn_ll w)"
  "q_size (conn_ll (upd_conn p c w)) = q_size (conn_ll w)"
  by (simp_all add: upd_conn_def conn_map_def conn_ptrs_def queued_def conn_ll_def)

lemma jobs_upd [view_simps]: "jobs (upd_conn p c w) = jobs w"
  by (simp add: jobs_def view_simps fun_eq_iff)

lemma ll_inv_upd: "ll_inv (conn_ll w) \<Longrightarrow> conn_map w p = Some c \<Longrightarrow> ll_inv (conn_ll (upd_conn p c' w))"
  using ll_inv_store [of "conn_ll w" p c c'] by (simp add: upd_conn_def conn_map_def conn_ll_def)

lemma status_upd [view_simps]:
  "status (upd_conn p c w) = (status w)(p \<mapsto> conn_status c)"
  "core (upd_conn p c w) = (core w)(p \<mapsto> c\<lparr>pending_jobs := 0\<rparr>)"
  by (auto simp: status_def core_def view_simps fun_eq_iff)

lemma live_on_upd:
  "conn_map w p = Some c \<Longrightarrow> h_fd c' = h_fd c \<Longrightarrow>
   (conn_status c' = RPCHAT_CONN_CLOSING \<longleftrightarrow> conn_status c = RPCHAT_CONN_CLOSING) \<Longrightarrow>
   live_on (upd_conn p c' w) = live_on w"
  by (auto simp: live_on_def view_simps fun_eq_iff)

text \<open>
  Changing a connection that stays well-formed, keeps its job count and descriptor, and is
  closing afterwards iff it was before.
\<close>

definition conn_step :: "addr set \<Rightarrow> addr \<Rightarrow> rpchat_conn_info \<Rightarrow> rpchat_conn_info \<Rightarrow> bool" where
  "conn_step L p c c' \<longleftrightarrow>
     conn_ok L p c' \<and> pending_jobs c' = pending_jobs c \<and> h_fd c' = h_fd c \<and>
     (conn_status c' = RPCHAT_CONN_CLOSING \<longleftrightarrow> conn_status c = RPCHAT_CONN_CLOSING)"

lemma srv_inv_upd:
  assumes "srv_inv L w" and "conn_map w p = Some c" and "conn_step L' p c c'"
    and "\<And>q. q \<noteq> p \<Longrightarrow> q \<in> L' \<longleftrightarrow> q \<in> L"
  shows "srv_inv L' (upd_conn p c' w)"
  using assms ll_inv_upd [of w p c c'] live_on_upd [of w p c c']
  by (auto simp: srv_inv_def view_simps args_ok_def conn_ok_def conn_step_def fd_inv_def)

lemma moves_upd:
  assumes "srv_inv L w" and "conn_map w p = Some c" and "conn_step L' p c c'"
    and "\<And>q. q \<noteq> p \<Longrightarrow> q \<in> L' \<longleftrightarrow> q \<in> L"
  shows "moves L' p (conn_status c') w (upd_conn p c' w)"
  using srv_inv_upd [OF assms] assms(2,3)
  by (simp add: moves_def frame_def view_simps os_frame_refl conn_step_def)

subsection \<open>Rules for the primitive operations\<close>

lemma wp_load_conn:
  "srv_inv L w \<Longrightarrow> conn_map w p = Some c \<Longrightarrow> wp (load_conn p) E Q w \<longleftrightarrow> Q c w"
  using srv_inv_not_NULL [of L w p c]
  by (simp add: load_conn_def load_buf_def conn_map_def conn_ll_def wp_def run_simps)

lemma wp_store_raw:
  "conn_map w p = Some c \<Longrightarrow> p \<noteq> NULL \<Longrightarrow>
   wp (store_conn p f) E Q w \<longleftrightarrow> Q () (upd_conn p (f c) w)"
  by (simp add: store_conn_def store_buf_def load_buf_def conn_map_def conn_ll_def upd_conn_def
      wp_def run_simps)

lemma wp_store_conn:
  "srv_inv L w \<Longrightarrow> conn_map w p = Some c \<Longrightarrow>
   wp (store_conn p f) E Q w \<longleftrightarrow> Q () (upd_conn p (f c) w)"
  using srv_inv_not_NULL [of L w p c] by (simp add: wp_store_raw)

lemma wp_set_status:
  "srv_inv L w \<Longrightarrow> conn_map w p = Some c \<Longrightarrow>
   wp (set_status p st) E Q w \<longleftrightarrow> Q () (upd_conn p (c\<lparr>conn_status := st\<rparr>) w)"
  by (simp add: set_status_def wp_store_conn)

end
