(* ===== verification/Chat_Rules.thy ===== *)
theory Chat_Rules
  imports Chat_Inv
begin

text \<open>
  Weakest precondition rules for the operations the handlers are made of. Each rule is stated
  from an anchor: \<open>moves L p st w0 w\<close> says how the current state \<open>w\<close> was reached from \<open>w0\<close>, and
  the rule hands the same fact on for the state after the operation, so that a handler is
  verified by applying one rule per statement.
\<close>

subsection \<open>Reading the anchor\<close>

definition fd_of :: "server \<Rightarrow> addr \<Rightarrow> int option" where
  "fd_of w p = map_option h_fd (conn_map w p)"

lemma moves_conn:
  assumes "moves L p st w0 w"
  obtains c where "conn_map w p = Some c" and "conn_status c = st" and "conn_ok L p c"
    and "fd_of w0 p = Some (h_fd c)" and "srv_inv L w"
proof -
  from assms obtain c where "conn_map w p = Some c" "conn_status c = st"
    by (auto simp: moves_def elim: statusE)
  then show thesis
    using assms that by (auto simp: moves_def frame_def fd_of_def srv_inv_conn_ok)
qed

lemma moves_start: "srv_inv L w \<Longrightarrow> conn_map w p = Some c \<Longrightarrow> moves L p (conn_status c) w w"
  by (rule moves_refl) (auto simp: status_def)

lemma moves_dom: "moves L p st w0 w \<Longrightarrow> dom (conn_map w) = dom (conn_map w0)"
  unfolding moves_def frame_def
  by (elim conjE exE, rule set_eqI) (metis core_None domD domIff option.distinct(1))

subsection \<open>Connection objects\<close>

lemma wp_load:
  assumes "moves L p st w0 w"
    and "\<And>c. conn_map w p = Some c \<Longrightarrow> conn_status c = st \<Longrightarrow> conn_ok L p c \<Longrightarrow>
        fd_of w0 p = Some (h_fd c) \<Longrightarrow> Q c w"
  shows "wp (load_conn p) E Q w"
  using assms by (auto elim!: moves_conn simp: wp_load_conn)

lemma wp_store:
  assumes "moves L p st w0 w"
    and "\<And>c. conn_map w p = Some c \<Longrightarrow> conn_status c = st \<Longrightarrow> conn_ok L p c \<Longrightarrow>
        conn_step L p c (f c) \<and> conn_status (f c) = st'"
    and "\<And>w'. moves L p st' w0 w' \<Longrightarrow> tp w' = tp w \<Longrightarrow> Q () w'"
  shows "wp (store_conn p f) E Q w"
proof -
  obtain c where c: "conn_map w p = Some c" "conn_status c = st" "conn_ok L p c" "srv_inv L w"
    using assms(1) by (elim moves_conn)
  then have "conn_step L p c (f c)" "conn_status (f c) = st'" using assms(2) by blast+
  then have "moves L p st' w (upd_conn p (f c) w)"
    using moves_upd [of L w p c L "f c"] c by simp
  with assms(1) have "moves L p st' w0 (upd_conn p (f c) w)" by (rule moves_trans)
  then show ?thesis using assms(3) c by (simp add: wp_store_conn view_simps)
qed

lemma wp_status:
  assumes "moves L p st w0 w"
    and "st' = RPCHAT_CONN_CLOSING \<longleftrightarrow> st = RPCHAT_CONN_CLOSING"
    and "\<And>w'. moves L p st' w0 w' \<Longrightarrow> Q () w'"
  shows "wp (set_status p st') E Q w"
  unfolding set_status_def
  using assms(1) _ assms(3)
  by (rule wp_store) (simp_all add: conn_step_def conn_ok_def assms(2))

subsection \<open>System calls that leave the descriptors alone\<close>

definition os_calm :: "int \<Rightarrow> (os, 'a) prog \<Rightarrow> bool" where
  "os_calm fd m \<longleftrightarrow>
     (\<forall>s. wp m (\<lambda>e. e = Killed)
        (\<lambda>a s'. os_frame fd s s' \<and> open_fds s' = open_fds s \<and> interest s' = interest s) s)"

lemma os_calm_basic [simp]:
  "os_calm fd os_malloc" "os_calm fd os_time" "os_calm fd (os_printf bs)"
  by (simp_all add: os_calm_def os_defs wp_def run_simps os_frame_def)

lemma os_calm_recv [simp]: "os_calm fd (rpchat_recv fd n)"
  by (simp add: os_calm_def rpchat_recv_def os_recv_def wp_def run_simps os_frame_def)

lemma os_calm_send [simp]: "os_calm fd (rpchat_sendmsg fd bs)"
  by (simp add: os_calm_def rpchat_sendmsg_def os_send_def wp_def Let_def os_frame_def)

lemma fd_inv_same:
  "fd_inv w \<Longrightarrow> interest s = interest (sys w) \<Longrightarrow> open_fds s = open_fds (sys w) \<Longrightarrow>
   fd_inv (w\<lparr>sys := s\<rparr>)"
  by (simp add: fd_inv_def view_simps)

lemma moves_sys:
  assumes "moves L p st w0 w" and "fd_of w0 p = Some fd" and "os_frame fd (sys w) s"
    and "fd_inv (w\<lparr>sys := s\<rparr>)"
  shows "moves L p st w0 (w\<lparr>sys := s\<rparr>)"
proof (rule moves_trans [OF assms(1)])
  obtain c where "conn_map w p = Some c" "conn_status c = st" "fd_of w0 p = Some (h_fd c)"
      "srv_inv L w"
    using assms(1) by (elim moves_conn)
  then show "moves L p st w (w\<lparr>sys := s\<rparr>)"
    using assms(2-) by (simp add: moves_def srv_inv_sys frame_def view_simps status_conn)
qed

lemma wp_calm:
  assumes "moves L p st w0 w" and "fd_of w0 p = Some fd" and "os_calm fd m"
    and "\<And>a w'. moves L p st w0 w' \<Longrightarrow> conn_map w' = conn_map w \<Longrightarrow>
        queued w' = queued w \<Longrightarrow> tp w' = tp w \<Longrightarrow> Q a w'"
  shows "wp (os_op m) tolerated Q w"
proof -
  have "fd_inv w" using assms(1) by (simp add: moves_def srv_inv_def)
  then have ok: "Q a (w\<lparr>sys := s\<rparr>)"
    if "os_frame fd (sys w) s" "open_fds s = open_fds (sys w)" "interest s = interest (sys w)" for a s
    using that assms(4) moves_sys [OF assms(1,2)] fd_inv_same by (simp add: view_simps)
  show ?thesis
    unfolding wp_zoomM
    using assms(3) [unfolded os_calm_def, rule_format, of "sys w"]
    by (rule wp_weaken) (simp_all add: ok tolerated_def)
qed

lemma wp_calm_res:
  assumes "moves L p st w0 w" and "fd_of w0 p = Some fd" and "os_calm fd m"
    and "\<And>s. wp m (\<lambda>_. True) (\<lambda>a s'. R a s') s"
    and "\<And>a w'. moves L p st w0 w' \<Longrightarrow> conn_map w' = conn_map w \<Longrightarrow>
        queued w' = queued w \<Longrightarrow> tp w' = tp w \<Longrightarrow> R a (sys w') \<Longrightarrow> Q a w'"
  shows "wp (os_op m) tolerated Q w"
proof -
  have "wp (os_op m) tolerated
      (\<lambda>a w'. moves L p st w0 w' \<and> conn_map w' = conn_map w \<and> queued w' = queued w \<and> tp w' = tp w) w"
    by (rule wp_calm [OF assms(1-3)]) simp
  moreover have "wp (os_op m) (\<lambda>_. True) (\<lambda>a w'. R a (sys w')) w"
    using assms(4) by (simp add: wp_zoomM)
  ultimately show ?thesis
    using assms(5) by (auto simp: wp_def split: option.splits sum.splits)
qed

lemma wp_calm_any:
  assumes "moves L p st w0 w" and "\<And>fd. os_calm fd m"
    and "\<And>a w'. moves L p st w0 w' \<Longrightarrow> conn_map w' = conn_map w \<Longrightarrow>
        queued w' = queued w \<Longrightarrow> tp w' = tp w \<Longrightarrow> Q a w'"
  shows "wp (os_op m) tolerated Q w"
  using assms by (metis moves_conn wp_calm)

subsection \<open>Queueing a task\<close>

lemma args_ok_dom: "dom (conn_map w') = dom (conn_map w) \<Longrightarrow> args_ok w' a = args_ok w a"
  unfolding args_ok_def by (metis domIff)

text \<open>The state after a task was queued, or after the attempt left the queue's lock held.\<close>

definition queue_step :: "rpchat_args_proc_event \<Rightarrow> chat_tpool \<Rightarrow> chat_tpool \<Rightarrow> bool" where
  "queue_step a t t' \<longleftrightarrow>
     tpool_inv t' \<and> pool_flags t' = pool_flags t \<and> \<not> mutex_task_queue t \<and>
     (if mutex_task_queue t' then tpool_tasks t' = tpool_tasks t
      else map p_arg (tpool_tasks t') = map p_arg (tpool_tasks t) @ [a])"

definition count_job :: "rpchat_conn_info \<Rightarrow> rpchat_conn_info" where
  "count_job c = c\<lparr>pending_jobs := pending_jobs c + 1\<rparr>"

lemma count_job_simps [simp]:
  "h_fd (count_job c) = h_fd c" "conn_status (count_job c) = conn_status c"
  "username (count_job c) = username c" "stat_msg (count_job c) = stat_msg c"
  "mutex_conn (count_job c) = mutex_conn c" "last_active (count_job c) = last_active c"
  "pending_jobs (count_job c) = pending_jobs c + 1"
  "(count_job c)\<lparr>pending_jobs := 0\<rparr> = c\<lparr>pending_jobs := 0\<rparr>"
  by (simp_all add: count_job_def)

lemma queued_step:
  "queue_step a (tp w) t \<Longrightarrow> queued (upd_conn q c (w\<lparr>tp := t\<rparr>)) =
     (if mutex_task_queue t then queued w else queued w @ [a])"
  by (auto simp: view_simps queue_step_def queued_def)

lemma srv_inv_queue:
  assumes inv: "srv_inv L w" and c: "conn_map w (p_conn_info a) = Some c" and a: "args_ok w a"
    and t: "queue_step a (tp w) t"
  defines "w' \<equiv> upd_conn (p_conn_info a) (count_job c) (w\<lparr>tp := t\<rparr>)"
  shows "srv_inv L w'"
proof -
  have dom: "dom (conn_map w') = dom (conn_map w)" using c by (auto simp: w'_def view_simps)
  have queued: "queued w' = (if mutex_task_queue t then queued w else queued w @ [a])"
    using t by (simp add: w'_def queued_step)
  have "live_on w' = live_on w"
    using c live_on_upd [of "w\<lparr>tp := t\<rparr>" "p_conn_info a" c "count_job c"]
    by (simp add: w'_def view_simps)
  then have fd: "fd_inv w'" using inv by (simp add: fd_inv_def srv_inv_def w'_def view_simps)
  have jobs: "pending_jobs d = word_of_nat (jobs w' q)"
    if "conn_map w' q = Some d" "\<not> mutex_task_queue t" for q d
    using that inv c t queued
    by (auto simp: w'_def view_simps srv_inv_def queue_step_def jobs_def split: if_splits)
  have conn: "conn_ok L q d" if "conn_map w' q = Some d" for q d
    using that inv c by (auto simp: w'_def view_simps srv_inv_def conn_ok_def split: if_splits)
  have "ll_inv (conn_ll w')"
    using inv c ll_inv_upd [of "w\<lparr>tp := t\<rparr>" "p_conn_info a" c]
    by (simp add: w'_def view_simps srv_inv_def)
  moreover have "args_ok w' b" if "b \<in> set (queued w')" for b
    using that inv a queued args_ok_dom [OF dom]
    by (auto simp: srv_inv_def split: if_splits)
  ultimately show ?thesis
    using fd jobs conn inv t by (simp add: srv_inv_def) (simp add: w'_def view_simps queue_step_def)
qed

lemma moves_queue:
  assumes m: "moves L p st w0 w" and c: "conn_map w (p_conn_info a) = Some c"
    and a: "args_ok w a" and t: "queue_step a (tp w) t"
  shows "moves L p st w0 (upd_conn (p_conn_info a) (count_job c) (w\<lparr>tp := t\<rparr>))"
proof (rule moves_trans [OF m])
  let ?w = "upd_conn (p_conn_info a) (count_job c) (w\<lparr>tp := t\<rparr>)"
  have inv: "srv_inv L w" using m by (rule moves_inv)
  obtain d where d: "conn_map w p = Some d" "conn_status d = st" using m by (elim moves_conn)
  have "core ?w q = core w q" for q using c by (auto simp: view_simps core_def)
  moreover have "\<exists>ts. queued ?w = queued w @ ts"
    using t by (simp add: queued_step)
  ultimately have "frame p w ?w"
    using t c d by (auto simp: frame_def view_simps os_frame_refl queue_step_def)
  moreover have "status ?w p = Some st"
    using c d by (auto simp: status_def view_simps)
  ultimately show "moves L p st w ?w"
    using srv_inv_queue [OF inv c a t] by (simp add: moves_def)
qed

lemma jobs_queue:
  "queue_step a (tp w) t \<Longrightarrow> x \<noteq> p_conn_info a \<Longrightarrow> jobs (upd_conn q c (w\<lparr>tp := t\<rparr>)) x = jobs w x"
  by (simp add: jobs_def queued_step)

lemma wp_enqueue_task:
  assumes m: "moves L p st w0 w" and c: "conn_map w (p_conn_info a) = Some c"
    and a: "args_ok w a" and p': "p' = p_conn_info a"
    and Q: "\<And>t. queue_step a (tp w) t \<Longrightarrow>
        moves L p st w0 (upd_conn p' (count_job c) (w\<lparr>tp := t\<rparr>)) \<Longrightarrow>
        Q RPLIB_SUCCESS (upd_conn p' (count_job c) (w\<lparr>tp := t\<rparr>))"
  shows "wp (rpchat_conn_info_enqueue_task p' a) E Q w"
proof -
  have inv: "srv_inv L w" using m by (rule moves_inv)
  have ok: "wp (store_conn p' (\<lambda>c. c\<lparr>pending_jobs := pending_jobs c + 1\<rparr>)) E (\<lambda>_. Q 0) (w\<lparr>tp := t\<rparr>)"
    if "queue_step a (tp w) t" for t
    using Q [OF that] moves_queue [OF m c a that] c p' srv_inv_not_NULL [OF inv c]
    by (simp add: wp_store_raw view_simps count_job_def)
  have "tpool_inv (tp w)" using inv by (simp add: srv_inv_def)
  then show ?thesis
    unfolding rpchat_conn_info_enqueue_task_def wp_simps wp_zoomM
    by (rule tq.wp_enq) (simp_all add: wp_simps ok queue_step_def)
qed

subsection \<open>Assembling messages\<close>

definition fill :: "msg_buf \<Rightarrow> byte list \<Rightarrow> msg_buf" where
  "fill b bs = b\<lparr>buf_bytes := store_bytes (buf_bytes b) 0 bs\<rparr>"

text \<open>The argument object with a message in its buffer.\<close>

definition with_msg :: "rpchat_args_proc_event \<Rightarrow> msg_buf \<Rightarrow> bcp_msg \<Rightarrow> rpchat_args_proc_event" where
  "with_msg args b m = args\<lparr>p_msg_buf := Some (fill b (encode m)), sz_msg_buf := length (encode m)\<rparr>"

lemma length_str_bytes [simp]: "length (str_bytes s) = unat (len s)"
  by (simp add: str_bytes_def)

lemma enc_str_bytes: "be16 (len s) @ str_bytes s = enc_string (str_bytes s)"
  by (simp add: enc_string_def)

lemma length_enc_string [simp]: "length (enc_string bs) = 2 + length bs"
  by (simp add: enc_string_def)

lemma upd_conn_twice [view_simps]: "upd_conn p d (upd_conn p c w) = upd_conn p d w"
  by (simp add: upd_conn_def)

lemma upd_conn_sys [view_simps]: "(upd_conn p c w)\<lparr>sys := sys w\<rparr> = upd_conn p c w"
  by (simp add: upd_conn_def)

lemma run_load_conn:
  "conn_map w p = Some c \<Longrightarrow> p \<noteq> NULL \<Longrightarrow> load_conn p w = Some (Inr (c, w))"
  by (simp add: load_conn_def load_buf_def conn_map_def conn_ll_def run_simps)

lemma run_store_conn:
  "conn_map w p = Some c \<Longrightarrow> p \<noteq> NULL \<Longrightarrow>
   store_conn p f w = Some (Inr ((), upd_conn p (f c) w))"
  by (simp add: store_conn_def store_buf_def load_buf_def conn_map_def conn_ll_def upd_conn_def
      run_simps)

lemma run_main_node: "nodes (conn_ll w) x = Some n \<Longrightarrow> x \<noteq> NULL \<Longrightarrow> load_conn_node x w = Some (Inr (n, w))"
  by (simp add: load_conn_node_def load_node_def conn_ll_def run_simps)

lemma write_fields_fill:
  "length (concat fs) \<le> buf_cap b \<Longrightarrow> buf_live b \<Longrightarrow> write_fields (Some b) 0 fs = Inr (Some (fill b (concat fs)))"
  by (simp add: write_fields_eq fill_def)

text \<open>\<open>rpchat_conn_proc_set_status\<close> writes the encoded STATUS message and empties \<open>stat_msg\<close>.\<close>

definition clear_stat :: "rpchat_conn_info \<Rightarrow> rpchat_conn_info" where
  "clear_stat c = c\<lparr>stat_msg := (stat_msg c)\<lparr>len := 0\<rparr>\<rparr>"

lemma set_status_run:
  assumes "conn_map w p = Some c" and "p \<noteq> NULL" and "str_wf (stat_msg c)"
    and "p_msg_buf args = Some b" and "buf_live b" and "SIZEOF_PKT_STATUS \<le> buf_cap b"
  shows "rpchat_conn_proc_set_status p args code w =
     Some (Inr ((RPLIB_SUCCESS, with_msg args b (Status code (str_bytes (stat_msg c)))),
                upd_conn p (clear_stat c) w))"
proof -
  let ?n = "unat (len (stat_msg c))"
  have n: "?n \<le> STR_STORAGE" using assms(3) by (simp add: str_wf_def)
  then have str: "read_str (stat_msg c) ?n = Inr (str_bytes (stat_msg c))"
    by (simp add: read_str_def str_bytes_def)
  let ?fs = "[[4], [code], be16 (len (stat_msg c)), str_bytes (stat_msg c)]"
  have cat: "concat ?fs = encode (Status code (str_bytes (stat_msg c)))"
    by (simp add: enc_str_bytes)
  have "length (concat ?fs) \<le> buf_cap b"
    using n assms(6) by (simp add: SIZEOF_PKT_STATUS_def SIZEOF_STRING_def)
  then have w: "write_fields (Some b) 0 ?fs =
      Inr (Some (fill b (encode (Status code (str_bytes (stat_msg c))))))"
    using assms(5) by (simp only: write_fields_fill cat)
  show ?thesis
    using assms(1,2,4)
    by (simp add: rpchat_conn_proc_set_status_def run_simps run_load_conn run_store_conn Let_def
        str w clear_stat_def with_msg_def del: write_fields.simps)
qed

text \<open>\<open>rpchat_conn_proc_set_deliver\<close> writes the encoded DELIVER message with the sanitized text.\<close>

lemma set_deliver_run:
  assumes "str_wf from" and "p_msg_buf args = Some b" and "buf_live b" and "SIZEOF_PKT_DELIVER \<le> buf_cap b"
  shows "rpchat_conn_proc_set_deliver args from msg w =
     Some (Inr ((RPLIB_SUCCESS,
        with_msg args b (Deliver (str_bytes from) (sanitize_spec True (str_bytes msg)))), w))"
proof -
  define bs where "bs = sanitize_spec True (str_bytes msg)"
  define out where
    "out = \<lparr>len = word_of_nat (length bs), contents = store_bytes (contents (stack_string 0 (sys w))) 0 bs\<rparr>"
  have out: "str_bytes out = bs" by (simp add: out_def bs_def sanitize_out_bytes)
  then have l: "unat (len out) = length bs" using length_str_bytes [of out] by simp
  have lbs: "length bs \<le> STR_STORAGE" by (simp add: bs_def length_sanitize_spec)
  have san: "snd (snd (rpchat_string_sanitize msg (stack_string 0 (sys w)) True)) = out"
    by (simp add: sanitize_eq Let_def out_def bs_def)
  have r1: "read_str from (unat (len from)) = Inr (str_bytes from)"
    using assms(1) by (simp add: read_str_def str_bytes_def str_wf_def)
  have r2: "read_str out (unat (len out)) = Inr bs"
    using l lbs out by (simp add: read_str_def str_bytes_def)
  let ?fs = "[[3], be16 (len from), str_bytes from, be16 (len out), bs]"
  have "be16 (len out) @ bs = enc_string bs" using enc_str_bytes [of out] by (simp add: out)
  then have cat: "concat ?fs = encode (Deliver (str_bytes from) bs)"
    using enc_str_bytes [of "from"] by simp
  have "length (concat ?fs) \<le> buf_cap b"
    using lbs assms(1,4) by (simp add: SIZEOF_PKT_DELIVER_def SIZEOF_STRING_def str_wf_def)
  then have w: "write_fields (Some b) 0 ?fs = Inr (Some (fill b (encode (Deliver (str_bytes from) bs))))"
    using assms(3) by (simp only: write_fields_fill cat)
  show ?thesis
    using assms(2) san w r1 r2 l
    by (simp add: rpchat_conn_proc_set_deliver_def uninit_string_def run_simps Let_def split_beta
        with_msg_def del: write_fields.simps flip: bs_def)
qed

subsection \<open>The lock of the connection list\<close>

definition ll_mutex :: "bool \<Rightarrow> server \<Rightarrow> server" where
  "ll_mutex b w = w\<lparr>cq := (cq w)\<lparr>mutex_conn_ll := b\<rparr>\<rparr>"

lemma ll_mutex_views [view_simps]:
  "conn_ll (ll_mutex b w) = conn_ll w" "conn_map (ll_mutex b w) = conn_map w"
  "queued (ll_mutex b w) = queued w" "status (ll_mutex b w) = status w"
  "core (ll_mutex b w) = core w" "live_on (ll_mutex b w) = live_on w"
  "tp (ll_mutex b w) = tp w" "sys (ll_mutex b w) = sys w" "fd_of (ll_mutex b w) = fd_of w"
  "server_str (cq (ll_mutex b w)) = server_str (cq w)"
  "h_fd_epoll (cq (ll_mutex b w)) = h_fd_epoll (cq w)"
  "mutex_conn_ll (cq (ll_mutex b w)) = b"
  by (simp_all add: ll_mutex_def conn_ll_def conn_map_def queued_def status_def core_def live_on_def
      fd_of_def fun_eq_iff)

lemma srv_inv_mutex [view_simps]: "srv_inv L (ll_mutex b w) = srv_inv L w"
  by (simp add: srv_inv_def fd_inv_def args_ok_def jobs_def view_simps)

lemma wp_lock_ll:
  "(\<not> mutex_conn_ll (cq w) \<Longrightarrow> Q () (ll_mutex True w)) \<Longrightarrow> wp lock_conn_ll E Q w"
  by (simp add: lock_conn_ll_def wp_def run_simps ll_mutex_def)

lemma wp_unlock_ll: "wp unlock_conn_ll E Q w \<longleftrightarrow> Q () (ll_mutex False w)"
  by (simp add: unlock_conn_ll_def wp_def run_simps ll_mutex_def)

lemma moves_locked:
  "moves L p st w0 w \<Longrightarrow> moves L p st (ll_mutex True w) (ll_mutex True w)"
  by (rule moves_refl) (simp_all add: view_simps moves_def)

lemma moves_unlocked:
  assumes "moves L p st w0 w" and "\<not> mutex_conn_ll (cq w)" and "moves L p st (ll_mutex True w) w2"
  shows "moves L p st w0 (ll_mutex False w2)"
  using assms(1)
  by (rule moves_trans) (use assms(2,3) in \<open>simp add: moves_def frame_def view_simps\<close>)

text \<open>Code that runs under the lock of the connection list gets an anchor of its own.\<close>

lemma wp_lock_anchor:
  assumes "moves L p st w0 w"
    and "\<And>w1. moves L p st w1 w1 \<Longrightarrow> conn_ll w1 = conn_ll w \<Longrightarrow> queued w1 = queued w \<Longrightarrow>
        (\<And>w2. moves L p st w1 w2 \<Longrightarrow> moves L p st w0 (ll_mutex False w2)) \<Longrightarrow> Q () w1"
  shows "wp lock_conn_ll E Q w"
  using assms(2) [OF moves_locked [OF assms(1)]] moves_unlocked [OF assms(1)]
  by (auto intro!: wp_lock_ll simp: view_simps)

end
