(* ===== verification/Chat_Safety.thy ===== *)
theory Chat_Safety
  imports Chat_Rules
begin

text \<open>
  Every handler of the server keeps the invariant: rules in the anchored form of
  \<open>Chat_Rules\<close>, one per function of \<open>rpchat_process_event.c\<close> and of the parts of the connection
  queue it calls, up to the task as a whole.
\<close>

subsection \<open>Queueing messages\<close>

lemma with_msg_simps [simp]:
  "p_conn_info (with_msg a b m) = p_conn_info a" "args_type (with_msg a b m) = args_type a"
  "args_event (with_msg a b m) = args_event a" "p_msg_buf (with_msg a b m) = Some (fill b (encode m))"
  "sz_msg_buf (with_msg a b m) = length (encode m)" "args_live (with_msg a b m) = args_live a"
  by (simp_all add: with_msg_def)

lemma fill_simps [simp]: "buf_cap (fill b bs) = buf_cap b" "buf_live (fill b bs) = buf_live b"
  by (simp_all add: fill_def)

lemma moves_clear_stat:
  assumes "moves L p st w0 w" and "conn_map w p = Some c"
  shows "moves L p st w0 (upd_conn p (clear_stat c) w)"
proof (rule moves_trans [OF assms(1)])
  have "conn_ok L p c" "conn_status c = st" "srv_inv L w"
    using assms by (auto elim!: moves_conn)
  then show "moves L p st w (upd_conn p (clear_stat c) w)"
    using moves_upd [of L w p c L "clear_stat c"] assms(2)
    by (simp add: conn_step_def conn_ok_def clear_stat_def str_wf_def)
qed

lemma wp_set_status_msg:
  assumes "moves L p st w0 w" and "p_msg_buf args = Some b" and "buf_live b" and "SIZEOF_PKT_STATUS \<le> buf_cap b"
    and "\<And>m w'. moves L p st w0 w' \<Longrightarrow> length (encode m) \<le> SIZEOF_PKT_STATUS \<Longrightarrow>
        Q (RPLIB_SUCCESS, with_msg args b m) w'"
  shows "wp (rpchat_conn_proc_set_status p args code) E Q w"
proof -
  obtain c where c: "conn_map w p = Some c" "conn_ok L p c" "srv_inv L w"
    using assms(1) by (elim moves_conn)
  then have wf: "str_wf (stat_msg c)" by (simp add: conn_ok_def)
  have "p \<noteq> NULL" using c by (auto dest: srv_inv_not_NULL)
  then have run: "rpchat_conn_proc_set_status p args code w =
     Some (Inr ((RPLIB_SUCCESS, with_msg args b (Status code (str_bytes (stat_msg c)))),
                upd_conn p (clear_stat c) w))"
    using set_status_run [OF c(1) _ wf assms(2-4)] by blast
  have "length (encode (Status code (str_bytes (stat_msg c)))) \<le> SIZEOF_PKT_STATUS"
    using wf by (simp add: str_wf_def SIZEOF_PKT_STATUS_def SIZEOF_STRING_def)
  then show ?thesis
    using assms(5) moves_clear_stat [OF assms(1) c(1)] by (simp add: wp_def run)
qed

text \<open>Both enqueue functions allocate twice and give up when either allocation fails.\<close>

lemma wp_alloc_two:
  assumes "moves L p st w0 w"
    and "\<And>w'. moves L p st w0 w' \<Longrightarrow> conn_map w' = conn_map w \<Longrightarrow> queued w' = queued w \<Longrightarrow>
        wp m tolerated Q w'"
    and "\<And>w'. moves L p st w0 w' \<Longrightarrow> queued w' = queued w \<Longrightarrow> Q RPLIB_ERROR w'"
  shows "wp (bindM (os_op os_malloc) (\<lambda>ok1. if \<not> ok1 then returnM RPLIB_ERROR
           else bindM (os_op os_malloc) (\<lambda>ok2. if \<not> ok2 then returnM RPLIB_ERROR else m))) tolerated Q w"
  unfolding wp_bindM
proof (rule wp_calm_any [OF assms(1)], simp)
  fix ok1 w1 assume m: "moves L p st w0 w1" "conn_map w1 = conn_map w" "queued w1 = queued w"
  have "wp (os_op os_malloc)  tolerated (\<lambda>ok2. wp (if \<not> ok2 then returnM RPLIB_ERROR else m) tolerated Q) w1"
    by (rule wp_calm_any [OF m(1)], simp) (simp add: wp_simps assms m(2,3))
  then show "wp (if \<not> ok1 then returnM RPLIB_ERROR
       else bindM (os_op os_malloc) (\<lambda>ok2. if \<not> ok2 then returnM RPLIB_ERROR else m)) tolerated Q w1"
    by (simp add: wp_simps assms m(1,3))
qed

lemma wp_enqueue_status:
  assumes "moves L p st w0 w" and "\<And>r w'. moves L p st w0 w' \<Longrightarrow> Q r w'"
  shows "wp (rpchat_conn_proc_enqueue_status p code) tolerated Q w"
  unfolding rpchat_conn_proc_enqueue_status_def
proof (rule wp_alloc_two [OF assms(1)], unfold outbound_args_def wp_simps)
  fix w1 assume m: "moves L p st w0 w1"
  let ?b = "\<lparr>buf_cap = SIZEOF_PKT_STATUS, buf_bytes = uninit (sys w1), buf_live = True\<rparr>"
  let ?a = "\<lparr>args_type = RPCHAT_PROC_EVENT_OUTBOUND, args_event = uninit_event (sys w1),
       p_conn_info = p, p_msg_buf = Some ?b, sz_msg_buf = 0, args_live = True\<rparr>"
  show "wp (rpchat_conn_proc_set_status p ?a code) tolerated
      (\<lambda>a. wp (case a of (res, args) \<Rightarrow> if res \<noteq> RPLIB_SUCCESS then returnM res
                 else rpchat_conn_info_enqueue_task p args) tolerated Q) w1"
  proof (rule wp_set_status_msg [OF m, of ?a ?b], simp, simp, simp)
    fix m w' assume w': "moves L p st w0 w'" and len: "length (encode m) \<le> SIZEOF_PKT_STATUS"
    obtain c where c: "conn_map w' p = Some c" using w' by (elim moves_conn)
    have "args_ok w' (with_msg ?a ?b m)" using c len by (simp add: args_ok_def buf_ok_def)
    then have "wp (rpchat_conn_info_enqueue_task p (with_msg ?a ?b m)) tolerated Q w'"
      using c assms(2) by (intro wp_enqueue_task [OF w']) simp_all
    then show "wp (case (RPLIB_SUCCESS, with_msg ?a ?b m) of (res, args) \<Rightarrow>
        if res \<noteq> RPLIB_SUCCESS then returnM res else rpchat_conn_info_enqueue_task p args)
          tolerated Q w'"
      by simp
  qed
qed (rule assms(2))

lemma wp_enqueue_deliver:
  assumes "moves L p st w0 w" and "conn_map w q \<noteq> None" and "str_wf from"
    and "\<And>r w'. moves L p st w0 w' \<Longrightarrow> (\<And>x. x \<noteq> q \<Longrightarrow> jobs w' x = jobs w x) \<Longrightarrow> Q r w'"
  shows "wp (rpchat_conn_proc_enqueue_deliver q from msg) tolerated Q w"
  unfolding rpchat_conn_proc_enqueue_deliver_def
proof (rule wp_alloc_two [OF assms(1)], unfold outbound_args_def wp_simps)
  fix w1 assume m: "moves L p st w0 w1" and same: "conn_map w1 = conn_map w" "queued w1 = queued w"
  let ?b = "\<lparr>buf_cap = SIZEOF_PKT_DELIVER, buf_bytes = uninit (sys w1), buf_live = True\<rparr>"
  let ?a = "\<lparr>args_type = RPCHAT_PROC_EVENT_OUTBOUND, args_event = uninit_event (sys w1),
       p_conn_info = q, p_msg_buf = Some ?b, sz_msg_buf = 0, args_live = True\<rparr>"
  let ?m = "Deliver (str_bytes from) (sanitize_spec True (str_bytes msg))"
  obtain c where c: "conn_map w1 q = Some c" using assms(2) same(1) by auto
  have jobs: "jobs w1 = jobs w" using same(2) by (simp add: jobs_def fun_eq_iff)
  have "length (encode ?m) \<le> SIZEOF_PKT_DELIVER"
    using assms(3) length_sanitize_spec [of True "str_bytes msg"]
    by (simp add: SIZEOF_PKT_DELIVER_def SIZEOF_STRING_def str_wf_def)
  then have "args_ok w1 (with_msg ?a ?b ?m)"
    using c by (simp add: args_ok_def buf_ok_def SIZEOF_PKT_STATUS_def SIZEOF_PKT_DELIVER_def
        SIZEOF_STRING_def STR_STORAGE_def)
  then have "wp (rpchat_conn_info_enqueue_task q (with_msg ?a ?b ?m)) tolerated Q w1"
    using c jobs by (intro wp_enqueue_task [OF m] assms(4)) (simp_all add: jobs_queue)
  moreover have "rpchat_conn_proc_set_deliver ?a from msg w1 =
      Some (Inr ((RPLIB_SUCCESS, with_msg ?a ?b ?m), w1))"
    by (rule set_deliver_run [OF assms(3)]) simp_all
  ultimately show "wp (rpchat_conn_proc_set_deliver ?a from msg) tolerated
      (\<lambda>a. wp (case a of (res, args) \<Rightarrow> if res \<noteq> RPLIB_SUCCESS then returnM res
                 else rpchat_conn_info_enqueue_task q args) tolerated Q) w1"
    by (simp add: wp_return [of "rpchat_conn_proc_set_deliver ?a from msg" w1])
qed (simp add: assms(4) jobs_def)

subsection \<open>Walking the connection list\<close>

lemma wp_load_conn_node:
  assumes "moves L p st w0 w" and "nodes (conn_ll w) x = Some n"
    and "conn_map w (p_data n) \<noteq> None \<Longrightarrow>
         p_next_node n = NULL \<or> nodes (conn_ll w) (p_next_node n) \<noteq> None \<Longrightarrow> Q n w"
  shows "wp (load_conn_node x) E Q w"
proof -
  have "ll_inv (conn_ll w)" using assms(1) by (simp add: moves_def srv_inv_def)
  from ll_inv_node [OF this assms(2)] show ?thesis
    using assms(2,3)
    by (simp add: load_conn_node_def load_node_def conn_map_def conn_ll_def wp_def run_simps)
qed

lemma wp_load_other:
  assumes "moves L p st w0 w" and "conn_map w q \<noteq> None"
    and "\<And>c. conn_map w q = Some c \<Longrightarrow> conn_ok L q c \<Longrightarrow> Q c w"
  shows "wp (load_conn q) E Q w"
proof -
  have inv: "srv_inv L w" using assms(1) by (rule moves_inv)
  obtain c where "conn_map w q = Some c" using assms(2) by auto
  then show ?thesis using wp_load_conn [OF inv] srv_inv_conn_ok [OF inv] assms(3) by blast
qed

lemma wp_broadcast_loop_rule:
  assumes "I cur w" and stop: "\<And>v. I NULL v \<Longrightarrow> Q () v"
    and step: "\<And>x v. I x v \<Longrightarrow> x \<noteq> NULL \<Longrightarrow> wp (load_conn_node x) E (\<lambda>n w1.
        if sndr \<noteq> p_data n then wp (load_conn (p_data n)) E (\<lambda>c w2.
          if conn_status c = RPCHAT_CONN_CLOSING \<or> conn_status c = RPCHAT_CONN_ERR then I x w2
          else wp (rpchat_conn_proc_enqueue_deliver (p_data n) from msg) E (\<lambda>_. I (p_next_node n)) w2) w1
        else I (p_next_node n) w1) v"
  shows "wp (broadcast_loop sndr from msg cur) E Q w"
  unfolding wp_iff
proof (intro allI impI)
  let ?ok = "\<lambda>r :: fault + unit \<times> server. case r of Inl e \<Rightarrow> E e | Inr (a, w') \<Rightarrow> Q a w'"
  let ?P = "\<lambda>s f m cur w r. s = sndr \<and> f = from \<and> m = msg \<longrightarrow> I cur w \<longrightarrow> ?ok r"
  fix r assume "broadcast_loop sndr from msg cur w = Some r"
  then have "?P sndr from msg cur w r"
  proof (rule broadcast_loop.raw_induct [where P = ?P, rotated], intro impI, elim conjE)
    fix loop :: "addr \<Rightarrow> rpchat_string \<Rightarrow> rpchat_string \<Rightarrow> addr \<Rightarrow> (server, unit) prog" and s f m x v r
    assume rec: "\<And>s f m x v r. loop s f m x v = Some r \<Longrightarrow> ?P s f m x v r"
      and same: "s = sndr" "f = from" "m = msg" and inv: "I x v"
    let ?body = "bindM (load_conn_node x) (\<lambda>n w1.
          if s \<noteq> p_data n then
            bindM (load_conn (p_data n)) (\<lambda>c w2.
              if conn_status c = RPCHAT_CONN_CLOSING \<or> conn_status c = RPCHAT_CONN_ERR then loop s f m x w2
              else
                bindM (rpchat_conn_proc_enqueue_deliver (p_data n) f m) (\<lambda>_ w3.
                  loop s f m (p_next_node n) w3) w2) w1
          else loop s f m (p_next_node n) w1)"
    assume body: "(if x = NULL then Some (Inr ((), v)) else ?body v) = Some r"
    have loop: "wp (loop sndr from msg y) E Q u" if "I y u" for y u
      unfolding wp_iff using rec that by blast
    have branch: "(if b then A else B) \<Longrightarrow> (A \<Longrightarrow> A') \<Longrightarrow> (B \<Longrightarrow> B') \<Longrightarrow> if b then A' else B'" for b A A' B B'
      by (cases b) simp_all
    have "wp ?body E Q v" if "x \<noteq> NULL"
      unfolding wp_bindM wp_if_state same
      by (rule wp_mono [OF step [OF inv that]]) (elim branch wp_mono loop)
    then show "?ok r" using body inv stop by (cases "x = NULL") (auto simp: wp_iff)
  qed
  with assms(1) show "?ok r" by simp
qed

lemma wp_broadcast_loop:
  assumes "moves L p st w0 w" and "cur = NULL \<or> nodes (conn_ll w0) cur \<noteq> None" and "str_wf from"
  shows "wp (broadcast_loop sndr from msg cur) tolerated
     (\<lambda>_ w'. moves L p st w0 w' \<and> jobs w' sndr = jobs w sndr) w"
proof (rule wp_broadcast_loop_rule [where I = "\<lambda>x v. moves L p st w0 v \<and>
    (x = NULL \<or> nodes (conn_ll w0) x \<noteq> None) \<and> jobs v sndr = jobs w sndr"], goal_cases)
  case (3 x v)
  then have m: "moves L p st w0 v" by simp
  have nodes: "nodes (conn_ll v) = nodes (conn_ll w0)" if "moves L p st w0 v" for v
    using that by (simp add: moves_def frame_def)
  obtain n where n: "nodes (conn_ll v) x = Some n" using 3 nodes [OF m] by auto
  show ?case
    by (rule wp_load_conn_node [OF m n])
      (use 3 in \<open>auto intro!: m wp_load_other [OF m] wp_enqueue_deliver [OF m] assms(3) simp: n nodes [OF m]\<close>)
qed (use assms in simp_all)

subsection \<open>Broadcasting\<close>

lemma wp_printf_msg:
  assumes "moves L p st w0 w"
    and "\<And>w'. moves L p st w0 w' \<Longrightarrow> conn_map w' = conn_map w \<Longrightarrow> queued w' = queued w \<Longrightarrow> Q () w'"
  shows "wp (printf_msg a b) tolerated Q w"
  unfolding printf_msg_def
  using wp_calm_any [OF assms(1), of "os_printf bs" for bs] assms(2)
  by (auto simp: wp_simps tolerated_def split: option.splits)

lemma wp_broadcast_msg:
  assumes "moves L p st w0 w" and "str_wf from"
    and "\<And>w'. moves L p st w0 w' \<Longrightarrow> jobs w' p = jobs w p \<Longrightarrow> Q RPLIB_SUCCESS w'"
  shows "wp (rpchat_broadcast_msg p (Some from) msg) tolerated Q w"
  unfolding rpchat_broadcast_msg_def uninit_string_def wp_simps Let_def split_beta option.case
proof (rule wp_printf_msg [OF assms(1)], rule wp_lock_anchor, assumption)
  fix v w1
  assume m: "moves L p st w1 w1" and q: "queued v = queued w" "queued w1 = queued v"
    and un: "\<And>w2. moves L p st w1 w2 \<Longrightarrow> moves L p st w0 (ll_mutex False w2)"
  have "ll_inv (conn_ll w1)" using m by (simp add: moves_def srv_inv_def)
  then have "wp (broadcast_loop p from msg' (p_front (conn_ll w1))) tolerated
      (\<lambda>_ w'. moves L p st w1 w' \<and> jobs w' p = jobs w1 p) w1" for msg'
    using m ll_inv_front assms(2) by (intro wp_broadcast_loop)
  then show "wp (broadcast_loop p from (snd (snd (rpchat_string_sanitize msg
        (stack_string 0 (sys w)) True))) (p_front (conn_ll w1))) tolerated
     (\<lambda>_. wp unlock_conn_ll tolerated (\<lambda>_. Q RPLIB_SUCCESS)) w1"
    by (rule wp_mono) (use q in \<open>simp add: wp_unlock_ll un assms(3) jobs_def view_simps\<close>)
qed

subsection \<open>Reading the connection list\<close>

lemma wp_find_loop:
  assumes "moves L p st w0 w" and "k > 0 \<Longrightarrow> nodes (conn_ll w) x \<noteq> None"
  shows "wp (find_loop k x tgt n) E (\<lambda>a w'. w' = w) w"
  using assms(2)
proof (induction k)
  case (Suc k)
  then obtain nd where "nodes (conn_ll w) x = Some nd" by auto
  with Suc show ?case
    by (auto simp: wp_simps intro!: wp_load_conn_node [OF assms(1)] wp_load_other [OF assms(1)])
qed (simp add: wp_simps)

lemma wp_find_by_username:
  assumes "moves L p st w0 w" and "\<And>a w'. moves L p st w0 w' \<Longrightarrow> Q a w'"
  shows "wp (rpchat_conn_queue_find_by_username tgt) tolerated Q w"
  unfolding rpchat_conn_queue_find_by_username_def wp_simps
proof (rule wp_lock_anchor [OF assms(1)])
  fix w1
  assume m: "moves L p st w1 w1"
    and un: "\<And>w2. moves L p st w1 w2 \<Longrightarrow> moves L p st w0 (ll_mutex False w2)"
  have inv: "ll_inv (conn_ll w1)" using m by (simp add: moves_def srv_inv_def)
  have "wp (find_loop (unat (q_size (conn_ll w1))) (p_front (conn_ll w1)) tgt 0) tolerated
      (\<lambda>a w'. w' = w1) w1"
    using m ll_inv_front [OF inv] p_front_NULL_iff [OF inv] unat_q_size [OF inv]
    by (intro wp_find_loop) auto
  then show "wp (find_loop (unat (q_size (conn_ll w1))) (p_front (conn_ll w1)) tgt 0) tolerated
      (\<lambda>a. wp unlock_conn_ll tolerated (\<lambda>_. Q a)) w1"
    by (rule wp_mono) (simp add: wp_unlock_ll un m assms(2))
qed

lemma wp_list_users_loop:
  assumes m: "moves L p st w0 w" and "x = NULL \<or> nodes (conn_ll w) x \<noteq> None"
  shows "wp (list_users_loop front x out i) tolerated (\<lambda>a w'. w' = w) w"
  unfolding wp_iff
proof (intro allI impI)
  let ?Pre = "\<lambda>x v. v = w \<and> (x = NULL \<or> nodes (conn_ll w) x \<noteq> None)"
  let ?ok = "\<lambda>r. case r of Inl e \<Rightarrow> tolerated e | Inr (a :: rpchat_string \<times> int, w') \<Rightarrow> w' = w"
  fix r assume "list_users_loop front x out i w = Some r"
  then have "?Pre x w \<longrightarrow> ?ok r"
  proof (rule list_users_loop.raw_induct [where P = "\<lambda>front x out i v r. ?Pre x v \<longrightarrow> ?ok r", rotated],
      intro impI)
    fix loop :: "addr \<Rightarrow> addr \<Rightarrow> rpchat_string \<Rightarrow> int \<Rightarrow> (server, rpchat_string \<times> int) prog"
      and front x out i v r
    assume rec: "\<And>front x out i v r. loop front x out i v = Some r \<Longrightarrow> ?Pre x v \<longrightarrow> ?ok r"
      and pre: "?Pre x v"
    let ?body = "bindM (load_conn_node x) (\<lambda>n w1.
        bindM (load_conn (p_data n)) (\<lambda>c w2.
          case str_arg (username c) of
            None \<Rightarrow> Some (Inl OutOfBounds)
          | Some u \<Rightarrow>
              (let text = (if front = x then u else lit '', '' @ u) in
               case append_user out i text of
                 Inl e \<Rightarrow> Some (Inl e)
               | Inr out' \<Rightarrow> loop front (p_next_node n) out' (i + int (length text)) w2)) w1)"
    assume body: "(if x = NULL then Some (Inr ((out, i), v)) else ?body v) = Some r"
    have loop: "?ok r'" if "loop front y out' j w = Some r'" "y = NULL \<or> nodes (conn_ll w) y \<noteq> None"
      for front y out' j r'
      using rec that by blast
    show "?ok r"
    proof (cases "x = NULL")
      case True
      with body pre show ?thesis by auto
    next
      case False
      then obtain n where n: "nodes (conn_ll w) x = Some n" using pre by auto
      have "wp ?body tolerated (\<lambda>a w'. w' = w) w"
        unfolding wp_bindM
        by (rule wp_load_conn_node [OF m n], rule wp_load_other [OF m], assumption)
          (auto simp: wp_iff Let_def tolerated_def append_user_def dest!: loop
            split: option.splits if_splits sum.splits)
      with body pre False show ?thesis by (simp add: wp_iff)
    qed
  qed
  with assms show "?ok r" by simp
qed

end
