(* ===== verification/Chat_Handlers.thy ===== *)
theory Chat_Handlers
  imports Chat_Safety
begin

text \<open>
  The handlers of the client's messages and the cases of the task keep the invariant, in the
  anchored form of \<open>Chat_Rules\<close>, and the task as a whole does.
\<close>

subsection \<open>The client's messages\<close>

lemma wp_list_users:
  assumes "moves L p st w0 w" and "\<And>a w'. moves L p st w0 w' \<Longrightarrow> Q a w'"
  shows "wp (rpchat_conn_queue_list_users out) tolerated Q w"
  unfolding rpchat_conn_queue_list_users_def wp_simps
proof (rule wp_lock_anchor [OF assms(1)])
  fix w1
  assume m: "moves L p st w1 w1"
    and un: "\<And>w2. moves L p st w1 w2 \<Longrightarrow> moves L p st w0 (ll_mutex False w2)"
  have "ll_inv (conn_ll w1)" using m by (simp add: moves_def srv_inv_def)
  then have "wp (list_users_loop (p_front (conn_ll w1)) (p_front (conn_ll w1)) out
      (uint (len out) - 1)) tolerated (\<lambda>a w'. w' = w1) w1"
    by (intro wp_list_users_loop [OF m] ll_inv_front)
  then show "wp (list_users_loop (p_front (conn_ll w1)) (p_front (conn_ll w1)) out
      (uint (len out) - 1)) tolerated
      (\<lambda>a. wp (case a of (out, i) \<Rightarrow> thenM unlock_conn_ll
                (returnM (RPLIB_SUCCESS, out\<lparr>len := word_of_int i\<rparr>))) tolerated Q) w1"
    by (rule wp_mono) (auto simp: wp_unlock_ll un m assms(2) wp_simps split: prod.split)
qed

lemma wp_recv_string:
  assumes "moves L p st w0 w" and "\<And>a w'. moves L p st w0 w' \<Longrightarrow> Q a w'"
  shows "wp (recv_string p) tolerated Q w"
  unfolding recv_string_def wp_bindM
proof (rule wp_load [OF assms(1)])
  fix c assume fd: "fd_of w0 p = Some (h_fd c)"
  have "wp (os_op (rpchat_recv (h_fd c) k)) tolerated Q' w'"
    if "moves L p st w0 w'" "\<And>a v. moves L p st w0 v \<Longrightarrow> Q' a v" for k w' Q'
    by (rule wp_calm [OF that(1) fd]) (simp_all add: that(2))
  then show "wp (os_op (rpchat_recv (h_fd c) 2)) tolerated
      (\<lambda>a. wp (case a of (n, lenbs) \<Rightarrow>
        if n \<noteq> 2 then returnM None
        else
          let l = be16toh lenbs in
          if RPCHAT_MAX_STR_LENGTH < unat l then returnM None
          else
            bindM (os_op (rpchat_recv (h_fd c) (unat l))) (\<lambda>(m, bs).
            if m \<noteq> uint l then returnM None
            else
              bindM uninit_string (\<lambda>junk.
              returnM (Some \<lparr>len = l, contents = store_bytes (contents junk) 0 bs\<rparr>)))) tolerated Q) w"
    using assms by (auto simp: wp_simps Let_def uninit_string_def split: prod.split)
qed

lemma wp_format_msg:
  "(\<And>s. Q s w) \<Longrightarrow> wp (format_msg pre s post) tolerated Q w"
  by (auto simp: format_msg_def uninit_string_def wp_simps tolerated_def split: option.splits)

lemma wp_handle_status:
  assumes "moves L p st w0 w" and "\<And>a w'. moves L p st w0 w' \<Longrightarrow> Q a w'"
  shows "wp (rpchat_conn_info_handle_status p) tolerated Q w"
proof -
  have "p \<noteq> NULL" using assms(1) by (auto elim!: moves_conn dest: srv_inv_not_NULL)
  then show ?thesis
    unfolding rpchat_conn_info_handle_status_def wp_simps
    by (auto intro!: wp_load [OF assms(1)] wp_calm [OF assms(1)] assms
        simp: wp_simps split: prod.split)
qed

lemma wp_handle_send:
  assumes "moves L p st w0 w" and "\<And>a w'. moves L p st w0 w' \<Longrightarrow> Q a w'"
  shows "wp (rpchat_handle_send p) tolerated Q w"
  unfolding rpchat_handle_send_def uninit_string_def wp_bindM
proof (rule wp_recv_string [OF assms(1)])
  fix s w1 assume m: "moves L p st w0 w1"
  have "wp (load_conn p) tolerated
      (\<lambda>c. wp (rpchat_broadcast_msg p (Some (username c)) msg) tolerated Q) w1" for msg
    by (rule wp_load [OF m], rule wp_broadcast_msg [OF m]) (auto simp: conn_ok_def assms)
  then show "wp (case s of None \<Rightarrow> returnM RPLIB_UNSUCCESS
     | Some curr_msg \<Rightarrow>
         bindM (getsM (\<lambda>w. stack_string 0 (sys w))) (\<lambda>junk.
         let (_, _, sanitized_msg) = rpchat_string_sanitize curr_msg junk True in
         if 1 > unat (len sanitized_msg) then returnM RPLIB_UNSUCCESS
         else
           bindM (load_conn p) (\<lambda>c.
           rpchat_broadcast_msg p (Some (username c)) sanitized_msg))) tolerated Q w1"
    by (cases s) (simp_all add: wp_simps Let_def split_beta assms(2) [OF m])
qed

lemma sanitize_wf: "str_wf (snd (snd (rpchat_string_sanitize inp out b)))"
proof -
  have "length (sanitize_spec b (str_bytes inp)) \<le> STR_STORAGE" by (rule length_sanitize_spec)
  then show ?thesis
    by (simp add: sanitize_eq Let_def str_wf_def STR_STORAGE_def unat_of_nat_small)
qed

text \<open>The part of \<open>rpchat_handle_register\<close> after the name was accepted.\<close>

definition register_notify :: "addr \<Rightarrow> rpchat_string \<Rightarrow> (server, int) prog" where
  "register_notify p name =
     bindM (format_msg [] name '' has joined the server.'') (\<lambda>group_reg_msg.
     bindM (format_msg ''Logged in as '' name (''.'' @ NEWLINE @ ''Current Clients: '' @ NEWLINE)) (\<lambda>client_reg_msg.
     bindM (getsM (\<lambda>w. q_size (conn_ll w))) (\<lambda>n.
     bindM (if 1 < n
            then bindM (rpchat_conn_queue_list_users client_reg_msg) (\<lambda>(_, out). returnM out)
            else returnM client_reg_msg) (\<lambda>client_reg_msg.
     bindM (getsM (\<lambda>w. server_str (cq w))) (\<lambda>srv.
     thenM (rpchat_conn_proc_enqueue_deliver p srv client_reg_msg)
     (thenM (rpchat_broadcast_msg p (Some srv) group_reg_msg)
     (returnM RPLIB_SUCCESS)))))))"

lemma moves_server_str: "moves L p st w0 w \<Longrightarrow> str_wf (server_str (cq w))"
  by (simp add: moves_def srv_inv_def)

lemma wp_register_notify:
  assumes "moves L p st w0 w" and "\<And>w'. moves L p st w0 w' \<Longrightarrow> Q RPLIB_SUCCESS w'"
  shows "wp (register_notify p name) tolerated Q w"
proof -
  have fin: "wp (rpchat_conn_proc_enqueue_deliver p (server_str (cq v)) msg1) tolerated
      (\<lambda>_. wp (rpchat_broadcast_msg p (Some (server_str (cq v))) msg2) tolerated
        (\<lambda>_. Q RPLIB_SUCCESS)) v"
    if m: "moves L p st w0 v" for v msg1 msg2
  proof (rule wp_enqueue_deliver [OF m])
    show "conn_map v p \<noteq> None" using m by (elim moves_conn) simp
    fix r w' assume "moves L p st w0 w'"
    then show "wp (rpchat_broadcast_msg p (Some (server_str (cq v))) msg2) tolerated
        (\<lambda>_. Q RPLIB_SUCCESS) w'"
      using moves_server_str [OF m] by (rule wp_broadcast_msg) (rule assms(2))
  qed (rule moves_server_str [OF m])
  show ?thesis
    unfolding register_notify_def wp_simps
    by (intro wp_format_msg)
      (auto simp: wp_simps fin assms(1) split_beta intro!: wp_list_users [OF assms(1)])
qed

lemma wp_handle_register:
  assumes "moves L p st w0 w" and "\<And>a w'. moves L p st w0 w' \<Longrightarrow> Q a w'"
  shows "wp (rpchat_handle_register p) tolerated Q w"
proof -
  have named: "wp (store_conn p (\<lambda>c. c\<lparr>username := name\<rparr>)) tolerated
      (\<lambda>_. wp (register_notify p name) tolerated Q) v"
    if "moves L p st w0 v" "str_wf name" for v name
    using that
    by (intro wp_store [OF that(1), of _ st] wp_register_notify)
      (auto simp: conn_step_def conn_ok_def assms(2))
  have found: "wp (rpchat_conn_queue_find_by_username name) tolerated
      (\<lambda>found. wp (if found \<noteq> NULL then returnM RPLIB_UNSUCCESS
         else thenM (store_conn p (\<lambda>c. c\<lparr>username := name\<rparr>)) (register_notify p name)) tolerated Q) v"
    if "moves L p st w0 v" "str_wf name" for v name
    by (rule wp_find_by_username [OF that(1)]) (simp add: wp_simps assms(2) named that(2))
  have "wp (recv_string p) tolerated (\<lambda>s. wp (case s of
         None \<Rightarrow> returnM RPLIB_UNSUCCESS
       | Some new_username \<Rightarrow>
           bindM uninit_string (\<lambda>junk.
           let (res, _, name) = rpchat_string_sanitize new_username junk False in
           if res \<noteq> RPLIB_SUCCESS then returnM res
           else
             bindM (rpchat_conn_queue_find_by_username name) (\<lambda>found.
             if found \<noteq> NULL then returnM RPLIB_UNSUCCESS
             else thenM (store_conn p (\<lambda>c. c\<lparr>username := name\<rparr>)) (register_notify p name)))) tolerated Q) w"
    by (rule wp_recv_string [OF assms(1)])
      (auto simp: wp_simps uninit_string_def Let_def split_beta assms(2) found sanitize_wf
        simp del: neq0_conv split: option.split)
  then show ?thesis
    unfolding rpchat_handle_register_def register_notify_def [symmetric] wp_bindM Let_def
    by (intro wp_load [OF assms(1)]) (simp add: wp_simps assms)
qed

lemma wp_handle_msg:
  assumes "moves L p st w0 w" and "\<And>a w'. moves L p st w0 w' \<Longrightarrow> Q a w'"
    and "buf = Some b" and "0 < buf_cap b" and "buf_live b"
  shows "wp (rpchat_handle_msg p buf) tolerated Q w"
  unfolding rpchat_handle_msg_def wp_simps using assms
  by (auto simp: rpchat_get_msg_type_def read_buf_def Let_def
      intro!: wp_handle_register wp_handle_send wp_handle_status)

lemma recv_result:
  "wp (rpchat_recv fd n) (\<lambda>_. True) (\<lambda>(k, bs) s. k \<le> int n \<and> length bs \<le> n) s"
  by (auto simp: rpchat_recv_def os_recv_def wp_def run_simps)

lemma wp_inbound:
  assumes "moves L p st w0 w" and "p_msg_buf args = Some b" and "buf_live b" and "SIZEOF_PKT_STATUS \<le> buf_cap b"
    and "sz_msg_buf args \<le> buf_cap b" and "data_ptr (ev_data (args_event args)) = p"
    and "\<And>r a w'. moves L p st w0 w' \<Longrightarrow> buf_ok a \<Longrightarrow> p_conn_info a = p_conn_info args \<Longrightarrow>
        args_type a = args_type args \<Longrightarrow> args_event a = args_event args \<Longrightarrow> args_live a = args_live args \<Longrightarrow>
        (r \<noteq> RPLIB_ERROR \<Longrightarrow> p_msg_buf a \<noteq> None) \<Longrightarrow> Q (r, a) w'"
  shows "wp (rpchat_conn_proc_handle_inbound_msg args) tolerated Q w"
proof -
  have handle: "wp (rpchat_handle_msg p (Some b')) tolerated (\<lambda>r. wp (returnM (r, a)) tolerated Q) w'"
    if "moves L p st w0 w'" "p_msg_buf a = Some b'" "buf_ok a" "p_conn_info a = p_conn_info args"
      "args_type a = args_type args" "args_event a = args_event args" "args_live a = args_live args" for w' a b'
    using that
    by (intro wp_handle_msg [where b = b'])
      (auto simp: wp_returnM buf_ok_def SIZEOF_PKT_STATUS_def SIZEOF_STRING_def intro!: assms(7))
  have ok: "buf_ok args" using assms by (simp add: buf_ok_def)
  have cap: "1 \<le> buf_cap b" using assms(4) by (simp add: SIZEOF_PKT_STATUS_def)
  have recv: "wp (os_op (rpchat_recv fd (Suc 0))) tolerated (\<lambda>a. wp (case a of (n, bs) \<Rightarrow>
          if 0 \<ge> n then
            bindM (liftM (free_msg_buf (p_msg_buf args))) (\<lambda>dangling.
            returnM (RPLIB_ERROR, args\<lparr>p_msg_buf := dangling, p_msg_buf := None\<rparr>))
          else
            bindM (liftM (write_buf (p_msg_buf args) 0 bs)) (\<lambda>b.
            bindM (rpchat_handle_msg p (p_msg_buf (args\<lparr>p_msg_buf := Some b, sz_msg_buf := nat n\<rparr>)))
              (\<lambda>res. returnM (res, args\<lparr>p_msg_buf := Some b, sz_msg_buf := nat n\<rparr>)))) tolerated Q) w"
    if "fd_of w0 p = Some fd" "sz_msg_buf args = 0" for fd
    by (rule wp_calm_res [OF assms(1) that(1) _ recv_result])
      (use that(2) assms(2-4) cap in \<open>auto simp: wp_simps write_buf_def free_msg_buf_def buf_ok_def
        intro!: assms(7) handle\<close>)
  show ?thesis
    unfolding rpchat_conn_proc_handle_inbound_msg_def Let_def assms(6) wp_if wp_bindM
    using assms(1,2) ok handle [OF assms(1,2) ok]
    by (auto simp: wp_returnM assms(7) intro!: wp_load [OF assms(1)] recv)
qed

end
