(* ===== verification/Chat_Task.thy ===== *)
theory Chat_Task
  imports Chat_Handlers
begin

text \<open>
  The task \<open>rpchat_task_conn_proc_event\<close> as a whole keeps the invariant: rules for sending,
  listening and closing, for every case of the \<open>switch\<close>, and for the way the task ends.
\<close>

subsection \<open>Sending and listening\<close>

lemma wp_submit:
  assumes "moves L p st w0 w" and "st \<noteq> RPCHAT_CONN_CLOSING"
    and "buf = Some b" and "buf_live b" and "sz \<le> buf_cap b"
    and "\<And>w'. moves L p st w0 w' \<Longrightarrow> Q RPLIB_SUCCESS w'"
    and "\<And>w'. moves L p RPCHAT_CONN_ERR w0 w' \<Longrightarrow> Q RPLIB_UNSUCCESS w'"
  shows "wp (rpchat_conn_info_submit_msg p buf sz) tolerated Q w"
proof -
  have send: "wp (os_op (rpchat_sendmsg fd bs)) tolerated (\<lambda>n. wp (let res =
        (if 0 > n then RPLIB_UNSUCCESS else RPLIB_SUCCESS) in
      thenM (if res = RPLIB_UNSUCCESS then set_status p RPCHAT_CONN_ERR else returnM ())
      (returnM res)) tolerated Q) w"
    if "fd_of w0 p = Some fd" for fd bs
    by (rule wp_calm [OF assms(1) that])
      (auto simp: wp_simps Let_def assms intro!: wp_status)
  show ?thesis
    unfolding rpchat_conn_info_submit_msg_def wp_bindM
    by (rule wp_load [OF assms(1)]) (simp add: wp_simps read_buf_def assms(3-5) send)
qed

lemma wp_outbound:
  assumes "moves L p st w0 w" and "st \<noteq> RPCHAT_CONN_CLOSING" and "p_conn_info args = p"
    and "p_msg_buf args = Some b" and "buf_live b" and "sz_msg_buf args \<le> buf_cap b" and "0 < buf_cap b"
    and "\<And>w'. moves L p st w0 w' \<Longrightarrow> Q RPLIB_SUCCESS w'"
    and "\<And>w' st'. moves L p st' w0 w' \<Longrightarrow> st' = st \<or> st' = RPCHAT_CONN_ERR \<Longrightarrow> Q RPLIB_UNSUCCESS w'"
  shows "wp (rpchat_conn_proc_handle_outbound_msg args) tolerated Q w"
proof -
  have "wp (rpchat_conn_info_submit_msg p (p_msg_buf args) (sz_msg_buf args)) tolerated Q w"
    by (rule wp_submit [OF assms(1,2,4-6)]) (auto intro: assms(8,9))
  then show ?thesis
    unfolding rpchat_conn_proc_handle_outbound_msg_def wp_simps
    using assms by (simp add: rpchat_get_msg_type_def read_buf_def Let_def)
qed

lemma moves_live:
  assumes "moves L p st w0 w" and "st \<noteq> RPCHAT_CONN_CLOSING" and "fd_of w0 p = Some fd"
  shows "live_on w p fd"
  using assms by (auto elim!: moves_conn simp: live_on_def)

lemma wp_start_listening:
  assumes "moves L p st w0 w" and "st \<noteq> RPCHAT_CONN_CLOSING" and "\<And>w'. moves L p st w0 w' \<Longrightarrow> Q () w'"
  shows "wp (start_listening p) tolerated Q w"
proof -
  have toggle: "wp (os_op (rpchat_toggle_descriptor ep fd p True)) tolerated
      (\<lambda>_. wp (returnM ()) tolerated Q) w"
    if fd: "fd_of w0 p = Some fd" for ep fd
  proof -
    have live: "live_on w p fd" using assms(1,2) fd by (rule moves_live)
    let ?s = "(sys w)\<lparr>interest := (interest (sys w))(fd \<mapsto> conn_event p)\<rparr>"
    have "fd_inv w" using assms(1) by (simp add: moves_def srv_inv_def)
    with live have "fd_inv (w\<lparr>sys := ?s\<rparr>)"
      by (auto simp: fd_inv_def view_simps conn_event_def)
    then have "moves L p st w0 (w\<lparr>sys := ?s\<rparr>)"
      by (intro moves_sys [OF assms(1) fd]) (simp_all add: os_frame_def)
    then show ?thesis
      using assms(1,3)
      by (simp add: wp_def run_simps rpchat_toggle_descriptor_def os_epoll_add_def)
  qed
  show ?thesis
    unfolding start_listening_def wp_bindM
    by (rule wp_load [OF assms(1)]) (simp add: wp_simps toggle)
qed

subsection \<open>Closing\<close>

text \<open>The descriptor is closed but the status is not yet \<open>RPCHAT_CONN_CLOSING\<close>.\<close>

definition hang_up :: "rpchat_conn_info \<Rightarrow> rpchat_conn_info" where
  "hang_up c = c\<lparr>conn_status := RPCHAT_CONN_CLOSING\<rparr>"

definition closing :: "addr set \<Rightarrow> addr \<Rightarrow> server \<Rightarrow> server \<Rightarrow> bool" where
  "closing L p w0 w \<longleftrightarrow>
     p \<noteq> NULL \<and>
     (\<exists>c. conn_map w p = Some c \<and> moves L p RPCHAT_CONN_CLOSING w0 (upd_conn p (hang_up c) w))"

lemma wp_set_closing:
  "closing L p w0 w \<Longrightarrow> (\<And>w'. moves L p RPCHAT_CONN_CLOSING w0 w' \<Longrightarrow> Q () w') \<Longrightarrow>
   wp (set_status p RPCHAT_CONN_CLOSING) E Q w"
  by (auto simp: closing_def set_status_def wp_store_raw hang_up_def)

definition closed_os :: "int \<Rightarrow> os \<Rightarrow> os" where
  "closed_os fd s = s\<lparr>open_fds := (open_fds s)(fd := False), interest := (interest s)(fd := None)\<rparr>"

lemma fd_inv_close:
  assumes inv: "fd_inv w" and c: "conn_map w p = Some c" "conn_status c \<noteq> RPCHAT_CONN_CLOSING"
  shows "fd_inv (upd_conn p (hang_up c) (w\<lparr>sys := closed_os (h_fd c) (sys w)\<rparr>))" (is "fd_inv ?w")
proof -
  have p: "live_on w p (h_fd c)" using c by (simp add: live_on_def)
  have live: "live_on ?w q fd \<longleftrightarrow> q \<noteq> p \<and> live_on w q fd" for q fd
    by (auto simp: live_on_def view_simps hang_up_def)
  have own: "fd = h_fd c" if "live_on w p fd" for fd using that c by (simp add: live_on_def)
  show ?thesis
    unfolding fd_inv_def live
  proof (intro conjI allI impI)
    fix fd ev q assume "interest (sys ?w) fd = Some ev" "ev_data ev = Data_ptr q"
    then have "fd \<noteq> h_fd c" "live_on w q fd"
      using inv by (auto simp: view_simps closed_os_def fd_inv_def split: if_splits)
    then show "q \<noteq> p" "live_on w q fd" using own by auto
  next
    fix q fd assume "q \<noteq> p \<and> live_on w q fd"
    then show "open_fds (sys ?w) fd"
      using inv p by (auto simp: view_simps closed_os_def fd_inv_def)
  next
    fix q q' fd assume "q \<noteq> p \<and> live_on w q fd" "q' \<noteq> p \<and> live_on w q' fd"
    then show "q = q'" using inv unfolding fd_inv_def by blast
  qed
qed

lemma closing_close:
  assumes m: "moves L p st w0 w" and "st \<noteq> RPCHAT_CONN_CLOSING" and "fd_of w0 p = Some fd"
  shows "closing L p w0 (w\<lparr>sys := closed_os fd (sys w)\<rparr>)"
proof -
  obtain c where c: "conn_map w p = Some c" "conn_status c = st" "conn_ok L p c" "srv_inv L w"
      "fd_of w0 p = Some (h_fd c)"
    using m by (elim moves_conn)
  let ?v = "w\<lparr>sys := closed_os fd (sys w)\<rparr>"
  let ?w = "upd_conn p (hang_up c) ?v"
  have fd: "fd = h_fd c" using c assms(3) by simp
  have "fd_inv w" using c(4) by (simp add: srv_inv_def)
  then have "fd_inv ?w" using fd_inv_close [of w p c] c assms(2) fd by simp
  moreover have "ll_inv (conn_ll ?w)"
    using ll_inv_upd [of ?v p c] c by (simp add: view_simps srv_inv_def)
  ultimately have "srv_inv L ?w"
    using c by (auto simp: srv_inv_def view_simps args_ok_def conn_ok_def hang_up_def jobs_def)
  moreover have "frame p w ?w"
    using c fd by (simp add: frame_def view_simps hang_up_def os_frame_def closed_os_def)
  ultimately have "moves L p RPCHAT_CONN_CLOSING w ?w"
    by (simp add: moves_def view_simps hang_up_def)
  moreover have "p \<noteq> NULL" using c by (auto dest: srv_inv_not_NULL)
  ultimately show ?thesis
    using moves_trans [OF m] c by (auto simp: closing_def view_simps)
qed

lemma close_connection_run:
  assumes "open_fds s fd"
  shows "rpchat_close_connection ep fd s = Some (Inr (- 1, closed_os fd s))"
  using assms
  by (simp add: rpchat_close_connection_def os_close_def os_epoll_del_def run_simps closed_os_def)

lemma wp_close:
  assumes m: "moves L p st w0 w" and "st \<noteq> RPCHAT_CONN_CLOSING" and "fd_of w0 p = Some fd"
    and "\<And>r w'. closing L p w0 w' \<Longrightarrow> Q r w'"
  shows "wp (os_op (rpchat_close_connection ep fd)) tolerated Q w"
proof -
  have "open_fds (sys w) fd"
    using moves_live [OF assms(1-3)] m by (auto simp: moves_def srv_inv_def fd_inv_def)
  from close_connection_run [OF this] show ?thesis
    using assms(4) closing_close [OF assms(1-3)] by (simp add: wp_def run_simps)
qed

subsection \<open>Removing a connection\<close>

lemma conn_ptrs_ll: "conn_ptrs w = map fst (ll_list (conn_ll w))"
  by (simp add: conn_ptrs_def)

lemma destroy_conn_loop_path:
  assumes "ll_path (nodes (conn_ll w)) x ps NULL" and "q \<in> set ps"
    and "distinct (map (dptr (conn_ll w)) ps)" and "dptr (conn_ll w) q = p"
  shows "destroy_conn_loop p x w =
     bindM (ll_op (rplib_ll_remove_node q)) (\<lambda>_ w2. Some (Inr (RPLIB_SUCCESS, w2))) w"
  using assms
proof (induction ps arbitrary: x)
  case (Cons a ps)
  obtain n where n: "x = a" "a \<noteq> NULL" "nodes (conn_ll w) a = Some n"
      "ll_path (nodes (conn_ll w)) (p_next_node n) ps NULL"
    using Cons.prems(1) by (elim ll_path_ConsE)
  have load: "load_conn_node a w = Some (Inr (n, w))"
    using n by (simp add: load_conn_node_def load_node_def conn_ll_def run_simps)
  have d: "dptr (conn_ll w) a = p_data n" using n by (simp add: dptr_def)
  show ?case
  proof (cases "q = a")
    case True
    then have "p_data n = p" using Cons.prems(4) d by simp
    then show ?thesis
      using n(1,2) load True by (subst destroy_conn_loop.simps) (simp add: bindM_return)
  next
    case False
    then have q: "q \<in> set ps" using Cons.prems(2) by simp
    then have "p_data n \<noteq> p" using Cons.prems(3,4) d by force
    then have "destroy_conn_loop p x w = destroy_conn_loop p (p_next_node n) w"
      using n(1,2) load by (subst destroy_conn_loop.simps) (simp add: bindM_return)
    then show ?thesis using Cons.IH [OF n(4) q] Cons.prems(3,4) by simp
  qed
qed simp

definition set_ll :: "rpchat_conn_info rplib_ll_queue \<Rightarrow> server \<Rightarrow> server" where
  "set_ll l w = w\<lparr>cq := (cq w)\<lparr>p_conn_ll := l\<rparr>\<rparr>"

lemma set_ll_views [view_simps]:
  "conn_ll (set_ll l w) = l" "conn_map (set_ll l w) = bufs l" "queued (set_ll l w) = queued w"
  "tp (set_ll l w) = tp w" "sys (set_ll l w) = sys w"
  "server_str (cq (set_ll l w)) = server_str (cq w)"
  "h_fd_epoll (cq (set_ll l w)) = h_fd_epoll (cq w)"
  "mutex_conn_ll (cq (set_ll l w)) = mutex_conn_ll (cq w)"
  by (simp_all add: set_ll_def conn_ll_def conn_map_def queued_def)

lemma destroy_conn_loop_run:
  assumes inv: "ll_inv (conn_ll w)" and p: "conn_map w p = Some c"
  shows "\<exists>l. destroy_conn_loop p (p_front (conn_ll w)) w = Some (Inr (RPLIB_SUCCESS, set_ll l w)) \<and>
     ll_inv l \<and> map fst (ll_list l) = filter (\<lambda>q. q \<noteq> p) (conn_ptrs w) \<and>
     bufs l = (conn_map w)(p := None)"
proof -
  have wf: "ll_wf (conn_ll w) (ll_nodes (conn_ll w))" using inv by (simp add: ll_inv_def)
  have path: "ll_path (nodes (conn_ll w)) (p_front (conn_ll w)) (ll_nodes (conn_ll w)) NULL"
    and dist: "distinct (map (dptr (conn_ll w)) (ll_nodes (conn_ll w)))"
    and dom: "dom (bufs (conn_ll w)) = dptr (conn_ll w) ` set (ll_nodes (conn_ll w))"
    using wf by (simp_all only: ll_wf_def)
  have "p \<in> dom (bufs (conn_ll w))" using p by (auto simp: conn_map_def)
  then obtain q where q: "q \<in> set (ll_nodes (conn_ll w))" "dptr (conn_ll w) q = p"
    unfolding dom by (elim imageE) simp
  obtain l where l: "rplib_ll_remove_node q (conn_ll w) = Some (Inr (RPLIB_SUCCESS, l))" "ll_inv l"
      "ll_list l = filter (\<lambda>e. fst e \<noteq> p) (ll_list (conn_ll w))"
      "bufs l = (bufs (conn_ll w))(p := None)"
    using remove_spec [OF inv q(1)] unfolding q(2) by (elim exE conjE)
  have "destroy_conn_loop p (p_front (conn_ll w)) w = Some (Inr (RPLIB_SUCCESS, set_ll l w))"
    unfolding destroy_conn_loop_path [OF path q(1) dist q(2)]
    using l(1) by (simp add: run_simps set_ll_def conn_ll_def)
  moreover have "map fst (ll_list l) = filter (\<lambda>q. q \<noteq> p) (conn_ptrs w)"
    by (simp only: l(3) conn_ptrs_ll filter_map comp_def)
  ultimately show ?thesis using l(2,4) by (auto simp: conn_map_def)
qed

text \<open>What is left when the connection \<open>p\<close> was removed.\<close>

definition gone :: "addr set \<Rightarrow> addr \<Rightarrow> server \<Rightarrow> server \<Rightarrow> bool" where
  "gone L p w0 w \<longleftrightarrow>
     srv_inv (L - {p}) w \<and> conn_map w p = None \<and> (\<forall>q. q \<noteq> p \<longrightarrow> core w q = core w0 q) \<and>
     conn_ptrs w = filter (\<lambda>q. q \<noteq> p) (conn_ptrs w0) \<and>
     mutex_conn_ll (cq w) = mutex_conn_ll (cq w0) \<and> server_str (cq w) = server_str (cq w0) \<and>
     h_fd_epoll (cq w) = h_fd_epoll (cq w0) \<and> pool_flags (tp w) = pool_flags (tp w0) \<and>
     (\<exists>fd. fd_of w0 p = Some fd \<and> os_frame fd (sys w0) (sys w)) \<and>
     (\<exists>ts. queued w = queued w0 @ ts)"

lemma moves_ptrs: "moves L p st w0 w \<Longrightarrow> conn_ptrs w = conn_ptrs w0"
  by (simp add: moves_def frame_def conn_ptrs_def ll_ptrs_def ll_nodes_def dptr_def)

lemma srv_inv_remove:
  assumes inv: "srv_inv L w" and c: "conn_map w p = Some c" "conn_status c = RPCHAT_CONN_CLOSING"
    and jobs: "jobs w p = 0" and l: "ll_inv l" "bufs l = (conn_map w)(p := None)"
  shows "srv_inv L (set_ll l w)"
proof -
  have "live_on (set_ll l w) = live_on w"
    using c l(2) by (auto simp: live_on_def view_simps fun_eq_iff)
  then have "fd_inv (set_ll l w)" using inv by (simp add: srv_inv_def fd_inv_def view_simps)
  moreover have "args_ok (set_ll l w) a" if "a \<in> set (queued w)" for a
  proof -
    have "p_conn_info a \<noteq> p" using jobs that by (auto simp: jobs_def filter_empty_conv)
    then show ?thesis using inv that l(2) by (auto simp: srv_inv_def args_ok_def view_simps)
  qed
  ultimately show ?thesis
    using inv l by (auto simp: srv_inv_def view_simps jobs_def split: if_splits)
qed

lemma moves_release:
  assumes "moves L p st w0 w" and "conn_map w p = Some c"
  shows "moves (L - {p}) p st w0 (upd_conn p (c\<lparr>mutex_conn := False\<rparr>) w)"
proof (rule moves_trans [OF assms(1)])
  have "conn_ok L p c" "conn_status c = st" "srv_inv L w"
    using assms by (auto elim!: moves_conn)
  then show "moves (L - {p}) p st w (upd_conn p (c\<lparr>mutex_conn := False\<rparr>) w)"
    using moves_upd [of L w p c "L - {p}" "c\<lparr>mutex_conn := False\<rparr>"] assms(2)
    by (simp add: conn_step_def conn_ok_def)
qed

lemma gone_destroy:
  assumes m: "moves L p RPCHAT_CONN_CLOSING w0 w" and c: "conn_map w p = Some c"
    and jobs: "jobs w p = 0" and free: "\<not> mutex_conn_ll (cq w)"
  defines "w2 \<equiv> ll_mutex True (upd_conn p (c\<lparr>mutex_conn := False\<rparr>) w)"
  assumes l: "ll_inv l" "map fst (ll_list l) = filter (\<lambda>q. q \<noteq> p) (conn_ptrs w2)"
    "bufs l = (conn_map w2)(p := None)"
  shows "gone L p w0 (ll_mutex False (set_ll l w2))"
proof -
  let ?w1 = "upd_conn p (c\<lparr>mutex_conn := False\<rparr>) w"
  have m1: "moves (L - {p}) p RPCHAT_CONN_CLOSING w0 ?w1" by (rule moves_release [OF m c])
  have "srv_inv (L - {p}) (set_ll l w2)"
  proof (rule srv_inv_remove [OF _ _ _ _ l(1,3)])
    show "srv_inv (L - {p}) w2" using m1 by (simp add: w2_def view_simps moves_def)
    show "conn_map w2 p = Some (c\<lparr>mutex_conn := False\<rparr>)" by (simp add: w2_def view_simps)
    show "conn_status (c\<lparr>mutex_conn := False\<rparr>) = RPCHAT_CONN_CLOSING"
      using m c by (auto elim!: moves_conn)
    show "jobs w2 p = 0" using jobs by (simp add: w2_def jobs_def view_simps)
  qed
  moreover have "conn_ptrs (ll_mutex False (set_ll l w2)) = filter (\<lambda>q. q \<noteq> p) (conn_ptrs w0)"
    using l(2) moves_ptrs [OF m1]
    by (simp add: conn_ptrs_ll view_simps w2_def)
  moreover have "core (set_ll l w2) q = core w0 q" if "q \<noteq> p" for q
  proof -
    have "core (set_ll l w2) q = core w2 q" using l(3) that by (simp add: core_def view_simps)
    also have "\<dots> = core w0 q"
      using m1 that by (simp add: w2_def view_simps) (simp add: moves_def frame_def view_simps)
    finally show ?thesis .
  qed
  ultimately show ?thesis
    using l(3) m1 free unfolding gone_def
    by (simp add: view_simps w2_def) (auto simp: moves_def frame_def view_simps fd_of_def)
qed

lemma wp_destroy:
  assumes m: "moves L p RPCHAT_CONN_CLOSING w0 w" and jobs: "jobs w p = 0"
    and Q: "\<And>w'. gone L p w0 w' \<Longrightarrow> Q RPLIB_SUCCESS w'"
  shows "wp (rpchat_conn_queue_destroy_conn_info p) E Q w"
proof -
  obtain c where c: "conn_map w p = Some c" "srv_inv L w" using m by (elim moves_conn)
  let ?w1 = "upd_conn p (c\<lparr>mutex_conn := False\<rparr>) w"
  have p: "p \<noteq> NULL" using c by (auto dest: srv_inv_not_NULL)
  have loop: "wp (destroy_conn_loop p (p_front (conn_ll w))) E
      (\<lambda>res. wp unlock_conn_ll E (\<lambda>_. Q res)) (ll_mutex True ?w1)"
    if free: "\<not> mutex_conn_ll (cq ?w1)"
  proof -
    let ?w2 = "ll_mutex True ?w1"
    have a: "ll_inv (conn_ll ?w2)"
      using moves_release [OF m c(1)] by (simp add: view_simps moves_def srv_inv_def)
    have b: "conn_map ?w2 p = Some (c\<lparr>mutex_conn := False\<rparr>)" by (simp add: view_simps)
    obtain l where l: "destroy_conn_loop p (p_front (conn_ll ?w2)) ?w2 =
        Some (Inr (RPLIB_SUCCESS, set_ll l ?w2))" "ll_inv l"
        "map fst (ll_list l) = filter (\<lambda>q. q \<noteq> p) (conn_ptrs ?w2)"
        "bufs l = (conn_map ?w2)(p := None)"
      using destroy_conn_loop_run [OF a b] by (elim exE conjE)
    then have "gone L p w0 (ll_mutex False (set_ll l ?w2))"
      using free by (intro gone_destroy [OF m c(1) jobs]) (simp_all add: view_simps)
    moreover have r: "destroy_conn_loop p (p_front (conn_ll w)) ?w2 =
        Some (Inr (RPLIB_SUCCESS, set_ll l ?w2))"
      using l(1) by (simp add: view_simps)
    ultimately show ?thesis
      unfolding wp_return [of "destroy_conn_loop p (p_front (conn_ll w))" ?w2, OF r] wp_unlock_ll
      using Q by simp
  qed
  show ?thesis
    unfolding rpchat_conn_queue_destroy_conn_info_def unlock_conn_def wp_simps
    using wp_store_raw [OF c(1) p] wp_lock_ll loop by (simp add: wp_simps)
qed

end
