(* ===== verification/Chat_Step.thy ===== *)
theory Chat_Step
  imports Chat_Task
begin

text \<open>
  The state machine of a connection: which status a task may leave its connection in, proved
  for every case of the \<open>switch\<close> and for the task as a whole together with the invariant.
\<close>

subsection \<open>The edges of the state machine\<close>

text \<open>
  The edges the code has (\<open>rpchat_task_conn_proc_event\<close>), for a status seen before and after a task. They differ from the
  README's in two places: an outbound task moves a connection that is not registered yet to
  \<open>RPCHAT_CONN_SEND_MSG\<close>, since the case for \<open>RPCHAT_CONN_PRE_REGISTER\<close> falls through to the next, and
  \<open>RPCHAT_CONN_ERR\<close> is left at once, whether or not the connection has jobs pending.
\<close>

fun next_status :: "rpchat_conn_stat \<Rightarrow> rpchat_conn_stat list" where
  "next_status RPCHAT_CONN_PRE_REGISTER =
     [RPCHAT_CONN_SEND_STAT, RPCHAT_CONN_SEND_MSG, RPCHAT_CONN_ERR]"
| "next_status RPCHAT_CONN_AVAILABLE =
     [RPCHAT_CONN_SEND_STAT, RPCHAT_CONN_SEND_MSG, RPCHAT_CONN_ERR]"
| "next_status RPCHAT_CONN_SEND_STAT = [RPCHAT_CONN_AVAILABLE, RPCHAT_CONN_ERR]"
| "next_status RPCHAT_CONN_SEND_MSG = [RPCHAT_CONN_PENDING_STATUS, RPCHAT_CONN_ERR]"
| "next_status RPCHAT_CONN_PENDING_STATUS = [RPCHAT_CONN_AVAILABLE, RPCHAT_CONN_ERR]"
| "next_status RPCHAT_CONN_ERR = [RPCHAT_CONN_CLOSING]"
| "next_status RPCHAT_CONN_CLOSING = []"

definition stays :: "rpchat_conn_stat \<Rightarrow> rpchat_conn_stat set" where
  "stays st = insert st (set (next_status st))"

lemma stays_simps [simp]: "st \<in> stays st" "st' \<in> set (next_status st) \<Longrightarrow> st' \<in> stays st"
  by (simp_all add: stays_def)

lemma next_ERR: "RPCHAT_CONN_ERR \<in> set (next_status st) \<longleftrightarrow>
    st \<noteq> RPCHAT_CONN_ERR \<and> st \<noteq> RPCHAT_CONN_CLOSING"
  by (cases st) auto

subsection \<open>The cases\<close>

definition ready :: "addr \<Rightarrow> rpchat_args_proc_event \<Rightarrow> bool" where
  "ready p a \<longleftrightarrow>
     p_conn_info a = p \<and> args_live a \<and> buf_ok a \<and>
     (args_type a = RPCHAT_PROC_EVENT_INBOUND \<longrightarrow> data_ptr (ev_data (args_event a)) = p)"

definition case_post ::
  "addr set \<Rightarrow> addr \<Rightarrow> rpchat_conn_stat \<Rightarrow> server \<Rightarrow> jump \<times> rpchat_args_proc_event \<Rightarrow> server \<Rightarrow> bool" where
  "case_post L p st w0 r w =
     (case r of (j, a) \<Rightarrow>
        ready p a \<and>
        (case j of
           Break res \<Rightarrow> \<exists>st' \<in> stays st. moves L p st' w0 w \<and>
             (res = RPLIB_ERROR \<longrightarrow> st' = st \<and> RPCHAT_CONN_ERR \<in> set (next_status st))
         | Goto_requeue \<Rightarrow> \<exists>st' \<in> stays st. moves L p st' w0 w
         | Goto_cleanup_no_unlock \<Rightarrow> st = RPCHAT_CONN_CLOSING \<and> gone L p w0 w))"

lemma readyE:
  assumes "ready p a" and "p_msg_buf a \<noteq> None"
  obtains b where "p_conn_info a = p" "p_msg_buf a = Some b" "buf_live b" "SIZEOF_PKT_STATUS \<le> buf_cap b"
    "sz_msg_buf a \<le> buf_cap b" "0 < buf_cap b"
    "args_type a = RPCHAT_PROC_EVENT_INBOUND \<Longrightarrow> data_ptr (ev_data (args_event a)) = p"
proof -
  obtain b where "p_msg_buf a = Some b" using assms(2) by auto
  with assms(1) show thesis
    by (intro that) (auto simp: ready_def buf_ok_def SIZEOF_PKT_STATUS_def)
qed

lemma wp_inbound_ready:
  assumes "moves L p st w0 w" and "ready p args" and "p_msg_buf args \<noteq> None"
    and "args_type args = RPCHAT_PROC_EVENT_INBOUND"
    and "\<And>r a w'. moves L p st w0 w' \<Longrightarrow> ready p a \<Longrightarrow> Q (r, a) w'"
  shows "wp (rpchat_conn_proc_handle_inbound_msg args) tolerated Q w"
proof -
  obtain b where b: "p_conn_info args = p" "p_msg_buf args = Some b" "buf_live b" "SIZEOF_PKT_STATUS \<le> buf_cap b"
      "sz_msg_buf args \<le> buf_cap b" "data_ptr (ev_data (args_event args)) = p"
    using readyE [OF assms(2,3)] assms(4) by metis
  show ?thesis
    by (rule wp_inbound [OF assms(1) b(2-6)], rule assms(5)) (use assms(2) in \<open>auto simp: ready_def b(1,6)\<close>)
qed

lemma wp_case_available:
  assumes m: "moves L p st w0 w" and r: "ready p args" "p_msg_buf args \<noteq> None"
    and st: "st = RPCHAT_CONN_PRE_REGISTER \<or> st = RPCHAT_CONN_AVAILABLE"
  shows "wp (case_available args) tolerated (case_post L p st w0) w"
proof -
  have p: "p_conn_info args = p" using r by (simp add: ready_def)
  show ?thesis
  proof (cases "args_type args = RPCHAT_PROC_EVENT_INBOUND")
    case True
    show ?thesis
      unfolding case_available_def Let_def p
      by (simp add: True wp_simps, rule wp_inbound_ready [OF m r True])
        (use st in \<open>auto simp: wp_simps case_post_def stays_def intro!: wp_status wp_enqueue_status\<close>)
  next
    case False
    then show ?thesis
      unfolding case_available_def Let_def p
      by (simp add: wp_simps, intro wp_status [OF m]) (use st r in \<open>auto simp: wp_simps case_post_def stays_def\<close>)
  qed
qed

lemma wp_case_send_stat:
  assumes m: "moves L p RPCHAT_CONN_SEND_STAT w0 w" and r: "ready p args" "p_msg_buf args \<noteq> None"
  shows "wp (case_send_stat args) tolerated (case_post L p RPCHAT_CONN_SEND_STAT w0) w"
proof -
  obtain b where b: "p_conn_info args = p" "p_msg_buf args = Some b" "buf_live b" "sz_msg_buf args \<le> buf_cap b"
      "0 < buf_cap b"
    using readyE [OF r] by metis
  have out: "wp (rpchat_conn_proc_handle_outbound_msg args) tolerated (\<lambda>res.
      wp (thenM (if res = RPLIB_SUCCESS
            then thenM (set_status p RPCHAT_CONN_AVAILABLE) (start_listening p)
            else returnM ())
          (returnM (Break res, args))) tolerated (case_post L p RPCHAT_CONN_SEND_STAT w0)) w"
    by (rule wp_outbound [OF m _ b])
      (use r in \<open>auto simp: wp_simps case_post_def stays_def intro!: wp_status wp_start_listening\<close>)
  show ?thesis
    unfolding case_send_stat_def Let_def b(1) wp_if wp_bindM
    using m r out b(3,5)
    by (auto simp: wp_liftM wp_returnM case_post_def stays_def rpchat_get_msg_type_def read_buf_def
        b(2) Let_def)
qed

lemma wp_case_send_msg:
  assumes m: "moves L p RPCHAT_CONN_SEND_MSG w0 w" and r: "ready p args" "p_msg_buf args \<noteq> None"
  shows "wp (case_send_msg args) tolerated (case_post L p RPCHAT_CONN_SEND_MSG w0) w"
proof -
  obtain b where b: "p_conn_info args = p" "p_msg_buf args = Some b" "buf_live b" "sz_msg_buf args \<le> buf_cap b"
      "0 < buf_cap b"
    using readyE [OF r] by metis
  have out: "wp (rpchat_conn_proc_handle_outbound_msg args) tolerated (\<lambda>res.
      wp (thenM (if res = RPLIB_SUCCESS
            then thenM (set_status p RPCHAT_CONN_PENDING_STATUS) (start_listening p)
            else returnM ())
          (returnM (Break res, args))) tolerated (case_post L p RPCHAT_CONN_SEND_MSG w0)) w"
    by (rule wp_outbound [OF m _ b])
      (use r in \<open>auto simp: wp_simps case_post_def stays_def intro!: wp_status wp_start_listening\<close>)
  show ?thesis
    unfolding case_send_msg_def Let_def b(1) wp_if wp_bindM
    using m r out by (auto simp: wp_returnM case_post_def stays_def)
qed

lemma wp_case_pending_status:
  assumes m: "moves L p RPCHAT_CONN_PENDING_STATUS w0 w" and r: "ready p args" "p_msg_buf args \<noteq> None"
  shows "wp (case_pending_status args) tolerated (case_post L p RPCHAT_CONN_PENDING_STATUS w0) w"
proof -
  have p: "p_conn_info args = p" using r by (simp add: ready_def)
  show ?thesis
  proof (cases "args_type args = RPCHAT_PROC_EVENT_INBOUND")
    case True
    show ?thesis
      unfolding case_pending_status_def Let_def p
      by (simp add: True wp_simps, rule wp_inbound_ready [OF m r True])
        (auto simp: wp_simps case_post_def stays_def intro!: wp_status wp_start_listening)
  qed (use m r in \<open>auto simp: case_pending_status_def Let_def p wp_simps case_post_def stays_def\<close>)
qed

lemma wp_case_err:
  assumes m: "moves L p RPCHAT_CONN_ERR w0 w" and r: "ready p args" "p_msg_buf args \<noteq> None"
  shows "wp (case_err args) tolerated (case_post L p RPCHAT_CONN_ERR w0) w"
proof -
  obtain b where b: "p_conn_info args = p" "p_msg_buf args = Some b" "buf_live b" "SIZEOF_PKT_STATUS \<le> buf_cap b"
      "args_type args = RPCHAT_PROC_EVENT_INBOUND \<Longrightarrow> data_ptr (ev_data (args_event args)) = p"
    using readyE [OF r] by metis
  define Q where "Q = (\<lambda>a :: int \<times> rpchat_args_proc_event. wp (case a of (_, args) \<Rightarrow>
     thenM (set_status (p_conn_info args) RPCHAT_CONN_CLOSING) (returnM (Goto_requeue, args)))
     tolerated (case_post L p RPCHAT_CONN_ERR w0))"
  have fin: "wp (load_conn p) tolerated (\<lambda>c. wp (bindM (getsM (\<lambda>w. h_fd_epoll (cq w))) (\<lambda>ep.
      bindM (os_op (rpchat_close_connection ep (h_fd c))) (\<lambda>res.
      returnM (res, with_msg args b msg)))) tolerated Q) w1"
    if m1: "moves L p RPCHAT_CONN_ERR w0 w1" and len: "length (encode msg) \<le> SIZEOF_PKT_STATUS"
    for w1 msg
  proof (rule wp_load [OF m1], unfold wp_bindM wp_getsM, rule wp_close [OF m1], simp, assumption,
      unfold wp_returnM)
    have rdy: "ready p (with_msg args b msg)" using b len r(1) by (simp add: ready_def buf_ok_def)
    fix res w2 assume "closing L p w0 w2"
    then show "Q (res, with_msg args b msg) w2"
      using rdy b(1) by (auto simp: Q_def wp_simps case_post_def stays_def intro!: wp_set_closing)
  qed
  have "wp (rpchat_conn_proc_error args) tolerated Q w"
    unfolding rpchat_conn_proc_error_def Let_def b(1) wp_bindM
    by (rule wp_set_status_msg [OF m b(2-4)])
      (use b(3,4) in \<open>auto simp: wp_simps intro!: wp_submit [where b = "fill b (encode m)" for m] fin\<close>)
  then show ?thesis
    unfolding case_err_def wp_bindM Q_def .
qed

lemma wp_left_msg: "(\<And>s. Q s w) \<Longrightarrow> wp (left_msg c) tolerated Q w"
  by (auto simp: left_msg_def uninit_string_def wp_simps intro!: wp_format_msg)

lemma jobs_bound:
  assumes "srv_inv L w" and "conn_map w p = Some c" and "\<not> mutex_task_queue (tp w)"
    and "pending_jobs c = 0"
  shows "jobs w p = 0"
proof -
  have "length (queued w) < INT_MAX"
    using assms(1) length_ll_list_bound [of "p_queue_tasks (tp w)"]
    by (simp add: queued_def tpool_tasks_def srv_inv_def)
  moreover have "jobs w p \<le> length (queued w)" by (simp add: jobs_def)
  ultimately have "jobs w p < 2 ^ LENGTH(32)" by (simp add: INT_MAX_def)
  moreover have "(word_of_nat (jobs w p) :: 32 word) = 0" using assms by (simp add: srv_inv_def)
  ultimately show ?thesis by (simp only: of_nat_word_eq_0_iff_small)
qed

lemma wp_case_closing:
  assumes m: "moves L p RPCHAT_CONN_CLOSING w0 w" and r: "ready p args"
    and q: "\<not> mutex_task_queue (tp w)"
  shows "wp (case_closing args) tolerated (case_post L p RPCHAT_CONN_CLOSING w0) w"
proof -
  have p: "p_conn_info args = p" using r by (simp add: ready_def)
  have bc: "wp (rpchat_broadcast_msg p (Some (server_str (cq w))) dc) tolerated
      (\<lambda>_. wp (thenM (rpchat_conn_queue_destroy_conn_info p) (returnM (Goto_cleanup_no_unlock, args)))
        tolerated (case_post L p RPCHAT_CONN_CLOSING w0)) w"
    if "jobs w p = 0" for dc
    by (rule wp_broadcast_msg [OF m moves_server_str [OF m]], unfold wp_simps, rule wp_destroy)
      (use that r in \<open>auto simp: case_post_def\<close>)
  have "wp (load_conn p) tolerated (\<lambda>c. wp (if pending_jobs c = 0 then
        bindM (left_msg c) (\<lambda>dc_msg.
        bindM (getsM (\<lambda>w. server_str (cq w))) (\<lambda>srv.
        thenM (rpchat_broadcast_msg p (Some srv) dc_msg)
        (thenM (rpchat_conn_queue_destroy_conn_info p)
        (returnM (Goto_cleanup_no_unlock, args)))))
      else returnM (Break RPLIB_SUCCESS, args)) tolerated (case_post L p RPCHAT_CONN_CLOSING w0)) w"
  proof (rule wp_load [OF m])
    fix c assume c: "conn_map w p = Some c"
    have "jobs w p = 0" if "pending_jobs c = 0"
      using jobs_bound [OF moves_inv [OF m] c q that] .
    moreover have "case_post L p RPCHAT_CONN_CLOSING w0 (Break RPLIB_SUCCESS, args) w"
      using m r by (auto simp: case_post_def)
    ultimately show "wp (if pending_jobs c = 0 then
        bindM (left_msg c) (\<lambda>dc_msg.
        bindM (getsM (\<lambda>w. server_str (cq w))) (\<lambda>srv.
        thenM (rpchat_broadcast_msg p (Some srv) dc_msg)
        (thenM (rpchat_conn_queue_destroy_conn_info p)
        (returnM (Goto_cleanup_no_unlock, args)))))
      else returnM (Break RPLIB_SUCCESS, args)) tolerated (case_post L p RPCHAT_CONN_CLOSING w0) w"
      using bc by (auto simp: wp_simps intro!: wp_left_msg)
  qed
  then show ?thesis unfolding case_closing_def Let_def p wp_bindM .
qed

lemma wp_proc_switch:
  assumes m: "moves L p st w0 w" and r: "ready p args" "p_msg_buf args \<noteq> None"
    and q: "\<not> mutex_task_queue (tp w)"
  shows "wp (proc_switch args) tolerated (case_post L p st w0) w"
proof -
  have p: "p_conn_info args = p" using r by (simp add: ready_def)
  show ?thesis
    unfolding proc_switch_def p wp_bindM
    by (rule wp_load [OF m])
      (use m r q in \<open>auto intro!: wp_case_available wp_case_send_stat wp_case_send_msg
        wp_case_pending_status wp_case_err wp_case_closing split: rpchat_conn_stat.split\<close>)
qed

subsection \<open>The end of the task\<close>

lemma ready_args_ok: "ready p a \<Longrightarrow> conn_map w p \<noteq> None \<Longrightarrow> args_ok w a"
  by (simp add: ready_def args_ok_def)

lemma wp_unlock_conn:
  assumes "moves L p st w0 w" and "\<And>w'. moves (L - {p}) p st w0 w' \<Longrightarrow> tp w' = tp w \<Longrightarrow> Q () w'"
  shows "wp (unlock_conn p) E Q w"
proof -
  obtain c where c: "conn_map w p = Some c" "srv_inv L w" using assms(1) by (elim moves_conn)
  then show ?thesis
    unfolding unlock_conn_def wp_store_conn [OF c(2,1)]
    by (intro assms(2) moves_release [OF assms(1)]) (simp_all add: view_simps)
qed

text \<open>The argument object and the buffer of a task that is not over were not freed, so the cleanup frees each once.\<close>

definition owns_memory :: "rpchat_args_proc_event \<Rightarrow> bool" where
  "owns_memory a \<longleftrightarrow> args_live a \<and> pred_option buf_live (p_msg_buf a)"

lemma cleanup_frees: "owns_memory a \<Longrightarrow> cleanup_no_unlock a = returnM ()"
  by (cases "p_msg_buf a")
    (simp_all add: owns_memory_def cleanup_no_unlock_def use_args_def free_msg_buf_def free_args_def fun_eq_iff run_simps)

lemma ready_owns: "ready p a \<Longrightarrow> owns_memory a"
  by (auto simp: ready_def buf_ok_def owns_memory_def split: option.splits)

lemmas ready_cleanup = cleanup_frees [OF ready_owns]

lemma wp_cleanup:
  assumes "moves L p st w0 w" and "ready p args" and "\<And>w'. moves (L - {p}) p st w0 w' \<Longrightarrow> Q () w'"
  shows "wp (cleanup args) E Q w"
proof -
  have "p_conn_info args = p" using assms(2) by (simp add: ready_def)
  then show ?thesis
    unfolding cleanup_def wp_thenM ready_cleanup [OF assms(2)]
    by (simp add: wp_returnM_eta) (rule wp_unlock_conn [OF assms(1)], rule assms(3))
qed

lemma wp_requeue_no_unlock:
  assumes m: "moves L p st w0 w" and r: "ready p args" and Q: "\<And>w'. moves L p st w0 w' \<Longrightarrow> Q () w'"
  shows "wp (requeue_no_unlock args) E Q w"
proof -
  have p: "p_conn_info args = p" using r by (simp add: ready_def)
  obtain c where c: "conn_map w p = Some c" using m by (elim moves_conn)
  have "wp (rpchat_conn_info_enqueue_task p args) E (\<lambda>_. Q ()) w"
    by (rule wp_enqueue_task [OF m]) (use c p r Q in \<open>auto intro!: ready_args_ok\<close>)
  then show ?thesis
    unfolding requeue_no_unlock_def p using m Q by (simp add: wp_simps wp_returnM_eta)
qed

lemma wp_requeue:
  assumes m: "moves L p st w0 w" and r: "ready p args"
    and Q: "\<And>w'. moves (L - {p}) p st w0 w' \<Longrightarrow> Q () w'"
  shows "wp (requeue args) E Q w"
proof -
  have p: "p_conn_info args = p" using r by (simp add: ready_def)
  show ?thesis
    unfolding requeue_def p wp_simps
    by (rule wp_unlock_conn [OF m], rule wp_requeue_no_unlock) (auto simp: r Q)
qed

definition step_post :: "addr set \<Rightarrow> addr \<Rightarrow> rpchat_conn_stat \<Rightarrow> server \<Rightarrow> server \<Rightarrow> bool" where
  "step_post L p st w0 w \<longleftrightarrow>
     (\<exists>st' \<in> stays st. moves (L - {p}) p st' w0 w) \<or>
     st = RPCHAT_CONN_CLOSING \<and> gone L p w0 w"

lemma wp_proc_finish:
  assumes "case_post L p st w0 (j, args) w"
  shows "wp (proc_finish j args) E (\<lambda>_. step_post L p st w0) w"
proof -
  have r: "ready p args" and p: "p_conn_info args = p"
    using assms by (auto simp: case_post_def ready_def)
  have req: "wp (requeue args) E (\<lambda>_. step_post L p st w0) v"
    if "moves L p st' w0 v" "st' \<in> stays st" for st' v
    by (rule wp_requeue [OF that(1) r]) (use that(2) in \<open>auto simp: step_post_def\<close>)
  have cln: "wp (cleanup args) E (\<lambda>_. step_post L p st w0) v"
    if "moves L p st' w0 v" "st' \<in> stays st" for st' v
    by (rule wp_cleanup [OF that(1) r]) (use that(2) in \<open>auto simp: step_post_def\<close>)
  have err: "wp (set_status p RPCHAT_CONN_ERR) E (\<lambda>_. wp (requeue args) E (\<lambda>_. step_post L p st w0)) v"
    if "moves L p st w0 v" "RPCHAT_CONN_ERR \<in> set (next_status st)" for v
    by (rule wp_status [OF that(1)]) (use that(2) in \<open>auto simp: next_ERR intro!: req\<close>)
  show ?thesis
    using assms
    by (cases j) (auto simp: proc_finish_def p case_post_def wp_simps step_post_def ready_cleanup
        intro: req cln err)
qed

subsection \<open>The task\<close>

definition timed_out :: "rpchat_args_proc_event \<Rightarrow> rpchat_conn_info \<Rightarrow> server \<Rightarrow> bool" where
  "timed_out a c w \<longleftrightarrow>
     args_type a = RPCHAT_PROC_EVENT_HEARTBEAT \<and>
     RPCHAT_CONNECTION_TIMEOUT < clock (sys w) - last_active c"

definition task_post ::
  "addr set \<Rightarrow> addr \<Rightarrow> rpchat_conn_stat \<Rightarrow> bool \<Rightarrow> server \<Rightarrow> server \<Rightarrow> bool" where
  "task_post L p st late w0 w \<longleftrightarrow>
     (\<exists>st'. moves L p st' w0 w \<and> (st' \<in> stays st \<or> late \<and> st' = RPCHAT_CONN_CLOSING)) \<or>
     st = RPCHAT_CONN_CLOSING \<and> gone L p w0 w"

lemma wp_ensure_msg_buf:
  assumes m: "moves L p st w0 w" and r: "ready p args"
    and Q: "\<And>a w'. moves L p st w0 w' \<Longrightarrow> tp w' = tp w \<Longrightarrow> conn_map w' = conn_map w \<Longrightarrow>
        ready p a \<Longrightarrow> p_msg_buf a \<noteq> None \<Longrightarrow> args_type a = args_type args \<Longrightarrow> Q (True, a) w'"
    and F: "\<And>w'. moves L p st w0 w' \<Longrightarrow> Q (False, args) w'"
  shows "wp (ensure_msg_buf args) tolerated Q w"
proof (cases "p_msg_buf args = None")
  case True
  then have sz: "sz_msg_buf args = 0" using r by (simp add: ready_def buf_ok_def)
  have "wp (os_op os_malloc) tolerated (\<lambda>ok. wp (bindM (getsM (\<lambda>w. uninit (sys w))) (\<lambda>junk.
        if ok then returnM (True, args\<lparr>p_msg_buf :=
            Some \<lparr>buf_cap = RPCHAT_MAX_INCOMING_MSG, buf_bytes = junk, buf_live = True\<rparr>\<rparr>)
        else returnM (False, args))) tolerated Q) w"
    by (rule wp_calm_any [OF m], simp)
      (use sz r in \<open>auto simp: wp_simps ready_def buf_ok_def SIZEOF_PKT_STATUS_def SIZEOF_STRING_def
        STR_STORAGE_def RPCHAT_MAX_INCOMING_MSG_def intro!: Q F\<close>)
  then show ?thesis by (simp add: ensure_msg_buf_def True wp_bindM)
next
  case False
  then show ?thesis using m r by (auto simp: ensure_msg_buf_def wp_simps intro!: Q)
qed

lemma wp_heartbeat:
  assumes m: "moves L p st w0 w" and r: "ready p args" "p_msg_buf args \<noteq> None"
    and q: "\<not> mutex_task_queue (tp w)"
    and st: "st \<noteq> RPCHAT_CONN_CLOSING" "st \<noteq> RPCHAT_CONN_ERR"
  shows "wp (store_conn p (\<lambda>c. c\<lparr>
           stat_msg := snprintf_str (stat_msg c) (lit ''Disconnected for inactivity.''),
           conn_status := RPCHAT_CONN_ERR\<rparr>)) tolerated
     (\<lambda>_. wp (bindM (proc_switch args) (\<lambda>(j, args). proc_finish j args)) tolerated
       (\<lambda>_. task_post (L - {p}) p st True w0)) w"
proof (rule wp_store [OF m, where st' = RPCHAT_CONN_ERR])
  fix c assume "conn_status c = st" "conn_ok L p c"
  then show "conn_step L p c (c\<lparr>
           stat_msg := snprintf_str (stat_msg c) (lit ''Disconnected for inactivity.''),
           conn_status := RPCHAT_CONN_ERR\<rparr>) \<and>
       conn_status (c\<lparr>stat_msg := snprintf_str (stat_msg c) (lit ''Disconnected for inactivity.''),
           conn_status := RPCHAT_CONN_ERR\<rparr>) = RPCHAT_CONN_ERR"
    using st by (simp add: conn_step_def conn_ok_def snprintf_str_def snprintf_def str_wf_def
        lit_def STR_STORAGE_def)
next
  fix w1 assume w1: "moves L p RPCHAT_CONN_ERR w0 w1" "tp w1 = tp w"
  have "wp (proc_switch args) tolerated (case_post L p RPCHAT_CONN_ERR w0) w1"
    using w1 q r by (intro wp_proc_switch) simp_all
  then show "wp (bindM (proc_switch args) (\<lambda>(j, args). proc_finish j args)) tolerated
      (\<lambda>_. task_post (L - {p}) p st True w0) w1"
    unfolding wp_bindM
  proof (rule wp_mono, unfold split_paired_all prod.case)
    fix j a w2 assume "case_post L p RPCHAT_CONN_ERR w0 (j, a) w2"
    from wp_proc_finish [OF this] show "wp (proc_finish j a) tolerated
        (\<lambda>_. task_post (L - {p}) p st True w0) w2"
      by (rule wp_mono) (use st in \<open>auto simp: step_post_def task_post_def stays_def next_ERR\<close>)
  qed
qed

text \<open>What follows the allocation of the message buffer (lines 408-585).\<close>

definition proc_rest :: "addr \<Rightarrow> rpchat_args_proc_event \<Rightarrow> (server, unit) prog" where
  "proc_rest p args =
     bindM (load_conn p) (\<lambda>c.
     bindM (os_op os_time) (\<lambda>now.
     if args_type args = RPCHAT_PROC_EVENT_HEARTBEAT \<and>
        conn_status c \<noteq> RPCHAT_CONN_CLOSING \<and> conn_status c \<noteq> RPCHAT_CONN_ERR \<and>
        \<not> RPCHAT_CONNECTION_TIMEOUT < now - last_active c
     then cleanup args
     else
       thenM (if args_type args = RPCHAT_PROC_EVENT_HEARTBEAT \<and>
                 conn_status c \<noteq> RPCHAT_CONN_CLOSING \<and> conn_status c \<noteq> RPCHAT_CONN_ERR
              then store_conn p (\<lambda>c. c\<lparr>
                     stat_msg := snprintf_str (stat_msg c) (lit ''Disconnected for inactivity.''),
                     conn_status := RPCHAT_CONN_ERR\<rparr>)
              else returnM ())
       (bindM (proc_switch args) (\<lambda>(j, args). proc_finish j args))))"

lemma wp_switch_finish:
  assumes m: "moves L p st w0 w" and r: "ready p args" "p_msg_buf args \<noteq> None"
    and q: "\<not> mutex_task_queue (tp w)"
  shows "wp (bindM (proc_switch args) (\<lambda>(j, args). proc_finish j args)) tolerated
     (\<lambda>_. step_post L p st w0) w"
  unfolding wp_bindM
  by (rule wp_mono [OF wp_proc_switch [OF assms]]) (auto intro!: wp_proc_finish)

lemma step_task_post: "step_post L p st w0 w \<Longrightarrow> task_post (L - {p}) p st late w0 w"
  by (auto simp: step_post_def task_post_def gone_def)

lemma moves_task_post: "moves L p st w0 w \<Longrightarrow> task_post L p st late w0 w"
  using stays_simps(1) by (auto simp: task_post_def)

lemma os_time_result: "wp os_time (\<lambda>_. True) (\<lambda>a s. a = clock s) s"
  by (simp add: os_time_def wp_simps)

lemma moves_clock: "moves L p st w0 w \<Longrightarrow> clock (sys w) = clock (sys w0)"
  by (auto simp: moves_def frame_def os_frame_def)

lemma wp_proc_rest:
  assumes m: "moves L p st w0 w" and r: "ready p args" "p_msg_buf args \<noteq> None"
    and q: "\<not> mutex_task_queue (tp w)" and c: "conn_map w p = Some c"
  shows "wp (proc_rest p args) tolerated (\<lambda>_. task_post (L - {p}) p st (timed_out args c w) w0) w"
proof -
  have p: "p_conn_info args = p" using r by (simp add: ready_def)
  obtain fd where fd: "fd_of w0 p = Some fd" using m by (elim moves_conn)
  have st: "conn_status c = st" using m c by (auto elim!: moves_conn)
  have cln: "wp (cleanup args) tolerated (\<lambda>_. task_post (L - {p}) p st late w0) v"
    if "moves L p st w0 v" for v late
    by (rule wp_cleanup [OF that r(1)]) (rule moves_task_post)
  have sw: "wp (bindM (proc_switch args) (\<lambda>(j, args). proc_finish j args)) tolerated
      (\<lambda>_. task_post (L - {p}) p st late w0) v"
    if "moves L p st w0 v" "tp v = tp w" for v late
    by (rule wp_mono [OF wp_switch_finish [OF that(1) r]]) (use q that in \<open>auto intro: step_task_post\<close>)
  note hb = wp_heartbeat [OF _ r]
  show ?thesis
    unfolding proc_rest_def wp_bindM
  proof (rule wp_load [OF m], rule wp_calm_res [OF m fd _ os_time_result], simp)
    fix d now v
    assume d: "conn_map w p = Some d" and v: "moves L p st w0 v" "tp v = tp w"
      and now: "now = clock (sys v)"
    have "d = c" using d c by simp
    moreover have "timed_out args c w" if "args_type args = RPCHAT_PROC_EVENT_HEARTBEAT"
        "RPCHAT_CONNECTION_TIMEOUT < now - last_active c"
      using that now moves_clock [OF m] moves_clock [OF v(1)] by (simp add: timed_out_def)
    ultimately show "wp (if args_type args = RPCHAT_PROC_EVENT_HEARTBEAT \<and>
        conn_status d \<noteq> RPCHAT_CONN_CLOSING \<and> conn_status d \<noteq> RPCHAT_CONN_ERR \<and>
        \<not> RPCHAT_CONNECTION_TIMEOUT < now - last_active d
     then cleanup args
     else
       thenM (if args_type args = RPCHAT_PROC_EVENT_HEARTBEAT \<and>
                 conn_status d \<noteq> RPCHAT_CONN_CLOSING \<and> conn_status d \<noteq> RPCHAT_CONN_ERR
              then store_conn p (\<lambda>c. c\<lparr>
                     stat_msg := snprintf_str (stat_msg c) (lit ''Disconnected for inactivity.''),
                     conn_status := RPCHAT_CONN_ERR\<rparr>)
              else returnM ())
       (bindM (proc_switch args) (\<lambda>(j, args). proc_finish j args))) tolerated
     (\<lambda>_. task_post (L - {p}) p st (timed_out args c w) w0) v"
      using cln [OF v(1)] sw [OF v] hb [OF v(1)] v(2) q st
      by (auto simp: wp_if wp_thenM wp_returnM)
  qed
qed

lemma wp_proc_locked:
  assumes m: "moves L p st w0 w" and r: "ready p args" and q: "\<not> mutex_task_queue (tp w)"
    and c: "conn_map w p = Some c"
  shows "wp (proc_locked args) tolerated
     (\<lambda>_. task_post (L - {p}) p st (timed_out args c w) w0) w"
proof -
  have p: "p_conn_info args = p" using r by (simp add: ready_def)
  let ?Q = "\<lambda>_. task_post (L - {p}) p st (timed_out args c w) w0"
  define buf where "buf = bindM (ensure_msg_buf args) (\<lambda>(ok, args).
     if \<not> ok then cleanup args else proc_rest p args)"
  have buf: "wp buf tolerated ?Q v"
    if v: "moves L p st w0 v" "tp v = tp w"
      and same: "args_type args = RPCHAT_PROC_EVENT_HEARTBEAT \<Longrightarrow> conn_map v p = Some c" for v
    unfolding buf_def wp_bindM
  proof (rule wp_ensure_msg_buf [OF v(1) r], unfold prod.case wp_if not_True_eq_False not_False_eq_True if_False
      if_True)
    fix a v' assume v': "moves L p st w0 v'" "tp v' = tp v" "conn_map v' = conn_map v"
      and a: "ready p a" "p_msg_buf a \<noteq> None" "args_type a = args_type args"
    obtain d where d: "conn_map v' p = Some d" using v'(1) by (elim moves_conn)
    have "timed_out a d v' \<longrightarrow> timed_out args c w"
      using d a(3) v'(3) same moves_clock [OF v'(1)] moves_clock [OF m] by (auto simp: timed_out_def)
    moreover have "wp (proc_rest p a) tolerated (\<lambda>_. task_post (L - {p}) p st (timed_out a d v') w0) v'"
      using v v' q by (intro wp_proc_rest [OF v'(1) a(1,2) _ d]) simp
    ultimately show "wp (proc_rest p a) tolerated ?Q v'"
      by (elim wp_mono) (auto simp: task_post_def)
  next
    fix v' assume "moves L p st w0 v'"
    then show "wp (cleanup args) tolerated ?Q v'"
      by (rule wp_cleanup [OF _ r]) (rule moves_task_post)
  qed
  have "wp (os_op os_time) tolerated (\<lambda>now. wp (store_conn p (\<lambda>c. c\<lparr>last_active := now\<rparr>)) tolerated
      (\<lambda>_. wp buf tolerated ?Q)) w" if "args_type args \<noteq> RPCHAT_PROC_EVENT_HEARTBEAT"
    by (rule wp_calm_any [OF m], simp, rule wp_store [where st' = st], assumption)
      (use that in \<open>auto simp: conn_step_def conn_ok_def intro!: buf\<close>)
  moreover have "wp buf tolerated ?Q w" using m c by (intro buf) simp_all
  moreover have "proc_locked args =
      thenM (if args_type args \<noteq> RPCHAT_PROC_EVENT_HEARTBEAT
             then bindM (os_op os_time) (\<lambda>now. store_conn p (\<lambda>c. c\<lparr>last_active := now\<rparr>))
             else returnM ()) buf"
    unfolding proc_locked_def Let_def p buf_def proc_rest_def ..
  ultimately show ?thesis by (simp add: wp_simps)
qed

end
