(* ===== verification/Chat_Worker.thy ===== *)
theory Chat_Worker
  imports Chat_Step
begin

text \<open>
  One round of a worker thread: it takes the task at the front of the queue and runs it
  (\<open>rplib_tpool_thread_do\<close>, lines 148 to 188). The round is one step here: the counter \<open>num_threads_busy\<close>, the
  wait on the condition variable and the interleaving with other threads are left to \<open>Tpool_Threads\<close>, and
  interleavings inside the task to \<open>Conn_Race\<close>. The theorems state what a round does to the whole server: the
  invariant, isolation of the other connections, and the edges of the state machine.
\<close>

subsection \<open>The round\<close>

definition run_task :: "chat_task \<Rightarrow> (server, unit) prog" where
  "run_task t =
     (case p_function t of Rpchat_task_conn_proc_event \<Rightarrow> rpchat_task_conn_proc_event (p_arg t))"

text \<open>The result says whether the worker goes on: \<open>False\<close> is the \<open>break\<close> of line 172.\<close>

definition worker_step :: "(server, bool) prog" where
  "worker_step =
     bindM (tp_op tpool_take_task) (\<lambda>t.
     case t of
       None \<Rightarrow> returnM False
     | Some t \<Rightarrow> thenM (run_task t) (returnM True))"

subsection \<open>The task\<close>

definition uncount_job :: "rpchat_conn_info \<Rightarrow> rpchat_conn_info" where
  "uncount_job c = c\<lparr>pending_jobs := pending_jobs c - 1\<rparr>"

lemma uncount_job_simps [simp]:
  "h_fd (uncount_job c) = h_fd c" "conn_status (uncount_job c) = conn_status c"
  "username (uncount_job c) = username c" "stat_msg (uncount_job c) = stat_msg c"
  "mutex_conn (uncount_job c) = mutex_conn c" "last_active (uncount_job c) = last_active c"
  "pending_jobs (uncount_job c) = pending_jobs c - 1"
  "(uncount_job c)\<lparr>pending_jobs := 0\<rparr> = c\<lparr>pending_jobs := 0\<rparr>"
  by (simp_all add: uncount_job_def)

lemma moves_trylock:
  assumes inv: "srv_inv L w" and c: "conn_map w p = Some c" and free: "\<not> mutex_conn c"
  shows "p \<notin> L" and "moves (insert p L) p (conn_status c) w (upd_conn p (c\<lparr>mutex_conn := True\<rparr>) w)"
proof -
  have ok: "conn_ok L p c" using inv c by (rule srv_inv_conn_ok)
  then show "p \<notin> L" using free by (simp add: conn_ok_def)
  show "moves (insert p L) p (conn_status c) w (upd_conn p (c\<lparr>mutex_conn := True\<rparr>) w)"
    using moves_upd [OF inv c, of "insert p L" "c\<lparr>mutex_conn := True\<rparr>"] ok
    by (simp add: conn_step_def conn_ok_def)
qed

lemma wp_task:
  assumes c: "conn_map w p = Some c" and p: "p \<noteq> NULL" and r: "ready p args"
    and q: "\<not> mutex_task_queue (tp w)"
  defines "w1 \<equiv> upd_conn p (uncount_job c) w"
  assumes inv: "srv_inv L w1"
  shows "wp (rpchat_task_conn_proc_event args) tolerated
     (\<lambda>_. task_post L p (conn_status c) (timed_out args c w) w1) w"
proof -
  have pc: "p_conn_info args = p" using r by (simp add: ready_def)
  have c1: "conn_map w1 p = Some (uncount_job c)" by (simp add: w1_def view_simps)
  have m1: "moves L p (conn_status c) w1 w1" using moves_start [OF inv c1] by simp
  let ?Q = "\<lambda>_ :: unit. task_post L p (conn_status c) (timed_out args c w) w1"
  have busy: "wp (requeue_no_unlock args) tolerated ?Q w1"
    by (rule wp_requeue_no_unlock [OF m1 r]) (rule moves_task_post)
  let ?w2 = "upd_conn p ((uncount_job c)\<lparr>mutex_conn := True\<rparr>) w1"
  have free: "wp (proc_locked args) tolerated ?Q ?w2" if "\<not> mutex_conn c"
  proof -
    have L: "p \<notin> L" and m2: "moves (insert p L) p (conn_status c) w1 ?w2"
      using moves_trylock [OF inv c1] that by simp_all
    have "wp (proc_locked args) tolerated (\<lambda>_. task_post (insert p L - {p}) p (conn_status c)
        (timed_out args ((uncount_job c)\<lparr>mutex_conn := True\<rparr>) ?w2) w1) ?w2"
      using q by (intro wp_proc_locked [OF m2 r]) (simp_all add: view_simps w1_def)
    moreover have "insert p L - {p} = L" using L by simp
    moreover have "timed_out args ((uncount_job c)\<lparr>mutex_conn := True\<rparr>) ?w2 = timed_out args c w"
      by (simp add: timed_out_def view_simps w1_def)
    ultimately show ?thesis by simp
  qed
  have "wp (trylock_conn p) tolerated
      (\<lambda>r. wp (if r \<noteq> RPLIB_SUCCESS then requeue_no_unlock args else proc_locked args) tolerated ?Q) w1"
    using busy free
    by (simp add: trylock_conn_def wp_simps wp_load_conn [OF inv c1] wp_store_conn [OF inv c1])
  then show ?thesis
    unfolding rpchat_task_conn_proc_event_def Let_def pc wp_simps wp_store_raw [OF c p]
    using r by (simp add: w1_def uncount_job_def ready_def use_args_def wp_returnM wp_store_raw [OF c p])
qed

subsection \<open>Taking a task\<close>

text \<open>The state from which the task at the front of the queue runs, its job already uncounted.\<close>

definition round_start :: "server \<Rightarrow> rpchat_args_proc_event \<Rightarrow> server \<Rightarrow> bool" where
  "round_start w a w1 \<longleftrightarrow>
     (\<exists>t c. queued w = a # map p_arg (tpool_tasks t) \<and> tpool_inv t \<and>
        pool_flags t = pool_flags (tp w) \<and> \<not> mutex_task_queue t \<and>
        conn_map w (p_conn_info a) = Some c \<and>
        w1 = upd_conn (p_conn_info a) (uncount_job c) (w\<lparr>tp := t\<rparr>))"

lemma args_ok_ready: "args_ok w a \<Longrightarrow> ready (p_conn_info a) a"
  by (simp add: args_ok_def ready_def)

lemma srv_inv_take:
  assumes inv: "srv_inv L w" and a: "queued w = a # map p_arg (tpool_tasks t)"
    and t: "tpool_inv t" "\<not> mutex_task_queue t" "\<not> mutex_task_queue (tp w)"
    and c: "conn_map w (p_conn_info a) = Some c"
  defines "w1 \<equiv> upd_conn (p_conn_info a) (uncount_job c) (w\<lparr>tp := t\<rparr>)"
  shows "srv_inv L w1"
proof -
  have dom: "dom (conn_map w1) = dom (conn_map w)" using c by (auto simp: w1_def view_simps)
  have queued: "queued w = a # queued w1" using a by (simp add: w1_def view_simps)
  have "live_on w1 = live_on w"
    using c live_on_upd [of "w\<lparr>tp := t\<rparr>" "p_conn_info a" c "uncount_job c"]
    by (simp add: w1_def view_simps)
  then have fd: "fd_inv w1" using inv by (simp add: fd_inv_def srv_inv_def w1_def view_simps)
  have jobs: "pending_jobs d = word_of_nat (jobs w1 q)" if "conn_map w1 q = Some d" for q d
  proof (cases "q = p_conn_info a")
    case True
    then have "jobs w q = Suc (jobs w1 q)" by (simp add: jobs_def queued)
    moreover have "pending_jobs c = word_of_nat (jobs w q)"
      using True inv c t(3) by (simp add: srv_inv_def)
    moreover have "d = uncount_job c" using True that by (simp add: w1_def view_simps)
    ultimately show ?thesis by simp
  next
    case False
    then have "jobs w q = jobs w1 q" by (simp add: jobs_def queued)
    then show ?thesis using False that inv t(3) by (simp add: w1_def view_simps srv_inv_def)
  qed
  have conn: "conn_ok L q d" if "conn_map w1 q = Some d" for q d
    using that inv c by (auto simp: w1_def view_simps srv_inv_def conn_ok_def split: if_splits)
  have "ll_inv (conn_ll w1)"
    using inv c ll_inv_upd [of "w\<lparr>tp := t\<rparr>" "p_conn_info a" c]
    by (simp add: w1_def view_simps srv_inv_def)
  moreover have "args_ok w1 b" if "b \<in> set (queued w1)" for b
    using that inv queued args_ok_dom [OF dom] by (simp add: srv_inv_def)
  ultimately show ?thesis
    using fd jobs conn inv t by (simp add: srv_inv_def) (simp add: w1_def view_simps)
qed

text \<open>What a round guarantees.\<close>

definition round_post :: "addr set \<Rightarrow> server \<Rightarrow> bool \<Rightarrow> server \<Rightarrow> bool" where
  "round_post L w go w' =
     (if go then
        \<exists>a w1 c. round_start w a w1 \<and> conn_map w (p_conn_info a) = Some c \<and>
          task_post L (p_conn_info a) (conn_status c) (timed_out a c w) w1 w'
      else b_terminate (tp w) \<and> w' = w)"

lemma wp_worker_step:
  assumes inv: "srv_inv L w"
  shows "wp worker_step tolerated (round_post L w) w"
  unfolding worker_step_def wp_bindM wp_zoomM
proof (rule tq.wp_get)
  show "tpool_inv (tp w)" using inv by (simp add: srv_inv_def)
  fix t task ts
  assume t: "tpool_inv t" "tpool_tasks (tp w) = task # ts" "tpool_tasks t = ts"
    "\<not> mutex_task_queue (tp w)" "\<not> mutex_task_queue t" "pool_flags t = pool_flags (tp w)"
  let ?a = "p_arg task"
  have q: "queued w = ?a # map p_arg (tpool_tasks t)" using t(2,3) by (simp add: queued_def)
  then have ok: "args_ok w ?a" using inv by (simp add: srv_inv_def)
  then obtain c where c: "conn_map w (p_conn_info ?a) = Some c" by (auto simp: args_ok_def)
  let ?w1 = "upd_conn (p_conn_info ?a) (uncount_job c) (w\<lparr>tp := t\<rparr>)"
  have start: "round_start w ?a ?w1" using q t c by (auto simp: round_start_def)
  have p: "p_conn_info ?a \<noteq> NULL" using inv c by (auto dest: srv_inv_not_NULL)
  have "wp (rpchat_task_conn_proc_event ?a) tolerated (\<lambda>_. task_post L (p_conn_info ?a) (conn_status c)
      (timed_out ?a c (w\<lparr>tp := t\<rparr>)) ?w1) (w\<lparr>tp := t\<rparr>)"
    using c p t ok srv_inv_take [OF inv q t(1,5,4) c]
    by (intro wp_task) (simp_all add: view_simps args_ok_ready)
  then have "wp (rpchat_task_conn_proc_event ?a) tolerated (\<lambda>_. round_post L w True) (w\<lparr>tp := t\<rparr>)"
    by (rule wp_mono) (use start c in \<open>auto simp: round_post_def timed_out_def\<close>)
  then show "wp (case Some task of None \<Rightarrow> returnM False | Some t \<Rightarrow> thenM (run_task t) (returnM True))
      tolerated (round_post L w) (w\<lparr>tp := t\<rparr>)"
    by (cases "p_function task") (simp add: run_task_def wp_simps wp_returnM_eta)
qed (simp add: wp_simps round_post_def)

subsection \<open>Summary of a round\<close>

lemma srv_inv_absent: "conn_map w p = None \<Longrightarrow> srv_inv (L - {p}) w \<longleftrightarrow> srv_inv L w"
  by (auto simp: srv_inv_def conn_ok_def)

lemma task_postE:
  assumes "task_post L p st late w0 w"
  obtains (on) st' where "moves L p st' w0 w" "st' \<in> stays st \<or> late \<and> st' = RPCHAT_CONN_CLOSING"
    | (off) "st = RPCHAT_CONN_CLOSING" "gone L p w0 w"
  using assms by (auto simp: task_post_def)

text \<open>What every round does, whether or not the connection survives it.\<close>

definition round_frame :: "server \<Rightarrow> rpchat_args_proc_event \<Rightarrow> rpchat_conn_info \<Rightarrow> server \<Rightarrow> bool" where
  "round_frame w a c w' \<longleftrightarrow>
     conn_map w (p_conn_info a) = Some c \<and>
     (\<forall>q. q \<noteq> p_conn_info a \<longrightarrow> core w' q = core w q) \<and>
     os_frame (h_fd c) (sys w) (sys w') \<and>
     mutex_conn_ll (cq w') = mutex_conn_ll (cq w) \<and> pool_flags (tp w') = pool_flags (tp w) \<and>
     (\<exists>rest new. queued w = a # rest \<and> queued w' = rest @ new)"

lemma conn_ptrs_tp [view_simps]: "conn_ptrs (w\<lparr>tp := t\<rparr>) = conn_ptrs w"
  by (simp add: conn_ptrs_def view_simps)

lemma round_startE:
  assumes "round_start w a w1" and "conn_map w (p_conn_info a) = Some c"
  obtains t where "queued w = a # queued w1" "sys w1 = sys w" "mutex_conn_ll (cq w1) = mutex_conn_ll (cq w)"
    "pool_flags (tp w1) = pool_flags (tp w)"
    "core w1 = core w" "conn_ptrs w1 = conn_ptrs w" "conn_map w1 (p_conn_info a) = Some (uncount_job c)"
    "fd_of w1 (p_conn_info a) = Some (h_fd c)" "status w1 = status w"
proof -
  obtain t where t: "queued w = a # map p_arg (tpool_tasks t)"
      "w1 = upd_conn (p_conn_info a) (uncount_job c) (w\<lparr>tp := t\<rparr>)" "pool_flags t = pool_flags (tp w)"
    using assms by (auto simp: round_start_def)
  have "core w1 = core w"
    using assms(2) by (auto simp: t(2) view_simps core_def fun_eq_iff)
  moreover have "status w1 = status w"
    using assms(2) by (auto simp: t(2) view_simps status_def fun_eq_iff)
  ultimately show thesis
    using t by (intro that) (simp_all add: view_simps fd_of_def)
qed

lemma round_inv:
  assumes "task_post L p st late w0 w"
  shows "srv_inv L w"
  using assms
proof (cases rule: task_postE)
  case off
  then show ?thesis using srv_inv_absent [of w p L] by (simp add: gone_def)
qed (rule moves_inv)

lemma round_frame:
  assumes "round_start w a w1" and c: "conn_map w (p_conn_info a) = Some c"
    and "task_post L (p_conn_info a) st late w1 w'"
  shows "round_frame w a c w'"
proof -
  obtain w1: "queued w = a # queued w1" "sys w1 = sys w"
    "mutex_conn_ll (cq w1) = mutex_conn_ll (cq w)" "core w1 = core w" "pool_flags (tp w1) = pool_flags (tp w)"
    "fd_of w1 (p_conn_info a) = Some (h_fd c)"
    "conn_map w1 (p_conn_info a) = Some (uncount_job c)"
    using round_startE [OF assms(1) c] by metis
  show ?thesis
    using assms(3)
  proof (cases rule: task_postE)
    case on
    then show ?thesis using w1 c by (auto simp: round_frame_def moves_def frame_def)
  next
    case off
    then show ?thesis using w1 c by (auto simp: round_frame_def gone_def)
  qed
qed

lemma round_status:
  assumes "round_start w a w1" and c: "conn_map w (p_conn_info a) = Some c"
    and "task_post L (p_conn_info a) (conn_status c) late w1 w'"
  shows "case status w' (p_conn_info a) of
       None \<Rightarrow> conn_status c = RPCHAT_CONN_CLOSING \<and>
         conn_ptrs w' = filter (\<lambda>q. q \<noteq> p_conn_info a) (conn_ptrs w)
     | Some st' \<Rightarrow> (st' = conn_status c \<or> st' \<in> set (next_status (conn_status c)) \<or>
           late \<and> st' = RPCHAT_CONN_CLOSING) \<and>
         conn_ptrs w' = conn_ptrs w"
proof -
  obtain w1: "conn_ptrs w1 = conn_ptrs w"
    using round_startE [OF assms(1) c] by metis
  show ?thesis
    using assms(3)
  proof (cases rule: task_postE)
    case (on st')
    then show ?thesis using w1 moves_ptrs [OF on(1)] by (auto simp: stays_def dest!: moves_status)
  next
    case off
    then show ?thesis using w1 by (simp add: gone_def status_def)
  qed
qed

end
