(* ===== verification/Chat_Demo.thy ===== *)
theory Chat_Demo
  imports Chat_Worker
begin

text \<open>
  A small server on which the theorems are exercised: two connections at the addresses 2 and 4
  and one queued task for the first of them. The connections, the task and the state of the
  system are parameters.
\<close>

definition demo_ll :: "rpchat_conn_info \<Rightarrow> rpchat_conn_info \<Rightarrow> rpchat_conn_info rplib_ll_queue" where
  "demo_ll c1 c2 = \<lparr>q_size = 2, p_front = 1, p_rear = 3,
     nodes = [1 \<mapsto> \<lparr>p_data = 2, data_size = SIZEOF_CONN_INFO, p_next_node = 3\<rparr>,
              3 \<mapsto> \<lparr>p_data = 4, data_size = SIZEOF_CONN_INFO, p_next_node = NULL\<rparr>],
     bufs = [2 \<mapsto> c1, 4 \<mapsto> c2], brk = 5, mallocs = []\<rparr>"

definition demo_tasks :: "rpchat_args_proc_event \<Rightarrow> chat_task rplib_ll_queue" where
  "demo_tasks a = \<lparr>q_size = 1, p_front = 1, p_rear = 1,
     nodes = [1 \<mapsto> \<lparr>p_data = 2, data_size = SIZEOF_TASK, p_next_node = NULL\<rparr>],
     bufs = [2 \<mapsto> \<lparr>p_function = Rpchat_task_conn_proc_event, p_arg = a\<rparr>], brk = 3, mallocs = []\<rparr>"

definition demo_str :: "byte list \<Rightarrow> rpchat_string" where
  "demo_str bs = \<lparr>len = word_of_nat (length bs), contents = store_bytes (\<lambda>_. 0) 0 bs\<rparr>"

definition demo_conn :: "int \<Rightarrow> rpchat_conn_stat \<Rightarrow> byte list \<Rightarrow> 32 word \<Rightarrow> rpchat_conn_info" where
  "demo_conn fd st name n = \<lparr>h_fd = fd, pending_jobs = n, username = demo_str name,
     stat_msg = demo_str [], mutex_conn = False, conn_status = st, last_active = 0\<rparr>"

definition demo_os :: "int \<Rightarrow> byte list \<Rightarrow> os" where
  "demo_os now rx5 = \<lparr>open_fds = (\<lambda>fd. fd \<in> {3, 4, 5, 6, 7}),
     interest = [3 \<mapsto> service_event 3, 7 \<mapsto> service_event 7, 6 \<mapsto> conn_event 4],
     rx = (\<lambda>_. [])(5 := rx5), peer_closed = (\<lambda>_. False), tx = [], send_results = [], clock = now,
     backlog = [], nonblocking = (\<lambda>_. False), signals = [], heap_results = [], uninit = (\<lambda>_. 0),
     uninit_event = service_event 0, log_out = []\<rparr>"

definition demo_args :: "rpchat_args_proc_event_src \<Rightarrow> rpchat_args_proc_event" where
  "demo_args ty = \<lparr>args_type = ty, args_event = conn_event 2, p_conn_info = 2, p_msg_buf = None,
     sz_msg_buf = 0, args_live = True\<rparr>"

definition demo :: "rpchat_conn_info \<Rightarrow> rpchat_conn_info \<Rightarrow> rpchat_args_proc_event \<Rightarrow> os \<Rightarrow> server" where
  "demo c1 c2 a s =
     \<lparr>cq = \<lparr>p_conn_ll = demo_ll c1 c2, mutex_conn_ll = False, h_fd_epoll = 4,
            server_str = demo_str (lit RPCHAT_SERVER_IDENTIFIER)\<rparr>,
      tp = \<lparr>p_queue_tasks = demo_tasks a, p_thread_buf = True, num_threads = 4, num_threads_busy = 0,
            num_threads_alive = 4, mutex_task_queue = False, mutex_thrd_count = False,
            b_terminate = False\<rparr>,
      sys = s\<rparr>"

lemma demo_str_bytes: "length bs < 2 ^ 16 \<Longrightarrow> str_bytes (demo_str bs) = bs"
  by (simp add: demo_str_def str_bytes_def map_store_bytes unat_of_nat_small)

lemma demo_ll_wf: "ll_wf (demo_ll c1 c2) [1, 3]"
  by (auto simp: ll_wf_def demo_ll_def dptr_def INT_MAX_def)

lemma demo_tasks_wf: "ll_wf (demo_tasks a) [1]"
  by (auto simp: ll_wf_def demo_tasks_def dptr_def INT_MAX_def)

lemma demo_views [simp]:
  "conn_ll (demo c1 c2 a s) = demo_ll c1 c2" "sys (demo c1 c2 a s) = s"
  "conn_map (demo c1 c2 a s) = [2 \<mapsto> c1, 4 \<mapsto> c2]" "conn_ptrs (demo c1 c2 a s) = [2, 4]"
  "server_str (cq (demo c1 c2 a s)) = demo_str (lit RPCHAT_SERVER_IDENTIFIER)"
  "\<not> mutex_task_queue (tp (demo c1 c2 a s))" "\<not> mutex_conn_ll (cq (demo c1 c2 a s))"
  "\<not> b_terminate (tp (demo c1 c2 a s))"
  by (simp_all add: demo_def conn_ll_def conn_map_def conn_ptrs_def ll_ptrs_def
      ll_nodes_wf [OF demo_ll_wf]) (simp_all add: demo_ll_def dptr_def)

lemma demo_queued [simp]: "queued (demo c1 c2 a s) = [a]"
  by (simp add: queued_def tpool_tasks_def demo_def ll_list_wf [OF demo_tasks_wf])
    (simp add: demo_tasks_def dptr_def)

lemma demo_status [simp]:
  "status (demo c1 c2 a s) = [2 \<mapsto> conn_status c1, 4 \<mapsto> conn_status c2]"
  by (auto simp: status_def)

lemma demo_inv:
  assumes "conn_ok {} 2 c1" and "conn_ok {} 4 c2"
    and "p_conn_info a = 2 \<and> pending_jobs c1 = 1 \<and> pending_jobs c2 = 0 \<or>
         p_conn_info a = 4 \<and> pending_jobs c1 = 0 \<and> pending_jobs c2 = 1"
    and "ready (p_conn_info a) a" and "h_fd c1 = 5" and "h_fd c2 = 6"
    and "conn_status c2 \<noteq> RPCHAT_CONN_CLOSING"
  shows "srv_inv {} (demo c1 c2 a (demo_os now rx5))"
proof -
  have fd: "fd_inv (demo c1 c2 a (demo_os now rx5))"
    using assms(5-7)
    by (auto simp: fd_inv_def live_on_def demo_os_def service_event_def conn_event_def split: if_splits)
  have "ll_inv (conn_ll (demo c1 c2 a (demo_os now rx5)))"
    using ll_invI [OF demo_ll_wf] by simp
  moreover have "tpool_inv (tp (demo c1 c2 a (demo_os now rx5)))"
    using ll_invI [OF demo_tasks_wf] by (simp add: demo_def)
  moreover have "str_wf (demo_str (lit RPCHAT_SERVER_IDENTIFIER))"
    by (simp add: str_wf_def demo_str_def lit_def RPCHAT_SERVER_IDENTIFIER_def STR_STORAGE_def)
  ultimately show ?thesis
    using assms(1-4) fd by (auto simp: srv_inv_def jobs_def args_ok_def ready_def)
qed

lemma demo_conn_ok: "length name < 100 \<Longrightarrow> conn_ok {} p (demo_conn fd st name n)"
  by (simp add: conn_ok_def demo_conn_def demo_str_def str_wf_def unat_of_nat_small STR_STORAGE_def)

lemma demo_conn_simps [simp]:
  "h_fd (demo_conn fd st name n) = fd" "pending_jobs (demo_conn fd st name n) = n"
  "conn_status (demo_conn fd st name n) = st" "last_active (demo_conn fd st name n) = 0"
  "mutex_conn (demo_conn fd st name n) = False"
  by (simp_all add: demo_conn_def)

lemma demo_clock [simp]: "clock (demo_os now rx5) = now"
  by (simp add: demo_os_def)

lemma demo_args_ready [simp]: "p_conn_info (demo_args ty) = 2" "ready 2 (demo_args ty)"
  by (simp_all add: demo_args_def ready_def buf_ok_def conn_event_def)

text \<open>The server with a task of the given kind on a connection in the given status.\<close>

abbreviation demo_with ::
  "rpchat_conn_stat \<Rightarrow> rpchat_args_proc_event_src \<Rightarrow> int \<Rightarrow> byte list \<Rightarrow> server" where
  "demo_with st ty now rx5 \<equiv>
     demo (demo_conn 5 st [] 1) (demo_conn 6 RPCHAT_CONN_AVAILABLE [98, 111, 98, 0] 0)
       (demo_args ty) (demo_os now rx5)"

lemma demo_with_inv: "srv_inv {} (demo_with st ty now rx5)"
  by (rule demo_inv) (simp_all add: demo_conn_ok)

end
