(* ===== verification/Chat_Props.thy ===== *)
theory Chat_Props
  imports Chat_Demo
begin

text \<open>
  Properties of a round of a worker thread, for every state that satisfies the server's
  invariant.
\<close>

subsection \<open>Running the demonstration server\<close>

lemma take_demo:
  "tpool_take_task (tp (demo c1 c2 a s)) =
     Some (Inr (Some \<lparr>p_function = Rpchat_task_conn_proc_event, p_arg = a\<rparr>,
       (tp (demo c1 c2 a s))\<lparr>mutex_task_queue := False,
         p_queue_tasks := (demo_tasks a)\<lparr>q_size := 0, p_front := NULL, p_rear := NULL,
           nodes := Map.empty, bufs := Map.empty\<rparr>\<rparr>))"
  by (simp add: tpool_take_task_def lock_task_queue_def unlock_task_queue_def run_simps demo_def
      demo_tasks_def load_node_def load_buf_def rplib_ll_queue_dequeue_def rplib_ll_remove_node_def
      remove_update_def free_buf_def free_node_def store_node_def)

lemma demo_cq:
  "cq (demo c1 c2 a s) = \<lparr>p_conn_ll = demo_ll c1 c2, mutex_conn_ll = False, h_fd_epoll = 4,
     server_str = demo_str (lit RPCHAT_SERVER_IDENTIFIER)\<rparr>"
  by (simp add: demo_def)

lemmas task_run = demo_cq demo_ll_def demo_os_def worker_step_def run_task_def run_simps take_demo rpchat_task_conn_proc_event_def
  Let_def store_conn_def store_buf_def load_buf_def trylock_conn_def load_conn_def proc_locked_def
  ensure_msg_buf_def os_defs cleanup_def unlock_conn_def cleanup_no_unlock_def free_msg_buf_def
  free_args_def demo_args_def

lemma demo_heartbeat_run:
  "\<exists>w'. worker_step (demo_with RPCHAT_CONN_AVAILABLE RPCHAT_PROC_EVENT_HEARTBEAT 30 []) =
     Some (Inr (True, w'))"
  by (simp add: task_run RPCHAT_CONNECTION_TIMEOUT_def)

subsection \<open>Properties\<close>

text \<open>
  C3. Memory safety and the server's invariant. A worker that takes a task from a
  server that satisfies the invariant and runs it undisturbed never dereferences NULL, never uses or frees
  memory that was freed (list nodes, connection objects, the arguments of its task and their message buffer), never
  leaves a message buffer and never fails an assertion; the only faults left are an access outside a string
  object (from an unterminated or overlong user name) and SIGPIPE. If
  the round returns, the invariant holds again: the list and the task queue are
  well-formed, every queued task has its memory and leads, like every epoll registration, to a live
  connection, the job counts are exact and no lock of a connection is left held.
\<close>

theorem round_keeps_invariant:
  assumes "srv_inv L w"
  shows "wp worker_step (\<lambda>e. e = OutOfBounds \<or> e = Killed)
     (\<lambda>go w'. srv_inv L w' \<and> mutex_conn_ll (cq w') = mutex_conn_ll (cq w)) w"
proof (rule wp_weaken [OF wp_worker_step [OF assms]])
  fix go w' assume "round_post L w go w'"
  then show "srv_inv L w' \<and> mutex_conn_ll (cq w') = mutex_conn_ll (cq w)"
    using assms by (auto simp: round_post_def round_frame_def dest: round_inv round_frame split: if_splits)
qed (simp add: tolerated_def)

theorem round_keeps_invariant_witness:
  "\<exists>w'. worker_step (demo_with RPCHAT_CONN_AVAILABLE RPCHAT_PROC_EVENT_HEARTBEAT 30 []) =
     Some (Inr (True, w')) \<and> srv_inv {} w' \<and> \<not> mutex_conn_ll (cq w')"
  using demo_heartbeat_run
    wp_D [OF round_keeps_invariant [OF demo_with_inv
      [of RPCHAT_CONN_AVAILABLE RPCHAT_PROC_EVENT_HEARTBEAT 30 "[]"]]]
  by auto

text \<open>
  C4. The connection state machine. A round that runs a task leaves the status of every other
  connection as it was, and moves the task's own connection along an edge of
  \<open>next_status\<close>, the edges of the code, or not at all; the one other step is a heartbeat that finds the connection silent for
  more than \<open>RPCHAT_CONNECTION_TIMEOUT\<close> seconds, which closes it at once. Only a connection
  that was \<open>RPCHAT_CONN_CLOSING\<close> is ever removed, and then exactly it leaves the list.
\<close>

theorem round_follows_state_machine:
  assumes "srv_inv L w"
  shows "wp worker_step (\<lambda>_. True)
     (\<lambda>go w'. go \<longrightarrow> (\<exists>a rest c. queued w = a # rest \<and> conn_map w (p_conn_info a) = Some c \<and>
        (\<forall>q. q \<noteq> p_conn_info a \<longrightarrow> status w' q = status w q) \<and>
        (case status w' (p_conn_info a) of
           None \<Rightarrow> conn_status c = RPCHAT_CONN_CLOSING \<and>
             conn_ptrs w' = filter (\<lambda>q. q \<noteq> p_conn_info a) (conn_ptrs w)
         | Some st' \<Rightarrow> (st' = conn_status c \<or> st' \<in> set (next_status (conn_status c)) \<or>
               timed_out a c w \<and> st' = RPCHAT_CONN_CLOSING) \<and>
             conn_ptrs w' = conn_ptrs w))) w"
proof (rule wp_weaken [OF wp_worker_step [OF assms]], intro impI)
  fix go w' assume "round_post L w go w'" and go
  then obtain a w1 c where r: "round_start w a w1" "conn_map w (p_conn_info a) = Some c"
      "task_post L (p_conn_info a) (conn_status c) (timed_out a c w) w1 w'"
    by (auto simp: round_post_def)
  from round_frame [OF r] have "round_frame w a c w'" .
  then show "\<exists>a rest c. queued w = a # rest \<and> conn_map w (p_conn_info a) = Some c \<and>
        (\<forall>q. q \<noteq> p_conn_info a \<longrightarrow> status w' q = status w q) \<and>
        (case status w' (p_conn_info a) of
           None \<Rightarrow> conn_status c = RPCHAT_CONN_CLOSING \<and>
             conn_ptrs w' = filter (\<lambda>q. q \<noteq> p_conn_info a) (conn_ptrs w)
         | Some st' \<Rightarrow> (st' = conn_status c \<or> st' \<in> set (next_status (conn_status c)) \<or>
               timed_out a c w \<and> st' = RPCHAT_CONN_CLOSING) \<and>
             conn_ptrs w' = conn_ptrs w)"
    using round_status [OF r] r(2) by (fastforce simp: round_frame_def intro: core_status)
qed simp

theorem round_follows_state_machine_witness:
  "\<exists>w'. worker_step (demo_with RPCHAT_CONN_AVAILABLE RPCHAT_PROC_EVENT_HEARTBEAT 30 []) =
     Some (Inr (True, w')) \<and> status w' 4 = Some RPCHAT_CONN_AVAILABLE \<and>
     status w' 2 \<in> Some ` set (RPCHAT_CONN_AVAILABLE # next_status RPCHAT_CONN_AVAILABLE)"
proof -
  obtain w' where w': "worker_step (demo_with RPCHAT_CONN_AVAILABLE RPCHAT_PROC_EVENT_HEARTBEAT 30 []) =
     Some (Inr (True, w'))"
    using demo_heartbeat_run by blast
  from wp_D [OF round_follows_state_machine [OF demo_with_inv] w'] show ?thesis
    using w' by (auto simp: timed_out_def RPCHAT_CONNECTION_TIMEOUT_def dest: spec [of _ 4]
        split: option.splits)
qed

text \<open>
  C14. Isolation of connections. A round that runs a task for a connection with descriptor \<open>fd\<close>
  changes nothing of any other connection but its job count, receives from, sends on,
  registers and closes no descriptor but \<open>fd\<close>, and keeps every task that was queued behind it in
  its place; new tasks are appended.
\<close>

theorem round_isolates_connections:
  assumes "srv_inv L w"
  shows "wp worker_step (\<lambda>_. True)
     (\<lambda>go w'. go \<longrightarrow> (\<exists>a c rest new out.
        queued w = a # rest \<and> queued w' = rest @ new \<and> conn_map w (p_conn_info a) = Some c \<and>
        (\<forall>q. q \<noteq> p_conn_info a \<longrightarrow> core w' q = core w q) \<and>
        (\<forall>fd. fd \<noteq> h_fd c \<longrightarrow> open_fds (sys w') fd = open_fds (sys w) fd \<and>
           interest (sys w') fd = interest (sys w) fd \<and> rx (sys w') fd = rx (sys w) fd) \<and>
        tx (sys w') = tx (sys w) @ out \<and> fst ` set out \<subseteq> {h_fd c})) w"
proof (rule wp_weaken [OF wp_worker_step [OF assms]], intro impI)
  fix go w' assume "round_post L w go w'" and go
  then obtain a w1 c where r: "round_start w a w1" "conn_map w (p_conn_info a) = Some c"
      "task_post L (p_conn_info a) (conn_status c) (timed_out a c w) w1 w'"
    by (auto simp: round_post_def)
  from round_frame [OF r] show "\<exists>a c rest new out.
        queued w = a # rest \<and> queued w' = rest @ new \<and> conn_map w (p_conn_info a) = Some c \<and>
        (\<forall>q. q \<noteq> p_conn_info a \<longrightarrow> core w' q = core w q) \<and>
        (\<forall>fd. fd \<noteq> h_fd c \<longrightarrow> open_fds (sys w') fd = open_fds (sys w) fd \<and>
           interest (sys w') fd = interest (sys w) fd \<and> rx (sys w') fd = rx (sys w) fd) \<and>
        tx (sys w') = tx (sys w) @ out \<and> fst ` set out \<subseteq> {h_fd c}"
    unfolding round_frame_def os_frame_def by (elim conjE exE) (intro exI conjI)
qed simp

theorem round_isolates_connections_witness:
  "\<exists>w'. worker_step (demo_with RPCHAT_CONN_AVAILABLE RPCHAT_PROC_EVENT_HEARTBEAT 30 []) =
     Some (Inr (True, w')) \<and>
     core w' 4 = core (demo_with RPCHAT_CONN_AVAILABLE RPCHAT_PROC_EVENT_HEARTBEAT 30 []) 4 \<and>
     open_fds (sys w') 6 \<and> interest (sys w') 6 = Some (conn_event 4)"
proof -
  let ?w = "demo_with RPCHAT_CONN_AVAILABLE RPCHAT_PROC_EVENT_HEARTBEAT 30 []"
  obtain w' where w': "worker_step ?w = Some (Inr (True, w'))"
    using demo_heartbeat_run by blast
  from wp_D [OF round_isolates_connections [OF demo_with_inv] w'] have "core w' 4 = core ?w 4"
      "open_fds (sys w') 6 = open_fds (sys ?w) 6" "interest (sys w') 6 = interest (sys ?w) 6"
    by auto
  then show ?thesis using w' by (simp add: demo_os_def)
qed

end
