(* ===== verification/Chat_Broadcast.thy ===== *)
theory Chat_Broadcast
  imports Chat_Demo
begin

text \<open>
  What \<open>rpchat_broadcast_msg\<close> delivers, when it returns, and when it does not.
\<close>

subsection \<open>Messages in argument objects\<close>

text \<open>The bytes an outbound task will send.\<close>

definition payload :: "rpchat_args_proc_event \<Rightarrow> byte list" where
  "payload a = (case p_msg_buf a of None \<Rightarrow> [] | Some b \<Rightarrow> map (buf_bytes b) [0..<sz_msg_buf a])"

lemma payload_with_msg [simp]: "payload (with_msg a b m) = encode m"
  by (simp add: payload_def with_msg_def fill_def map_store_bytes)

lemma decode_encode_app: "msg_ok m \<Longrightarrow> decode (encode m @ r) = Some (m, r)"
  by (cases m) (auto simp: dec_enc_string)

text \<open>The destination and the contents of the queued tasks.\<close>

definition addressed :: "rpchat_args_proc_event \<Rightarrow> rpchat_args_proc_event_src \<times> addr \<times> byte list" where
  "addressed a = (args_type a, p_conn_info a, payload a)"

lemma addressed_eq: "addressed = (\<lambda>a. (args_type a, p_conn_info a, payload a))"
  by (simp add: addressed_def fun_eq_iff)

subsection \<open>Runs that have enough memory\<close>

text \<open>Allocations succeed, the task queue has room for \<open>k\<close> tasks and its lock is free.\<close>

definition plenty :: "nat \<Rightarrow> server \<Rightarrow> bool" where
  "plenty k w \<longleftrightarrow>
     heap_results (sys w) = [] \<and> ll_rooms k (p_queue_tasks (tp w)) \<and> \<not> mutex_task_queue (tp w)"

lemma demo_plenty: "k < 100 \<Longrightarrow> plenty k (demo c1 c2 a (demo_os now rx5))"
  by (simp add: plenty_def demo_def demo_os_def ll_rooms_def ll_list_wf [OF demo_tasks_wf] INT_MAX_def)
    (simp add: demo_tasks_def)

lemma enqueue_task_raw:
  assumes inv: "tpool_inv (tp w)" and c: "conn_map w p = Some c" "p \<noteq> NULL" and mem: "plenty (Suc k) w"
  shows "\<exists>t. rpchat_conn_info_enqueue_task p a w =
       Some (Inr (RPLIB_SUCCESS, upd_conn p (count_job c) (w\<lparr>tp := t\<rparr>))) \<and>
     tpool_tasks t = tpool_tasks (tp w) @ [\<lparr>p_function = Rpchat_task_conn_proc_event, p_arg = a\<rparr>] \<and>
     ll_rooms k (p_queue_tasks t) \<and> \<not> mutex_task_queue t"
proof -
  obtain t where t: "rplib_tpool_enqueue_task Rpchat_task_conn_proc_event a (tp w) =
      Some (Inr (RPLIB_SUCCESS, t))" "tpool_tasks t = tpool_tasks (tp w) @
      [\<lparr>p_function = Rpchat_task_conn_proc_event, p_arg = a\<rparr>]" "\<not> mutex_task_queue t"
      "ll_rooms k (p_queue_tasks t)"
    using tq.enq_run [OF inv, of k] mem by (auto simp: plenty_def)
  have "rpchat_conn_info_enqueue_task p a w =
      Some (Inr (RPLIB_SUCCESS, upd_conn p (count_job c) (w\<lparr>tp := t\<rparr>)))"
    using t(1) c run_store_conn [of "w\<lparr>tp := t\<rparr>" p c]
    by (simp add: rpchat_conn_info_enqueue_task_def run_simps view_simps count_job_def)
  with t(2-4) show ?thesis by blast
qed

lemma enqueue_task_run:
  assumes inv: "srv_inv L w" and c: "conn_map w (p_conn_info a) = Some c" and a: "args_ok w a"
    and mem: "plenty (Suc k) w" and p: "p = p_conn_info a"
  shows "\<exists>w'. rpchat_conn_info_enqueue_task p a w = Some (Inr (RPLIB_SUCCESS, w')) \<and>
     queued w' = queued w @ [a] \<and> plenty k w' \<and> sys w' = sys w"
proof -
  have "tpool_inv (tp w)" "p \<noteq> NULL" "conn_map w p = Some c"
    using inv c p srv_inv_not_NULL [OF inv c] by (simp_all add: srv_inv_def)
  from enqueue_task_raw [OF this(1,3,2) mem, of a] obtain t where
      "rpchat_conn_info_enqueue_task p a w = Some (Inr (RPLIB_SUCCESS, upd_conn p (count_job c) (w\<lparr>tp := t\<rparr>)))"
      "tpool_tasks t = tpool_tasks (tp w) @ [\<lparr>p_function = Rpchat_task_conn_proc_event, p_arg = a\<rparr>]"
      "ll_rooms k (p_queue_tasks t)" "\<not> mutex_task_queue t"
    by (elim exE conjE)
  then show ?thesis using mem by (simp add: plenty_def view_simps queued_def)
qed

lemma run_malloc: "heap_results (sys w) = [] \<Longrightarrow> os_op os_malloc w = Some (Inr (True, w))"
  by (simp add: run_simps os_malloc_def)

lemma enqueue_deliver_run:
  assumes inv: "srv_inv L w" and c: "conn_map w q = Some c" and wf: "str_wf from"
    and mem: "plenty (Suc k) w"
  shows "\<exists>w' a. rpchat_conn_proc_enqueue_deliver q from msg w = Some (Inr (RPLIB_SUCCESS, w')) \<and>
     queued w' = queued w @ [a] \<and> plenty k w' \<and> addressed a = (RPCHAT_PROC_EVENT_OUTBOUND, q,
       encode (Deliver (str_bytes from) (sanitize_spec True (str_bytes msg))))"
proof -
  let ?b = "\<lparr>buf_cap = SIZEOF_PKT_DELIVER, buf_bytes = uninit (sys w), buf_live = True\<rparr>"
  let ?a = "\<lparr>args_type = RPCHAT_PROC_EVENT_OUTBOUND, args_event = uninit_event (sys w),
       p_conn_info = q, p_msg_buf = Some ?b, sz_msg_buf = 0, args_live = True\<rparr>"
  let ?m = "Deliver (str_bytes from) (sanitize_spec True (str_bytes msg))"
  have "length (encode ?m) \<le> SIZEOF_PKT_DELIVER"
    using wf length_sanitize_spec [of True "str_bytes msg"]
    by (simp add: SIZEOF_PKT_DELIVER_def SIZEOF_STRING_def str_wf_def)
  then have "args_ok w (with_msg ?a ?b ?m)"
    using c by (simp add: args_ok_def buf_ok_def SIZEOF_PKT_STATUS_def SIZEOF_PKT_DELIVER_def
        SIZEOF_STRING_def STR_STORAGE_def)
  then obtain w' where w': "rpchat_conn_info_enqueue_task q (with_msg ?a ?b ?m) w =
      Some (Inr (RPLIB_SUCCESS, w'))" "queued w' = queued w @ [with_msg ?a ?b ?m]" "plenty k w'"
    using enqueue_task_run [OF inv _ _ mem, of "with_msg ?a ?b ?m" c q] c by auto
  have "rpchat_conn_proc_set_deliver ?a from msg w = Some (Inr ((RPLIB_SUCCESS, with_msg ?a ?b ?m), w))"
    by (rule set_deliver_run [OF wf]) simp_all
  moreover have "os_op os_malloc w = Some (Inr (True, w))"
    using mem by (intro run_malloc) (simp add: plenty_def)
  ultimately have "rpchat_conn_proc_enqueue_deliver q from msg w = Some (Inr (RPLIB_SUCCESS, w'))"
    using w'(1) by (simp add: rpchat_conn_proc_enqueue_deliver_def outbound_args_def bindM_return run_getsM)
  then show ?thesis using w'(2,3) by (auto simp: addressed_def)
qed

subsection \<open>The loop, when nobody is closing\<close>

definition receptive :: "server \<Rightarrow> addr \<Rightarrow> bool" where
  "receptive w q \<longleftrightarrow>
     status w q \<noteq> Some RPCHAT_CONN_CLOSING \<and> status w q \<noteq> Some RPCHAT_CONN_ERR"

definition deliver_all :: "rpchat_string \<Rightarrow> rpchat_string \<Rightarrow> addr list \<Rightarrow>
    (rpchat_args_proc_event_src \<times> addr \<times> byte list) list" where
  "deliver_all from msg qs = map (\<lambda>q. (RPCHAT_PROC_EVENT_OUTBOUND, q,
     encode (Deliver (str_bytes from) (sanitize_spec True (str_bytes msg))))) qs"

lemma moves_other_status: "moves L p st w0 w \<Longrightarrow> q \<noteq> p \<Longrightarrow> status w q = status w0 q"
  by (auto simp: moves_def frame_def intro: core_status)

lemma broadcast_loop_run:
  assumes "ll_path (nodes (conn_ll w0)) x ps NULL" and "moves L p st w0 w" and "str_wf from"
    and "plenty (length (filter (\<lambda>q. q \<noteq> p) (map (dptr (conn_ll w0)) ps)) + k) w"
    and "\<forall>q \<in> set (map (dptr (conn_ll w0)) ps). q \<noteq> p \<longrightarrow> receptive w0 q"
  shows "\<exists>w' new. broadcast_loop p from msg x w = Some (Inr ((), w')) \<and> moves L p st w0 w' \<and>
     queued w' = queued w @ new \<and> plenty k w' \<and>
     map addressed new = deliver_all from msg (filter (\<lambda>q. q \<noteq> p) (map (dptr (conn_ll w0)) ps))"
  using assms
proof (induction ps arbitrary: x w)
  case Nil
  then show ?case by (subst broadcast_loop.simps) (simp add: deliver_all_def)
next
  case (Cons a ps)
  note m = Cons.prems(2)
  obtain n where n: "x = a" "a \<noteq> NULL" "nodes (conn_ll w0) a = Some n"
      "ll_path (nodes (conn_ll w0)) (p_next_node n) ps NULL"
    using Cons.prems(1) by (elim ll_path_ConsE)
  have nw: "nodes (conn_ll w) a = Some n" using m n(3) by (simp add: moves_def frame_def)
  have load: "load_conn_node a w = Some (Inr (n, w))"
    using n(2) nw by (simp add: load_conn_node_def load_node_def conn_ll_def run_simps)
  have d: "dptr (conn_ll w0) a = p_data n" using n by (simp add: dptr_def)
  show ?case
  proof (cases "p = p_data n")
    case True
    then have "broadcast_loop p from msg x w = broadcast_loop p from msg (p_next_node n) w"
      using n(1,2) load by (subst broadcast_loop.simps) (simp add: bindM_return)
    then show ?thesis
      using Cons.IH [OF n(4) m Cons.prems(3)] Cons.prems(4,5) True d by simp
  next
    case False
    let ?q = "p_data n"
    have "ll_inv (conn_ll w)" using m by (simp add: moves_def srv_inv_def)
    then obtain c where c: "conn_map w ?q = Some c"
      using ll_inv_node(2) [OF _ nw] by (auto simp: conn_map_def)
    have inv: "srv_inv L w" using m by (rule moves_inv)
    have q0: "?q \<noteq> NULL" using inv c by (auto dest: srv_inv_not_NULL)
    have "receptive w0 ?q" using Cons.prems(5) False d by auto
    then have st: "conn_status c \<noteq> RPCHAT_CONN_CLOSING" "conn_status c \<noteq> RPCHAT_CONN_ERR"
      using moves_other_status [OF m, of ?q] status_conn [OF c] False by (auto simp: receptive_def)
    have mem: "plenty (Suc (length (filter (\<lambda>q. q \<noteq> p) (map (dptr (conn_ll w0)) ps)) + k)) w"
      using Cons.prems(4) False d by simp
    obtain w1 b where w1: "rpchat_conn_proc_enqueue_deliver ?q from msg w = Some (Inr (RPLIB_SUCCESS, w1))"
        "queued w1 = queued w @ [b]"
        "plenty (length (filter (\<lambda>q. q \<noteq> p) (map (dptr (conn_ll w0)) ps)) + k) w1"
        "addressed b = (RPCHAT_PROC_EVENT_OUTBOUND, ?q,
          encode (Deliver (str_bytes from) (sanitize_spec True (str_bytes msg))))"
      using enqueue_deliver_run [OF inv c Cons.prems(3) mem] by blast
    have m1: "moves L p st w0 w1"
      using wp_D [OF wp_enqueue_deliver [OF m _ Cons.prems(3), where Q = "\<lambda>_. moves L p st w0"] w1(1)] c
      by simp
    have "broadcast_loop p from msg x w = broadcast_loop p from msg (p_next_node n) w1"
      using n(1,2) load False st run_load_conn [OF c q0] w1(1)
      by (subst broadcast_loop.simps) (simp add: bindM_return)
    moreover obtain w' new where "broadcast_loop p from msg (p_next_node n) w1 = Some (Inr ((), w'))"
        "moves L p st w0 w'" "queued w' = queued w1 @ new" "plenty k w'" "map addressed new =
          deliver_all from msg (filter (\<lambda>q. q \<noteq> p) (map (dptr (conn_ll w0)) ps))"
      using Cons.IH [OF n(4) m1 Cons.prems(3) w1(3)] Cons.prems(5) by auto
    ultimately show ?thesis
      using w1(2,4) False d by (auto simp: deliver_all_def intro!: exI [of _ "b # new"])
  qed
qed

subsection \<open>The call\<close>

lemma printf_msg_run:
  assumes "str_arg a \<noteq> None" and "str_arg b \<noteq> None"
  shows "\<exists>s. printf_msg a b w = Some (Inr ((), w\<lparr>sys := s\<rparr>)) \<and> heap_results s = heap_results (sys w) \<and>
     os_frame fd (sys w) s \<and> open_fds s = open_fds (sys w) \<and> interest s = interest (sys w)"
  using assms by (auto simp: printf_msg_def run_simps os_printf_def os_frame_def)

lemma lock_ll_run: "\<not> mutex_conn_ll (cq w) \<Longrightarrow> lock_conn_ll w = Some (Inr ((), ll_mutex True w))"
  by (simp add: lock_conn_ll_def run_simps ll_mutex_def)

lemma unlock_ll_run: "unlock_conn_ll w = Some (Inr ((), ll_mutex False w))"
  by (simp add: unlock_conn_ll_def run_simps ll_mutex_def)

text \<open>The sanitized text of a message with a printable character is terminated.\<close>

lemma sanitized_arg:
  assumes "sanitize_spec b (str_bytes msg) \<noteq> []"
  shows "str_arg (snd (snd (rpchat_string_sanitize msg out b))) \<noteq> None"
proof -
  let ?ys = "filter (keep_char b) (take RPCHAT_MAX_STR_LENGTH (str_bytes msg))"
  have "0 \<notin> set ?ys" using keep_char_nonzero by (metis (mono_tags, lifting) mem_Collect_eq set_filter)
  moreover have "length ?ys < STR_STORAGE"
    using length_filter_le [of "keep_char b" "take RPCHAT_MAX_STR_LENGTH (str_bytes msg)"]
    by (simp add: RPCHAT_MAX_STR_LENGTH_def STR_STORAGE_def)
  ultimately have "str_arg \<lparr>len = l, contents = store_bytes m 0 (?ys @ [0])\<rparr> = Some ?ys" for l m
    by (simp add: str_arg_def c_str_store)
  then show ?thesis using assms by (auto simp: sanitize_eq Let_def sanitize_spec_def split: if_splits)
qed

lemma sanitized_bytes: "str_bytes (snd (snd (rpchat_string_sanitize msg out b))) = sanitize_spec b (str_bytes msg)"
  by (simp add: sanitize_eq Let_def sanitize_out_bytes)

lemma conn_ptrs_nodes: "conn_ptrs w = map (dptr (conn_ll w)) (ll_nodes (conn_ll w))"
  by (simp add: conn_ptrs_def ll_ptrs_def)

lemma broadcast_run:
  assumes m: "moves L p st w0 w" and wf: "str_wf from" and arg: "str_arg from \<noteq> None"
    and bs: "sanitize_spec True (str_bytes msg) \<noteq> []" and free: "\<not> mutex_conn_ll (cq w)"
    and mem: "plenty (length (filter (\<lambda>q. q \<noteq> p) (conn_ptrs w)) + k) w"
    and rcp: "\<forall>q \<in> set (conn_ptrs w). q \<noteq> p \<longrightarrow> receptive w q"
  shows "\<exists>w' new. rpchat_broadcast_msg p (Some from) msg w = Some (Inr (RPLIB_SUCCESS, w')) \<and>
     moves L p st w0 w' \<and> queued w' = queued w @ new \<and> plenty k w' \<and>
     map addressed new = deliver_all from msg (filter (\<lambda>q. q \<noteq> p) (conn_ptrs w))"
proof -
  obtain c where c: "conn_map w p = Some c" "fd_of w0 p = Some (h_fd c)" using m by (elim moves_conn)
  let ?msg = "snd (snd (rpchat_string_sanitize msg (stack_string 0 (sys w)) True))"
  obtain s where s: "printf_msg from ?msg w = Some (Inr ((), w\<lparr>sys := s\<rparr>))"
      "heap_results s = heap_results (sys w)" "os_frame (h_fd c) (sys w) s"
      "open_fds s = open_fds (sys w)" "interest s = interest (sys w)"
    using printf_msg_run [OF arg sanitized_arg [OF bs]] by blast
  define w1 where "w1 = w\<lparr>sys := s\<rparr>"
  have "fd_inv w" using m by (simp add: moves_def srv_inv_def)
  then have m1: "moves L p st w0 w1"
    using s fd_inv_same [of w s] unfolding w1_def by (intro moves_sys [OF m c(2)]) auto
  let ?w2 = "ll_mutex True w1"
  have m2: "moves L p st ?w2 ?w2" using m1 by (rule moves_locked)
  have path: "ll_path (nodes (conn_ll ?w2)) (p_front (conn_ll ?w2)) (ll_nodes (conn_ll ?w2)) NULL"
    using m2 by (simp add: moves_def srv_inv_def ll_inv_def ll_wf_def)
  have ptrs: "map (dptr (conn_ll ?w2)) (ll_nodes (conn_ll ?w2)) = conn_ptrs w"
    by (simp add: conn_ptrs_nodes view_simps w1_def)
  have "plenty (length (filter (\<lambda>q. q \<noteq> p) (conn_ptrs w)) + k) ?w2"
    using mem s(2) by (simp add: plenty_def view_simps w1_def)
  moreover have "\<forall>q \<in> set (conn_ptrs w). q \<noteq> p \<longrightarrow> receptive ?w2 q"
    using rcp by (simp add: receptive_def view_simps w1_def)
  ultimately obtain w3 new where w3: "broadcast_loop p from ?msg (p_front (conn_ll ?w2)) ?w2 =
      Some (Inr ((), w3))" "moves L p st ?w2 w3" "queued w3 = queued ?w2 @ new" "plenty k w3"
      "map addressed new = deliver_all from ?msg (filter (\<lambda>q. q \<noteq> p) (conn_ptrs w))"
    using broadcast_loop_run [OF path m2 wf, of k ?msg] unfolding ptrs by blast
  have free1: "\<not> mutex_conn_ll (cq w1)" using free by (simp add: w1_def)
  have "rpchat_broadcast_msg p (Some from) msg w = Some (Inr (RPLIB_SUCCESS, ll_mutex False w3))"
    using s(1) lock_ll_run [OF free1] w3(1) unlock_ll_run
    by (simp add: rpchat_broadcast_msg_def uninit_string_def Let_def split_beta bindM_return
        bindM_returnM_left thenM_return run_getsM run_returnM flip: w1_def)
  moreover have "moves L p st w0 (ll_mutex False w3)" using m1 free1 w3(2) by (rule moves_unlocked)
  moreover have "deliver_all from ?msg qs = deliver_all from msg qs" for qs
    by (simp add: deliver_all_def sanitized_bytes sanitize_spec_idem)
  ultimately show ?thesis using w3(3-5) by (auto simp: view_simps w1_def plenty_def)
qed

subsection \<open>The loop, when somebody is closing\<close>

text \<open>
  The \<open>continue\<close> of the loop does not advance: once it reaches a connection that is closing
  or in error it stays there.
\<close>

lemma wp_broadcast_loop_stuck:
  assumes "moves L p st w0 w" and "ll_path (nodes (conn_ll w0)) cur ps NULL"
    and "q \<in> dptr (conn_ll w0) ` set ps" and "str_wf from" and "q \<noteq> p" and "\<not> receptive w0 q"
  shows "wp (broadcast_loop p from msg cur) tolerated (\<lambda>_ _. False) w"
proof (rule wp_broadcast_loop_rule [where I = "\<lambda>x v. moves L p st w0 v \<and>
     (\<exists>ps. ll_path (nodes (conn_ll w0)) x ps NULL \<and> q \<in> dptr (conn_ll w0) ` set ps)"], goal_cases)
  case (3 x v)
  then obtain ps where ps: "ll_path (nodes (conn_ll w0)) x ps NULL" "q \<in> dptr (conn_ll w0) ` set ps"
    and m: "moves L p st w0 v"
    by blast
  then obtain a ps' where a: "ps = a # ps'" by (cases ps) auto
  obtain n where n: "x = a" "a \<noteq> NULL" "nodes (conn_ll w0) a = Some n"
      "ll_path (nodes (conn_ll w0)) (p_next_node n) ps' NULL"
    using ps(1) unfolding a by (elim ll_path_ConsE)
  have nv: "nodes (conn_ll v) x = Some n" using m n(1,3) by (simp add: moves_def frame_def)
  have nxt: "\<exists>ps. ll_path (nodes (conn_ll w0)) (p_next_node n) ps NULL \<and> q \<in> dptr (conn_ll w0) ` set ps"
    if "p_data n \<noteq> q"
    using that n(3,4) ps(2) a by (auto simp: dptr_def)
  have stuck: "\<not> (conn_status c \<noteq> RPCHAT_CONN_CLOSING \<and> conn_status c \<noteq> RPCHAT_CONN_ERR)"
    if "conn_map v q = Some c" for c
    using assms(5,6) moves_other_status [OF m assms(5)] status_conn [OF that] by (auto simp: receptive_def)
  have "p_data n \<noteq> q" if "p = p_data n" using that assms(5) by simp
  moreover have "p_data n \<noteq> q" if "conn_map v (p_data n) = Some c"
      "conn_status c \<noteq> RPCHAT_CONN_CLOSING" "conn_status c \<noteq> RPCHAT_CONN_ERR" for c
    using that stuck by blast
  ultimately show ?case
    by (intro wp_load_conn_node [OF m nv])
      (use 3(1) nxt in \<open>auto intro!: m wp_load_other [OF m] wp_enqueue_deliver [OF m] assms(4)\<close>)
qed (use assms in auto)

lemma wp_broadcast_stuck:
  assumes "moves L p st w0 w" and "str_wf from" and "q \<in> set (conn_ptrs w)" and "q \<noteq> p"
    and "\<not> receptive w q"
  shows "wp (rpchat_broadcast_msg p (Some from) msg) tolerated (\<lambda>_ _. False) w"
  unfolding rpchat_broadcast_msg_def uninit_string_def wp_simps Let_def split_beta option.case
proof (rule wp_printf_msg [OF assms(1)], rule wp_lock_anchor, assumption)
  fix v w1
  assume v: "moves L p st w0 v" "conn_map v = conn_map w" and m: "moves L p st w1 w1"
    and ll: "conn_ll w1 = conn_ll v"
  have "conn_ptrs v = conn_ptrs w" using moves_ptrs [OF v(1)] moves_ptrs [OF assms(1)] by simp
  then have "q \<in> set (conn_ptrs v)" using assms(3) by simp
  then have q: "q \<in> dptr (conn_ll w1) ` set (ll_nodes (conn_ll w1))"
    by (simp add: ll conn_ptrs_nodes)
  have path: "ll_path (nodes (conn_ll w1)) (p_front (conn_ll w1)) (ll_nodes (conn_ll w1)) NULL"
    using m by (simp add: moves_def srv_inv_def ll_inv_def ll_wf_def)
  have "conn_map w1 = conn_map w" using ll v(2) by (simp add: conn_map_def)
  then have nr: "\<not> receptive w1 q" using assms(5) by (simp add: receptive_def status_def)
  show "wp (broadcast_loop p from (snd (snd (rpchat_string_sanitize msg
        (stack_string 0 (sys w)) True))) (p_front (conn_ll w1))) tolerated
     (\<lambda>_. wp unlock_conn_ll tolerated (\<lambda>_ _. False)) w1"
    by (rule wp_mono [OF wp_broadcast_loop_stuck [OF m path q assms(2,4) nr]]) simp
qed

end
