(* ===== verification/Chat_Keeps.thy ===== *)
theory Chat_Keeps
  imports Chat_Broadcast
begin

text \<open>
  What the functions that queue messages leave alone. A view of the server that the locks, the task queue,
  the allocator, standard output and the stores these functions make do not change is not changed by queueing
  a message for one connection or for all: the locale \<open>kept_view\<close>. It is interpreted for the user names
  (\<open>kn\<close>) and for the bytes that wait to be received (\<open>kr\<close>).
\<close>

definition keeps :: "('s \<Rightarrow> 'v) \<Rightarrow> ('s, 'a) prog \<Rightarrow> bool" where
  "keeps v m \<longleftrightarrow> (\<forall>s a s'. m s = Some (Inr (a, s')) \<longrightarrow> v s' = v s)"

lemma keepsD: "keeps v m \<Longrightarrow> m s = Some (Inr (a, s')) \<Longrightarrow> v s' = v s"
  by (simp add: keeps_def)

lemma keeps_wp: "keeps v m \<longleftrightarrow> (\<forall>s. wp m (\<lambda>_. True) (\<lambda>_ t. v t = v s) s)"
  unfolding keeps_def wp_iff by (auto split: sum.splits)

lemma keeps_bindM:
  assumes "keeps v m" and "\<And>a. keeps v (f a)"
  shows "keeps v (bindM m f)"
  unfolding keeps_def
proof (intro allI impI)
  fix s a s' assume "bindM m f s = Some (Inr (a, s'))"
  then obtain b t where "m s = Some (Inr (b, t))" "f b t = Some (Inr (a, s'))"
    by (auto simp: bindM_def split: option.splits sum.splits prod.splits)
  then show "v s' = v s" using assms keepsD by metis
qed

lemma keeps_thenM: "keeps v m \<Longrightarrow> keeps v n \<Longrightarrow> keeps v (thenM m n)"
  unfolding thenM_def by (rule keeps_bindM)

lemma keeps_basic:
  "keeps v (returnM a)" "keeps v (getsM g)" "keeps v (faultM e)" "keeps v (liftM r)" "keeps v (assertM b)"
  "keeps v m \<Longrightarrow> keeps v m' \<Longrightarrow> keeps v (if b then m else m')"
  by (auto simp: keeps_def run_simps liftM_def assertM_def split: sum.splits if_splits)

locale kept_view =
  fixes v :: "server \<Rightarrow> 'v" and same :: "(rpchat_conn_info \<Rightarrow> rpchat_conn_info) \<Rightarrow> bool"
  assumes tasks: "keeps v (tp_op (n :: (chat_tpool, int) prog))"
    and locks: "keeps v lock_conn_ll" "keeps v unlock_conn_ll"
    and loads: "keeps v (load_conn p)" "keeps v (load_conn_node x)"
    and malloc: "keeps v (os_op os_malloc)" and printf: "keeps v (os_op (os_printf bs))"
    and store: "same f \<Longrightarrow> keeps v (store_conn p f)"
    and count: "same (\<lambda>c. c\<lparr>pending_jobs := k c\<rparr>)" and clear: "same (\<lambda>c. c\<lparr>stat_msg := g c\<rparr>)"
begin

lemmas intros = keeps_bindM keeps_thenM keeps_basic tasks locks loads malloc printf store count clear

lemma enqueue_task: "keeps v (rpchat_conn_info_enqueue_task p a)"
  unfolding rpchat_conn_info_enqueue_task_def by (intro intros)

lemma enqueue_deliver: "keeps v (rpchat_conn_proc_enqueue_deliver p from msg)"
  unfolding rpchat_conn_proc_enqueue_deliver_def rpchat_conn_proc_set_deliver_def outbound_args_def
    uninit_string_def Let_def split_beta
  by (intro intros enqueue_task)

lemma enqueue_status: "keeps v (rpchat_conn_proc_enqueue_status p code)"
  unfolding rpchat_conn_proc_enqueue_status_def rpchat_conn_proc_set_status_def outbound_args_def Let_def split_beta
  by (intro intros enqueue_task)

lemma broadcast_loop: "keeps v (broadcast_loop sndr from msg x)"
  unfolding keeps_wp
proof
  fix w
  have load: "wp m (\<lambda>_. True) Q u" if "keeps v m" "\<And>a t. v t = v u \<Longrightarrow> Q a t"
    for m :: "(server, 'b) prog" and Q u
    using that unfolding keeps_wp by (blast intro: wp_mono)
  show "wp (broadcast_loop sndr from msg x) (\<lambda>_. True) (\<lambda>_ t. v t = v w) w"
    by (rule wp_broadcast_loop_rule [where I = "\<lambda>_ u. v u = v w"])
      (auto intro!: load [OF loads(1)] load [OF loads(2)] load [OF enqueue_deliver])
qed

lemma broadcast: "keeps v (rpchat_broadcast_msg p (Some from) msg)"
  unfolding rpchat_broadcast_msg_def uninit_string_def Let_def split_beta option.simps
  by (intro intros broadcast_loop) (auto simp: printf_msg_def intros split: option.split)

end

subsection \<open>User names\<close>

definition names :: "server \<Rightarrow> addr \<Rightarrow> rpchat_string option" where
  "names w p = map_option username (conn_map w p)"

lemma keeps_names_basic:
  "keeps names (os_op m)" "keeps names (tp_op n)" "keeps names lock_conn_ll" "keeps names unlock_conn_ll"
  "keeps names (load_conn p)" "keeps names (load_conn_node x)"
  by (auto simp: keeps_def names_def conn_map_def conn_ll_def zoomM_def lock_conn_ll_def unlock_conn_ll_def
      load_conn_def load_conn_node_def load_buf_def load_node_def run_simps fun_eq_iff
      split: option.splits sum.splits prod.splits if_splits)

lemma keeps_names_store:
  assumes "\<And>c. username (f c) = username c"
  shows "keeps names (store_conn p f)"
  using assms
  by (auto simp: keeps_def names_def conn_map_def conn_ll_def zoomM_def store_conn_def store_buf_def load_buf_def run_simps
      fun_eq_iff split: option.splits sum.splits prod.splits if_splits)

interpretation kn: kept_view names "\<lambda>f. \<forall>c. username (f c) = username c"
  by unfold_locales (simp_all add: keeps_names_basic keeps_names_store)

subsection \<open>Bytes that wait to be received\<close>

abbreviation waiting :: "server \<Rightarrow> int \<Rightarrow> byte list" where
  "waiting w \<equiv> rx (sys w)"

lemma keeps_waiting_basic:
  "keeps waiting (cq_op m)" "keeps waiting (tp_op n)" "keeps waiting (os_op os_malloc)"
  "keeps waiting (os_op (os_printf bs))"
  by (auto simp: keeps_def zoomM_def os_malloc_def os_printf_def run_simps
      split: option.splits sum.splits prod.splits if_splits list.splits)

interpretation kr: kept_view waiting "\<lambda>_. True"
  by unfold_locales
    (simp_all add: keeps_waiting_basic lock_conn_ll_def unlock_conn_ll_def load_conn_def load_conn_node_def store_conn_def)

end
