(* ===== verification/Chat_Send.thy ===== *)
theory Chat_Send
  imports Chat_Keeps
begin

text \<open>
  The path of a SEND message through the server: what is received from the client is decoded,
  sanitized and queued for every other connection, and the sender is queued a STATUS.
\<close>

subsection \<open>Receiving\<close>

definition set_rx :: "int \<Rightarrow> byte list \<Rightarrow> server \<Rightarrow> server" where
  "set_rx fd bs w = w\<lparr>sys := (sys w)\<lparr>rx := (rx (sys w))(fd := bs)\<rparr>\<rparr>"

lemma set_rx_views [view_simps]:
  "conn_ll (set_rx fd bs w) = conn_ll w" "conn_map (set_rx fd bs w) = conn_map w"
  "conn_ptrs (set_rx fd bs w) = conn_ptrs w" "queued (set_rx fd bs w) = queued w"
  "status (set_rx fd bs w) = status w" "tp (set_rx fd bs w) = tp w" "cq (set_rx fd bs w) = cq w"
  "open_fds (sys (set_rx fd bs w)) = open_fds (sys w)" "uninit (sys (set_rx fd bs w)) = uninit (sys w)"
  "rx (sys (set_rx fd bs w)) = (rx (sys w))(fd := bs)"
  "heap_results (sys (set_rx fd bs w)) = heap_results (sys w)"
  "stack_string off (sys (set_rx fd bs w)) = stack_string off (sys w)"
  by (simp_all add: set_rx_def view_simps stack_string_def uninit_nat_def)

lemma plenty_set_rx [view_simps]: "plenty k (set_rx fd bs w) = plenty k w"
  by (simp add: plenty_def view_simps)

lemma moves_set_rx:
  assumes "moves L p st w0 w" and "fd_of w0 p = Some fd"
  shows "moves L p st w0 (set_rx fd bs w)"
proof -
  have "fd_inv w" using assms(1) by (simp add: moves_def srv_inv_def)
  then show ?thesis
    unfolding set_rx_def
    by (intro moves_sys [OF assms] fd_inv_same) (simp_all add: os_frame_def)
qed

lemma recv_run:
  assumes "open_fds (sys w) fd" and "rx (sys w) fd = xs @ ys" and "xs \<noteq> []"
  shows "os_op (rpchat_recv fd (length xs)) w = Some (Inr ((int (length xs), xs), set_rx fd ys w))"
  using assms by (simp add: rpchat_recv_def os_recv_def run_simps set_rx_def)

lemma recv_string_run:
  assumes c: "conn_map w p = Some c" "p \<noteq> NULL" and fd: "open_fds (sys w) (h_fd c)"
    and rx: "rx (sys w) (h_fd c) = enc_string bs @ rest"
    and bs: "bs \<noteq> []" "length bs \<le> RPCHAT_MAX_STR_LENGTH"
  shows "recv_string p w = Some (Inr (Some \<lparr>len = word_of_nat (length bs),
     contents = store_bytes (contents (stack_string 0 (sys w))) 0 bs\<rparr>, set_rx (h_fd c) rest w))"
proof -
  let ?l = "word_of_nat (length bs) :: 16 word"
  have l: "unat ?l = length bs" using bs(2) by (simp add: RPCHAT_MAX_STR_LENGTH_def unat_of_nat_small)
  then have ul: "uint ?l = int (length bs)" by (metis uint_nat)
  have be: "be16 ?l \<noteq> []" by (simp add: be16_def)
  let ?w1 = "set_rx (h_fd c) (bs @ rest) w"
  have r1: "os_op (rpchat_recv (h_fd c) 2) w = Some (Inr ((2, be16 ?l), ?w1))"
    using recv_run [OF fd _ be, of "bs @ rest"] rx by (simp add: enc_string_def)
  have "os_op (rpchat_recv (h_fd c) (length bs)) ?w1 =
      Some (Inr ((int (length bs), bs), set_rx (h_fd c) rest ?w1))"
    using fd bs(1) by (intro recv_run) (simp_all add: view_simps)
  moreover have "set_rx (h_fd c) rest ?w1 = set_rx (h_fd c) rest w" by (simp add: set_rx_def)
  ultimately have r2: "os_op (rpchat_recv (h_fd c) (length bs)) ?w1 =
      Some (Inr ((int (length bs), bs), set_rx (h_fd c) rest w))" by simp
  have small: "\<not> RPCHAT_MAX_STR_LENGTH < length bs" using bs(2) by simp
  show ?thesis
    using run_load_conn [OF c] r1 r2 small l ul
    by (simp add: recv_string_def bindM_return Let_def uninit_string_def run_getsM run_returnM
        view_simps)
qed

lemma received_bytes:
  "length bs \<le> RPCHAT_MAX_STR_LENGTH \<Longrightarrow>
   str_bytes \<lparr>len = word_of_nat (length bs), contents = store_bytes m 0 bs\<rparr> = bs"
  by (simp add: str_bytes_def map_store_bytes RPCHAT_MAX_STR_LENGTH_def unat_of_nat_small)

subsection \<open>Handling a SEND\<close>

lemma moves_open:
  assumes "moves L p st w0 w" and "st \<noteq> RPCHAT_CONN_CLOSING" and "fd_of w0 p = Some fd"
  shows "open_fds (sys w) fd"
  using moves_live [OF assms] assms(1) by (auto simp: moves_def srv_inv_def fd_inv_def)

lemma handle_send_run:
  assumes m: "moves L p st w0 w" "st \<noteq> RPCHAT_CONN_CLOSING" and c: "conn_map w p = Some c"
    and rx: "rx (sys w) (h_fd c) = enc_string bs @ rest"
    and bs: "length bs \<le> RPCHAT_MAX_STR_LENGTH" "sanitize_spec True bs \<noteq> []"
    and name: "str_arg (username c) \<noteq> None" and free: "\<not> mutex_conn_ll (cq w)"
    and mem: "plenty (length (filter (\<lambda>q. q \<noteq> p) (conn_ptrs w)) + k) w"
    and rcp: "\<forall>q \<in> set (conn_ptrs w). q \<noteq> p \<longrightarrow> receptive w q"
  shows "\<exists>w' new. rpchat_handle_send p w = Some (Inr (RPLIB_SUCCESS, w')) \<and> moves L p st w0 w' \<and>
     queued w' = queued w @ new \<and> plenty k w' \<and> waiting w' = (waiting w)(h_fd c := rest) \<and>
     map addressed new = map (\<lambda>q. (RPCHAT_PROC_EVENT_OUTBOUND, q,
       encode (Deliver (str_bytes (username c)) (sanitize_spec True bs)))) (filter (\<lambda>q. q \<noteq> p) (conn_ptrs w))"
proof -
  have fd0: "fd_of w0 p = Some (h_fd c)" and ok: "conn_ok L p c" and inv: "srv_inv L w"
    using m(1) c by (auto elim!: moves_conn)
  have p: "p \<noteq> NULL" using inv c by (rule srv_inv_not_NULL)
  have ne: "bs \<noteq> []" using bs(2) by (auto simp: sanitize_spec_def)
  let ?s = "\<lparr>len = word_of_nat (length bs), contents = store_bytes (contents (stack_string 0 (sys w))) 0 bs\<rparr>"
  let ?w1 = "set_rx (h_fd c) rest w"
  let ?m = "snd (snd (rpchat_string_sanitize ?s (stack_string 0 (sys w)) True))"
  have recv: "recv_string p w = Some (Inr (Some ?s, ?w1))"
    by (rule recv_string_run [OF c p moves_open [OF m fd0] rx ne bs(1)])
  have msg: "str_bytes ?m = sanitize_spec True bs"
    by (simp only: sanitized_bytes received_bytes [OF bs(1)])
  then have "unat (len ?m) = length (sanitize_spec True bs)" using length_str_bytes [of ?m] by simp
  then have len: "\<not> 1 > unat (len ?m)" using bs(2) by (cases "sanitize_spec True bs") simp_all
  have m1: "moves L p st w0 ?w1" using m(1) fd0 by (rule moves_set_rx)
  have wf: "str_wf (username c)" using ok by (simp add: conn_ok_def)
  have "\<exists>w' new. rpchat_broadcast_msg p (Some (username c)) ?m ?w1 = Some (Inr (RPLIB_SUCCESS, w')) \<and>
     moves L p st w0 w' \<and> queued w' = queued ?w1 @ new \<and> plenty k w' \<and>
     map addressed new = deliver_all (username c) ?m (filter (\<lambda>q. q \<noteq> p) (conn_ptrs ?w1))"
    using bs(2) free mem rcp
    by (intro broadcast_run [OF m1 wf name])
      (simp_all only: msg sanitize_spec_idem view_simps receptive_def not_False_eq_True)
  then obtain w' new where w': "rpchat_broadcast_msg p (Some (username c)) ?m ?w1 =
      Some (Inr (RPLIB_SUCCESS, w'))" "moves L p st w0 w'" "queued w' = queued w @ new" "plenty k w'"
      "map addressed new = deliver_all (username c) ?m (filter (\<lambda>q. q \<noteq> p) (conn_ptrs w))"
    unfolding view_simps by blast
  have "conn_map ?w1 p = Some c" using c by (simp add: view_simps)
  from run_load_conn [OF this p] have "rpchat_handle_send p w = Some (Inr (RPLIB_SUCCESS, w'))"
    using recv len w'(1)
    by (simp add: rpchat_handle_send_def bindM_return uninit_string_def run_getsM Let_def split_beta
        view_simps)
  moreover have "waiting w' = (waiting w)(h_fd c := rest)"
    using keepsD [OF kr.broadcast w'(1)] by (simp add: view_simps)
  ultimately show ?thesis
    using w'(2-5) by (auto simp: deliver_all_def msg sanitize_spec_idem)
qed

subsection \<open>The event\<close>

lemma enqueue_status_run:
  assumes m: "moves L p st w0 w" and c: "conn_map w p = Some c" and mem: "plenty (Suc k) w"
  shows "\<exists>w' a. rpchat_conn_proc_enqueue_status p code w = Some (Inr (RPLIB_SUCCESS, w')) \<and>
     moves L p st w0 w' \<and> queued w' = queued w @ [a] \<and> plenty k w' \<and>
     addressed a = (RPCHAT_PROC_EVENT_OUTBOUND, p, encode (Status code (str_bytes (stat_msg c)))) \<and>
     map_option username (conn_map w' p) = Some (username c)"
proof -
  have inv: "srv_inv L w" and ok: "conn_ok L p c" using m c by (auto elim!: moves_conn)
  have p: "p \<noteq> NULL" using inv c by (rule srv_inv_not_NULL)
  let ?b = "\<lparr>buf_cap = SIZEOF_PKT_STATUS, buf_bytes = uninit (sys w), buf_live = True\<rparr>"
  let ?a = "\<lparr>args_type = RPCHAT_PROC_EVENT_OUTBOUND, args_event = uninit_event (sys w),
       p_conn_info = p, p_msg_buf = Some ?b, sz_msg_buf = 0, args_live = True\<rparr>"
  let ?m = "Status code (str_bytes (stat_msg c))"
  let ?w1 = "upd_conn p (clear_stat c) w"
  have wf: "str_wf (stat_msg c)" using ok by (simp add: conn_ok_def)
  have set: "rpchat_conn_proc_set_status p ?a code w = Some (Inr ((RPLIB_SUCCESS, with_msg ?a ?b ?m), ?w1))"
    by (rule set_status_run [OF c p wf]) simp_all
  have m1: "moves L p st w0 ?w1" by (rule moves_clear_stat [OF m c])
  have c1: "conn_map ?w1 p = Some (clear_stat c)" by (simp add: view_simps)
  have ok1: "args_ok ?w1 (with_msg ?a ?b ?m)"
    using wf c1 by (simp add: args_ok_def buf_ok_def SIZEOF_PKT_STATUS_def SIZEOF_STRING_def str_wf_def)
  have mem1: "plenty (Suc k) ?w1" using mem by (simp add: plenty_def view_simps)
  have "tpool_inv (tp ?w1)" using moves_inv [OF m1] by (simp add: srv_inv_def)
  from enqueue_task_raw [OF this c1 p mem1, of "with_msg ?a ?b ?m"] obtain t where
    t: "rpchat_conn_info_enqueue_task p (with_msg ?a ?b ?m) ?w1 =
        Some (Inr (RPLIB_SUCCESS, upd_conn p (count_job (clear_stat c)) (?w1\<lparr>tp := t\<rparr>)))"
      "tpool_tasks t = tpool_tasks (tp ?w1) @ [\<lparr>p_function = Rpchat_task_conn_proc_event, p_arg = with_msg ?a ?b ?m\<rparr>]"
      "ll_rooms k (p_queue_tasks t)" "\<not> mutex_task_queue t"
    by (elim exE conjE)
  define w' where "w' = upd_conn p (count_job (clear_stat c)) (?w1\<lparr>tp := t\<rparr>)"
  have w': "rpchat_conn_info_enqueue_task p (with_msg ?a ?b ?m) ?w1 = Some (Inr (RPLIB_SUCCESS, w'))"
      "queued w' = queued ?w1 @ [with_msg ?a ?b ?m]" "plenty k w'"
      "map_option username (conn_map w' p) = Some (username c)"
    using t mem1 by (simp_all add: w'_def plenty_def view_simps queued_def clear_stat_def)
  have "moves L p st w0 w'"
    using wp_D [OF wp_enqueue_task [OF m1 _ ok1, where Q = "\<lambda>_. moves L p st w0"] w'(1)] c1 by simp
  moreover have "os_op os_malloc w = Some (Inr (True, w))"
    using mem by (intro run_malloc) (simp add: plenty_def)
  then have "rpchat_conn_proc_enqueue_status p code w = Some (Inr (RPLIB_SUCCESS, w'))"
    using set w'(1) by (simp add: rpchat_conn_proc_enqueue_status_def outbound_args_def bindM_return run_getsM)
  ultimately show ?thesis using w'(2-4) by (auto simp: addressed_def view_simps)
qed

text \<open>An event for a connection with a SEND message waiting on its descriptor.\<close>

definition send_event :: "addr \<Rightarrow> rpchat_args_proc_event \<Rightarrow> bool" where
  "send_event p args \<longleftrightarrow>
     args_type args = RPCHAT_PROC_EVENT_INBOUND \<and> p_conn_info args = p \<and> sz_msg_buf args = 0 \<and>
     data_ptr (ev_data (args_event args)) = p \<and> has_event (ev_events (args_event args)) EPOLLIN \<and>
     (\<exists>b. p_msg_buf args = Some b \<and> buf_live b \<and> 0 < buf_cap b)"

lemma inbound_opcode_run:
  assumes c: "conn_map w p = Some c" "p \<noteq> NULL" and fd: "open_fds (sys w) (h_fd c)"
    and ev: "send_event p args" and b: "p_msg_buf args = Some b" and rx: "rx (sys w) (h_fd c) = x # tail"
    and run: "rpchat_handle_msg p (Some (b\<lparr>buf_bytes := (buf_bytes b)(0 := x)\<rparr>)) (set_rx (h_fd c) tail w) =
      Some (Inr (res, w'))"
  shows "\<exists>args'. rpchat_conn_proc_handle_inbound_msg args w = Some (Inr ((res, args'), w'))"
proof -
  have recv: "os_op (rpchat_recv (h_fd c) 1) w = Some (Inr ((1, [x]), set_rx (h_fd c) tail w))"
    using recv_run [OF fd, of "[x]" tail] rx by simp
  have "write_buf (Some b) 0 [x] = Inr (b\<lparr>buf_bytes := (buf_bytes b)(0 := x)\<rparr>)"
    using ev b by (simp add: write_buf_def send_event_def)
  then have "rpchat_conn_proc_handle_inbound_msg args w = Some (Inr ((res,
      args\<lparr>p_msg_buf := Some (b\<lparr>buf_bytes := (buf_bytes b)(0 := x)\<rparr>), sz_msg_buf := 1\<rparr>), w'))"
    using ev b run_load_conn [OF c] recv run
    by (simp add: rpchat_conn_proc_handle_inbound_msg_def send_event_def Let_def bindM_return run_liftM
        run_returnM)
  then show ?thesis by blast
qed

lemma inbound_send_run:
  assumes m: "moves L p st w0 w" "st \<noteq> RPCHAT_CONN_CLOSING" and c: "conn_map w p = Some c"
    and ev: "send_event p args"
    and rx: "rx (sys w) (h_fd c) = encode (Send bs) @ rest"
    and rest: "length bs \<le> RPCHAT_MAX_STR_LENGTH" "sanitize_spec True bs \<noteq> []"
      "str_arg (username c) \<noteq> None" "\<not> mutex_conn_ll (cq w)"
      "plenty (length (filter (\<lambda>q. q \<noteq> p) (conn_ptrs w)) + k) w"
      "\<forall>q \<in> set (conn_ptrs w). q \<noteq> p \<longrightarrow> receptive w q"
  shows "\<exists>w' args' new. rpchat_conn_proc_handle_inbound_msg args w =
       Some (Inr ((RPLIB_SUCCESS, args'), w')) \<and> moves L p st w0 w' \<and> queued w' = queued w @ new \<and>
     plenty k w' \<and> waiting w' = (waiting w)(h_fd c := rest) \<and>
     map addressed new = map (\<lambda>q. (RPCHAT_PROC_EVENT_OUTBOUND, q,
       encode (Deliver (str_bytes (username c)) (sanitize_spec True bs)))) (filter (\<lambda>q. q \<noteq> p) (conn_ptrs w))"
proof -
  have fd0: "fd_of w0 p = Some (h_fd c)" and inv: "srv_inv L w" using m(1) c by (auto elim!: moves_conn)
  have p: "p \<noteq> NULL" using inv c by (rule srv_inv_not_NULL)
  obtain b where b: "p_msg_buf args = Some b" "0 < buf_cap b" "buf_live b" using ev by (auto simp: send_event_def)
  let ?w1 = "set_rx (h_fd c) (enc_string bs @ rest) w"
  have m1: "moves L p st w0 ?w1" using m(1) fd0 by (rule moves_set_rx)
  obtain w' new where w': "rpchat_handle_send p ?w1 = Some (Inr (RPLIB_SUCCESS, w'))"
      "moves L p st w0 w'" "queued w' = queued w @ new" "plenty k w'" "waiting w' = (waiting w)(h_fd c := rest)"
      "map addressed new = map (\<lambda>q. (RPCHAT_PROC_EVENT_OUTBOUND, q,
       encode (Deliver (str_bytes (username c)) (sanitize_spec True bs)))) (filter (\<lambda>q. q \<noteq> p) (conn_ptrs w))"
    using handle_send_run [OF m1 m(2), of c bs rest k] c rest
    by (simp add: view_simps receptive_def) blast
  have "rpchat_handle_msg p (Some (b\<lparr>buf_bytes := (buf_bytes b)(0 := 2)\<rparr>)) ?w1 = Some (Inr (RPLIB_SUCCESS, w'))"
    using w'(1) b(2,3)
    by (simp add: rpchat_handle_msg_def rpchat_get_msg_type_def read_buf_def Let_def run_liftM bindM_return)
  from inbound_opcode_run [OF c p moves_open [OF m fd0] ev b(1) _ this] show ?thesis
    using rx w'(2-6) by auto
qed

lemma set_status_st_run:
  assumes "moves L p st w0 w" and "st' = RPCHAT_CONN_CLOSING \<longleftrightarrow> st = RPCHAT_CONN_CLOSING"
    and "conn_map w p = Some c"
  shows "set_status p st' w = Some (Inr ((), upd_conn p (c\<lparr>conn_status := st'\<rparr>) w))"
    and "moves L p st' w0 (upd_conn p (c\<lparr>conn_status := st'\<rparr>) w)"
proof -
  have p: "p \<noteq> NULL" using assms by (auto elim!: moves_conn dest: srv_inv_not_NULL)
  then show r: "set_status p st' w = Some (Inr ((), upd_conn p (c\<lparr>conn_status := st'\<rparr>) w))"
    using run_store_conn [OF assms(3)] by (simp add: set_status_def)
  show "moves L p st' w0 (upd_conn p (c\<lparr>conn_status := st'\<rparr>) w)"
    using wp_D [OF wp_status [OF assms(1,2), where Q = "\<lambda>_. moves L p st' w0"] r] by simp
qed

text \<open>The case of the \<open>switch\<close> that handles the event.\<close>

lemma others_length:
  assumes "srv_inv L w" and "conn_map w p = Some c"
  shows "Suc (length (filter (\<lambda>q. q \<noteq> p) (conn_ptrs w))) = length (conn_ptrs w)"
proof -
  have "p \<in> set (conn_ptrs w)" "distinct (conn_ptrs w)"
    using assms by (auto simp: srv_inv_def conn_ptrs_def set_ll_ptrs distinct_ll_ptrs conn_map_def)
  then show ?thesis by (simp add: length_filter_remove)
qed

lemma case_available_success_run:
  assumes inb: "args_type args = RPCHAT_PROC_EVENT_INBOUND" and pc: "p_conn_info args = p"
    and run: "rpchat_conn_proc_handle_inbound_msg args w = Some (Inr ((RPLIB_SUCCESS, args'), w1))"
    and m: "moves L p st w0 w1" "st \<noteq> RPCHAT_CONN_CLOSING" and mem: "plenty (Suc k) w1"
    and c1: "conn_map w1 p = Some c1"
  shows "\<exists>w' reply tail. case_available args w = Some (Inr ((Break RPLIB_SUCCESS, args'), w')) \<and>
     moves L p RPCHAT_CONN_SEND_STAT w0 w' \<and> queued w' = queued w1 @ [reply] \<and> waiting w' = waiting w1 \<and>
     addressed reply = (RPCHAT_PROC_EVENT_OUTBOUND, p, encode (Status RPCHAT_BCP_STATUS_GOOD tail)) \<and>
     (\<exists>c'. conn_map w' p = Some c' \<and> username c' = username c1)"
proof -
  have p: "p \<noteq> NULL" using m(1) c1 by (auto elim!: moves_conn dest: srv_inv_not_NULL)
  let ?c2 = "c1\<lparr>conn_status := RPCHAT_CONN_SEND_STAT\<rparr>"
  let ?w2 = "upd_conn p ?c2 w1"
  have set: "set_status p RPCHAT_CONN_SEND_STAT w1 = Some (Inr ((), ?w2))"
    and m2: "moves L p RPCHAT_CONN_SEND_STAT w0 ?w2"
    using set_status_st_run [OF m(1) _ c1, of RPCHAT_CONN_SEND_STAT] m(2) by simp_all
  have c2: "conn_map ?w2 p = Some ?c2" by (simp add: view_simps)
  have mem2: "plenty (Suc k) ?w2" using mem by (simp add: plenty_def view_simps)
  obtain w' reply where w': "rpchat_conn_proc_enqueue_status p RPCHAT_BCP_STATUS_GOOD ?w2 =
      Some (Inr (RPLIB_SUCCESS, w'))" "moves L p RPCHAT_CONN_SEND_STAT w0 w'"
      "queued w' = queued ?w2 @ [reply]"
      "addressed reply = (RPCHAT_PROC_EVENT_OUTBOUND, p,
         encode (Status RPCHAT_BCP_STATUS_GOOD (str_bytes (stat_msg ?c2))))"
      "map_option username (conn_map w' p) = Some (username ?c2)"
    using enqueue_status_run [OF m2 c2 mem2, where code = RPCHAT_BCP_STATUS_GOOD] by blast
  have "case_available args w = Some (Inr ((Break RPLIB_SUCCESS, args'), w'))"
    using run set w'(1)
    by (simp add: case_available_def Let_def pc inb bindM_return thenM_return run_returnM)
  moreover have "waiting w' = waiting w1"
    using keepsD [OF kr.enqueue_status w'(1)] by (simp add: view_simps)
  ultimately show ?thesis using w'(2-5) by (auto simp: view_simps)
qed

lemma case_available_send_run:
  assumes m: "moves L p RPCHAT_CONN_AVAILABLE w0 w" and c: "conn_map w p = Some c"
    and ev: "send_event p args" and rx: "rx (sys w) (h_fd c) = encode (Send bs) @ rest"
    and rest: "length bs \<le> RPCHAT_MAX_STR_LENGTH" "sanitize_spec True bs \<noteq> []"
      "str_arg (username c) \<noteq> None" "\<not> mutex_conn_ll (cq w)"
      "plenty (length (conn_ptrs w)) w"
      "\<forall>q \<in> set (conn_ptrs w). q \<noteq> p \<longrightarrow> receptive w q"
  shows "\<exists>w' args' new reply. case_available args w =
       Some (Inr ((Break RPLIB_SUCCESS, args'), w')) \<and> moves L p RPCHAT_CONN_SEND_STAT w0 w' \<and>
     queued w' = queued w @ new @ [reply] \<and> waiting w' = (waiting w)(h_fd c := rest) \<and>
     map addressed new = map (\<lambda>q. (RPCHAT_PROC_EVENT_OUTBOUND, q,
       encode (Deliver (str_bytes (username c)) (sanitize_spec True bs)))) (filter (\<lambda>q. q \<noteq> p) (conn_ptrs w)) \<and>
     (\<exists>tail. addressed reply = (RPCHAT_PROC_EVENT_OUTBOUND, p, encode (Status RPCHAT_BCP_STATUS_GOOD tail)))"
proof -
  have pc: "p_conn_info args = p" and inb: "args_type args = RPCHAT_PROC_EVENT_INBOUND"
    using ev by (simp_all add: send_event_def)
  have len: "length (conn_ptrs w) = length (filter (\<lambda>q. q \<noteq> p) (conn_ptrs w)) + 1"
    using others_length [OF moves_inv [OF m] c] by simp
  obtain w1 args' new where w1: "rpchat_conn_proc_handle_inbound_msg args w =
       Some (Inr ((RPLIB_SUCCESS, args'), w1))" "moves L p RPCHAT_CONN_AVAILABLE w0 w1"
       "queued w1 = queued w @ new" "plenty 1 w1" "waiting w1 = (waiting w)(h_fd c := rest)"
     "map addressed new = map (\<lambda>q. (RPCHAT_PROC_EVENT_OUTBOUND, q,
       encode (Deliver (str_bytes (username c)) (sanitize_spec True bs)))) (filter (\<lambda>q. q \<noteq> p) (conn_ptrs w))"
    using inbound_send_run [OF m _ c ev rx rest(1-4), of 1] rest(5,6) unfolding len by blast
  obtain c1 where c1: "conn_map w1 p = Some c1" using w1(2) by (elim moves_conn)
  have mem1: "plenty (Suc 0) w1" using w1(4) by simp
  from case_available_success_run [OF inb pc w1(1,2) _ mem1 c1] show ?thesis using w1(3,5,6) by auto
qed

end
