(* ===== verification/Chat_Protocol.thy ===== *)
theory Chat_Protocol
  imports Chat_Send
begin

text \<open>
  Properties of the protocol the server speaks: the wire format, the delivery of messages, and
  the places where the code departs from what the protocol description and its own
  comments say.
\<close>

subsection \<open>Wire format\<close>

text \<open>
  C33. Assembling a STATUS message: for a well-formed connection and a buffer of at least
  \<open>sizeof(rpchat_pkt_status_t)\<close> bytes \<open>rpchat_conn_proc_set_status\<close> succeeds without
  leaving the buffer, the bytes to send decode to exactly that STATUS, and the connection's
  pending status text is emptied.
\<close>

theorem status_message_bytes:
  assumes "srv_inv L w" and "conn_map w p = Some c"
    and "p_msg_buf args = Some b" and "buf_live b" and "SIZEOF_PKT_STATUS \<le> buf_cap b"
  shows "\<exists>args' w'. rpchat_conn_proc_set_status p args code w = Some (Inr ((RPLIB_SUCCESS, args'), w')) \<and>
     decode (payload args') = Some (Status code (str_bytes (stat_msg c)), []) \<and>
     sz_msg_buf args' \<le> buf_cap b \<and>
     (\<exists>c'. conn_map w' p = Some c' \<and> str_bytes (stat_msg c') = [])"
proof -
  have wf: "str_wf (stat_msg c)" using srv_inv_conn_ok [OF assms(1,2)] by (simp add: conn_ok_def)
  have "rpchat_conn_proc_set_status p args code w =
     Some (Inr ((RPLIB_SUCCESS, with_msg args b (Status code (str_bytes (stat_msg c)))),
                upd_conn p (clear_stat c) w))"
    using set_status_run [OF assms(2) srv_inv_not_NULL [OF assms(1,2)] wf assms(3-5)] .
  moreover have "msg_ok (Status code (str_bytes (stat_msg c)))"
    using wf by (simp add: str_wf_def STR_STORAGE_def)
  then have "decode (encode (Status code (str_bytes (stat_msg c)))) =
      Some (Status code (str_bytes (stat_msg c)), [])"
    using decode_encode_app [of "Status code (str_bytes (stat_msg c))" "[]"] by simp
  moreover have "length (encode (Status code (str_bytes (stat_msg c)))) \<le> buf_cap b"
    using wf assms(5) by (simp add: str_wf_def SIZEOF_PKT_STATUS_def SIZEOF_STRING_def)
  ultimately show ?thesis
    by (simp add: view_simps clear_stat_def str_bytes_def del: encode.simps decode.simps)
qed

definition demo_out :: rpchat_args_proc_event where
  "demo_out = (demo_args RPCHAT_PROC_EVENT_INBOUND)\<lparr>p_msg_buf :=
     Some \<lparr>buf_cap = RPCHAT_MAX_INCOMING_MSG, buf_bytes = (\<lambda>_. 0), buf_live = True\<rparr>\<rparr>"

theorem status_message_bytes_witness:
  "\<exists>args' w'. rpchat_conn_proc_set_status 2 demo_out 0
       (demo_with RPCHAT_CONN_AVAILABLE RPCHAT_PROC_EVENT_INBOUND 0 []) =
       Some (Inr ((RPLIB_SUCCESS, args'), w')) \<and> decode (payload args') = Some (Status 0 [], [])"
proof -
  have "str_bytes (stat_msg (demo_conn 5 RPCHAT_CONN_AVAILABLE [] 1)) = []"
    by (simp add: demo_conn_def demo_str_def str_bytes_def)
  then show ?thesis
    using status_message_bytes [OF demo_with_inv
        [of RPCHAT_CONN_AVAILABLE RPCHAT_PROC_EVENT_INBOUND 0 "[]"],
        of 2 "demo_conn 5 RPCHAT_CONN_AVAILABLE [] 1" demo_out
        "\<lparr>buf_cap = RPCHAT_MAX_INCOMING_MSG, buf_bytes = (\<lambda>_. 0), buf_live = True\<rparr>" 0]
    by (auto simp: demo_out_def SIZEOF_PKT_STATUS_def SIZEOF_STRING_def STR_STORAGE_def
        RPCHAT_MAX_INCOMING_MSG_def)
qed

subsection \<open>Delivery\<close>

text \<open>
  C13. Broadcasting. If memory suffices, the list's lock is free and no other connection is
  closing or in error, \<open>rpchat_broadcast_msg\<close> returns \<open>RPLIB_SUCCESS\<close> with the lock
  released and has queued exactly one DELIVER task for every connection but the sender, in list order,
  each carrying the sender's name and the sanitized text in the protocol's wire format; nothing
  already queued is lost or reordered.
\<close>

theorem broadcast_delivers:
  assumes "srv_inv L w" and "conn_map w p = Some c" and "str_wf from" and "str_arg from \<noteq> None"
    and "sanitize_spec True (str_bytes msg) \<noteq> []" and "\<not> mutex_conn_ll (cq w)"
    and "plenty (length (filter (\<lambda>q. q \<noteq> p) (conn_ptrs w))) w"
    and "\<forall>q \<in> set (conn_ptrs w). q \<noteq> p \<longrightarrow> receptive w q"
  shows "\<exists>w' new. rpchat_broadcast_msg p (Some from) msg w = Some (Inr (RPLIB_SUCCESS, w')) \<and>
     srv_inv L w' \<and> \<not> mutex_conn_ll (cq w') \<and> queued w' = queued w @ new \<and>
     map (\<lambda>a. (args_type a, p_conn_info a, payload a)) new =
       map (\<lambda>q. (RPCHAT_PROC_EVENT_OUTBOUND, q,
                 encode (Deliver (str_bytes from) (sanitize_spec True (str_bytes msg)))))
         (filter (\<lambda>q. q \<noteq> p) (conn_ptrs w))"
proof -
  have "plenty (length (filter (\<lambda>q. q \<noteq> p) (conn_ptrs w)) + 0) w" using assms(7) by simp
  from broadcast_run [OF moves_start [OF assms(1,2)] assms(3-6) this assms(8)]
  show ?thesis
    using assms(6) by (auto simp: moves_def frame_def deliver_all_def addressed_eq)
qed

lemma demo_server_str:
  "str_wf (demo_str (lit RPCHAT_SERVER_IDENTIFIER))" "str_arg (demo_str (lit RPCHAT_SERVER_IDENTIFIER)) \<noteq> None"
proof -
  let ?bs = "lit RPCHAT_SERVER_IDENTIFIER"
  show "str_wf (demo_str ?bs)"
    by (simp add: str_wf_def demo_str_def lit_def RPCHAT_SERVER_IDENTIFIER_def STR_STORAGE_def)
  have "store_bytes (\<lambda>_. 0) 0 ?bs = store_bytes (\<lambda>_. 0) 0 (?bs @ [0])"
    by (rule ext) (simp add: store_bytes_nth nth_append)
  moreover have "0 \<notin> set ?bs" "length ?bs < STR_STORAGE"
    by (simp_all add: lit_def RPCHAT_SERVER_IDENTIFIER_def STR_STORAGE_def)
  ultimately show "str_arg (demo_str ?bs) \<noteq> None"
    by (simp add: str_arg_def demo_str_def c_str_store)
qed

lemma keep_hi: "sanitize_spec True [104, 105] = [104, 105, 0]"
  by (simp add: sanitize_spec_def keep_char_def filter_bounds RPCHAT_MAX_STR_LENGTH_def)

theorem broadcast_delivers_witness:
  "\<exists>w' new. rpchat_broadcast_msg 2 (Some (demo_str (lit RPCHAT_SERVER_IDENTIFIER))) (demo_str [104, 105])
       (demo_with RPCHAT_CONN_AVAILABLE RPCHAT_PROC_EVENT_INBOUND 0 []) = Some (Inr (RPLIB_SUCCESS, w')) \<and>
     queued w' = demo_args RPCHAT_PROC_EVENT_INBOUND # new \<and> map p_conn_info new = [4]"
proof -
  let ?w = "demo_with RPCHAT_CONN_AVAILABLE RPCHAT_PROC_EVENT_INBOUND 0 []"
  have "str_bytes (demo_str [104, 105]) = [104, 105]" by (rule demo_str_bytes) simp
  then have msg: "sanitize_spec True (str_bytes (demo_str [104, 105])) \<noteq> []" by (simp add: keep_hi)
  have "\<forall>q \<in> set (conn_ptrs ?w). q \<noteq> 2 \<longrightarrow> receptive ?w q" by (simp add: receptive_def)
  from broadcast_delivers [OF demo_with_inv [of RPCHAT_CONN_AVAILABLE RPCHAT_PROC_EVENT_INBOUND 0 "[]"]
      _ demo_server_str msg _ demo_plenty this]
  obtain w' new where "rpchat_broadcast_msg 2 (Some (demo_str (lit RPCHAT_SERVER_IDENTIFIER)))
      (demo_str [104, 105]) ?w = Some (Inr (RPLIB_SUCCESS, w'))" "queued w' = queued ?w @ new"
      "map (\<lambda>a. (args_type a, p_conn_info a, payload a)) new =
       map (\<lambda>q. (RPCHAT_PROC_EVENT_OUTBOUND, q, encode (Deliver (str_bytes (demo_str (lit RPCHAT_SERVER_IDENTIFIER)))
         (sanitize_spec True (str_bytes (demo_str [104, 105])))))) (filter (\<lambda>q. q \<noteq> 2) (conn_ptrs ?w))"
    by auto
  moreover from this(3) have "map p_conn_info new = [4]"
    by (auto dest!: arg_cong [where f = "map (fst \<circ> snd)"])
  ultimately show ?thesis by auto
qed

text \<open>
  C37. Broadcasting while another connection is closing or in error never returns: the
  \<open>continue\<close> that should skip that connection jumps back to the loop condition without
  advancing, so the call spins forever with the lock of the connection list held (or ends in one
  of the tolerated faults before it gets there).
\<close>

theorem broadcast_stuck_on_closing:
  assumes "srv_inv L w" and "conn_map w p = Some c" and "str_wf from"
    and "q \<in> set (conn_ptrs w)" and "q \<noteq> p"
    and "status w q = Some RPCHAT_CONN_CLOSING \<or> status w q = Some RPCHAT_CONN_ERR"
  shows "\<nexists>r. rpchat_broadcast_msg p (Some from) msg w = Some (Inr r)"
proof -
  have "\<not> receptive w q" using assms(6) by (auto simp: receptive_def)
  then have "wp (rpchat_broadcast_msg p (Some from) msg) tolerated (\<lambda>_ _. False) w"
    by (rule wp_broadcast_stuck [OF moves_start [OF assms(1,2)] assms(3-5)])
  then show ?thesis by (auto dest: wp_D)
qed

theorem broadcast_stuck_on_closing_witness:
  "\<nexists>r. rpchat_broadcast_msg 4 (Some (demo_str (lit RPCHAT_SERVER_IDENTIFIER))) (demo_str [104, 105])
       (demo_with RPCHAT_CONN_CLOSING RPCHAT_PROC_EVENT_INBOUND 0 []) = Some (Inr r)"
  by (rule broadcast_stuck_on_closing [OF demo_with_inv _ demo_server_str(1), where q = 2]) simp_all

text \<open>
  C5. A SEND message reaches everybody else. When an available client's descriptor is readable and
  holds a SEND message with a printable text of at most 4095 bytes, the event handler
  takes exactly this message off the stream's front (what follows it, and what waits on other descriptors,
  stays), queues one DELIVER with the client's name and the sanitized
  text for every other connection, then a STATUS for the sender, and moves
  the sender to \<open>RPCHAT_CONN_SEND_STAT\<close> (given memory, a free list lock, a terminated user name
  and no connection that is closing or in error).
\<close>

theorem send_reaches_everybody:
  assumes "srv_inv L w" and "conn_map w p = Some c" and "conn_status c = RPCHAT_CONN_AVAILABLE"
    and "send_event p args" and "rx (sys w) (h_fd c) = encode (Send bs) @ rest"
    and "length bs \<le> RPCHAT_MAX_STR_LENGTH" and "sanitize_spec True bs \<noteq> []"
    and "str_arg (username c) \<noteq> None" and "\<not> mutex_conn_ll (cq w)"
    and "plenty (length (conn_ptrs w)) w"
    and "\<forall>q \<in> set (conn_ptrs w). q \<noteq> p \<longrightarrow> receptive w q"
  shows "\<exists>w' args' new reply tail.
     case_available args w = Some (Inr ((Break RPLIB_SUCCESS, args'), w')) \<and> srv_inv L w' \<and>
     status w' p = Some RPCHAT_CONN_SEND_STAT \<and> rx (sys w') = (rx (sys w))(h_fd c := rest) \<and>
     queued w' = queued w @ new @ [reply] \<and>
     map (\<lambda>a. (args_type a, p_conn_info a, payload a)) new =
       map (\<lambda>q. (RPCHAT_PROC_EVENT_OUTBOUND, q,
                 encode (Deliver (str_bytes (username c)) (sanitize_spec True bs))))
         (filter (\<lambda>q. q \<noteq> p) (conn_ptrs w)) \<and>
     p_conn_info reply = p \<and> payload reply = encode (Status RPCHAT_BCP_STATUS_GOOD tail)"
proof -
  have m: "moves L p RPCHAT_CONN_AVAILABLE w w" using moves_start [OF assms(1,2)] assms(3) by simp
  from case_available_send_run [OF m assms(2,4-11)] show ?thesis
    by (auto simp: addressed_eq moves_def)
qed

definition demo_send :: server where
  "demo_send = demo (demo_conn 5 RPCHAT_CONN_AVAILABLE [97, 109, 121, 0] 1)
     (demo_conn 6 RPCHAT_CONN_AVAILABLE [98, 111, 98, 0] 0)
     demo_out (demo_os 0 (encode (Send [104, 105]) @ [9]))"

lemma demo_out_ready: "p_conn_info demo_out = 2" "ready 2 demo_out"
  by (simp_all add: demo_out_def demo_args_def ready_def buf_ok_def conn_event_def SIZEOF_PKT_STATUS_def
      SIZEOF_STRING_def STR_STORAGE_def RPCHAT_MAX_INCOMING_MSG_def)

lemma demo_send_inv: "srv_inv {} demo_send"
  unfolding demo_send_def by (rule demo_inv) (simp_all add: demo_conn_ok demo_out_ready)

lemma demo_send_event: "send_event 2 demo_out"
proof -
  have "has_event (ev_events (conn_event 2)) EPOLLIN"
    by (simp add: has_event_def conn_event_def EPOLLIN_def EPOLLERR_def EPOLLHUP_def EPOLLET_def)
  then show ?thesis
    by (simp add: send_event_def demo_out_def demo_args_def RPCHAT_MAX_INCOMING_MSG_def)
      (simp add: conn_event_def)
qed

theorem send_reaches_everybody_witness:
  "\<exists>w' args' new reply. case_available demo_out demo_send = Some (Inr ((Break RPLIB_SUCCESS, args'), w')) \<and>
     status w' 2 = Some RPCHAT_CONN_SEND_STAT \<and> rx (sys w') 5 = [9] \<and> queued w' = demo_out # new @ [reply] \<and>
     map p_conn_info new = [4] \<and> p_conn_info reply = 2"
proof -
  let ?c = "demo_conn 5 RPCHAT_CONN_AVAILABLE [97, 109, 121, 0] 1"
  have name: "str_arg (username ?c) \<noteq> None"
    using c_str_store [of "[97, 109, 121]" 4096 "\<lambda>_. 0" 0]
    by (simp add: str_arg_def demo_conn_def demo_str_def STR_STORAGE_def)
  have w: "conn_map demo_send 2 = Some ?c" "conn_ptrs demo_send = [2, 4]"
      "\<not> mutex_conn_ll (cq demo_send)" "queued demo_send = [demo_out]"
      "rx (sys demo_send) 5 = encode (Send [104, 105]) @ [9]"
    by (simp_all add: demo_send_def) (simp add: demo_os_def)
  have mem: "plenty (length (conn_ptrs demo_send)) demo_send"
    unfolding w(2) demo_send_def by (rule demo_plenty) simp
  have rcp: "\<forall>q \<in> set (conn_ptrs demo_send). q \<noteq> 2 \<longrightarrow> receptive demo_send q"
    by (simp add: w(2)) (simp add: demo_send_def receptive_def)
  obtain w' args' new reply tail where r:
      "case_available demo_out demo_send = Some (Inr ((Break RPLIB_SUCCESS, args'), w'))"
      "status w' 2 = Some RPCHAT_CONN_SEND_STAT" "rx (sys w') = (rx (sys demo_send))(5 := [9])"
      "queued w' = queued demo_send @ new @ [reply]"
      "map (\<lambda>a. (args_type a, p_conn_info a, payload a)) new =
       map (\<lambda>q. (RPCHAT_PROC_EVENT_OUTBOUND, q,
                 encode (Deliver (str_bytes (username ?c)) (sanitize_spec True [104, 105]))))
         (filter (\<lambda>q. q \<noteq> 2) (conn_ptrs demo_send))" "p_conn_info reply = 2"
    using send_reaches_everybody [OF demo_send_inv w(1) _ demo_send_event _ _ _ name w(3) mem rcp,
        of "[104, 105]" "[9]"] w(5)
    by (auto simp: keep_hi RPCHAT_MAX_STR_LENGTH_def)
  from r(5) have "map p_conn_info new = [4]"
    by (auto simp: w(2) dest!: arg_cong [where f = "map (fst \<circ> snd)"])
  with r w(4) show ?thesis by auto
qed

end
