(* ===== verification/Tpool_Props.thy ===== *)
theory Tpool_Props
  imports Tpool Networking
begin

text \<open>
  Properties of the task queue of the thread pool and of the wrappers around the system calls.
\<close>

subsection \<open>The task queue\<close>

text \<open>
  How a worker gets its task. With the queue's lock free, a worker takes the oldest task
  and removes exactly it; on an empty queue it waits, and once termination is requested it stops
  and leaves the queue as it is, even if tasks are still queued. The assertions of
  \<open>rplib_ll_queue_dequeue\<close> never fail, and the lock is released whenever the worker goes on.
\<close>

theorem take_task_spec:
  assumes "tpool_inv s" and "\<not> mutex_task_queue s"
  shows "if b_terminate s then tpool_take_task s = Some (Inr (None, s))
     else case tpool_tasks s of
            [] \<Rightarrow> tpool_take_task s = None
          | t # ts \<Rightarrow> \<exists>s'. tpool_take_task s = Some (Inr (Some t, s')) \<and> tpool_inv s' \<and>
              tpool_tasks s' = ts \<and> \<not> mutex_task_queue s'"
  using assms by (rule tq.get_spec)

text \<open>
  C38. A failed enqueue wedges the pool. When the task queue cannot take another task (no
  memory, or \<open>INT_MAX\<close> entries) \<open>rplib_tpool_enqueue_task\<close> drops the task, reports
  \<open>RPLIB_SUCCESS\<close> and returns with \<open>mutex_task_queue\<close> locked; every later attempt to queue or
  to take a task then waits forever.
\<close>

theorem failed_enqueue_wedges_pool:
  assumes "tpool_inv s" and "\<not> mutex_task_queue s" and "\<not> ll_room (p_queue_tasks s)"
  shows "\<exists>s'. rplib_tpool_enqueue_task f a s = Some (Inr (RPLIB_SUCCESS, s')) \<and>
     tpool_tasks s' = tpool_tasks s \<and>
     (\<forall>g b. rplib_tpool_enqueue_task g b s' = None) \<and> tpool_take_task s' = None"
proof -
  obtain q where q: "rplib_ll_queue_enqueue \<lparr>p_function = f, p_arg = a\<rparr> SIZEOF_TASK (p_queue_tasks s) =
      Some (Inr (NULL, q))" "ll_list q = ll_list (p_queue_tasks s)"
    using enqueue_no_room [OF assms(1) _ assms(3), of SIZEOF_TASK] by (auto simp: SIZEOF_TASK_def)
  then obtain s' where s': "rplib_tpool_enqueue_task f a s = Some (Inr (RPLIB_SUCCESS, s'))"
      "tpool_tasks s' = tpool_tasks s"
    using assms(2) by (simp add: rplib_tpool_enqueue_task_def lock_task_queue_def run_simps tpool_tasks_def)
  then show ?thesis using tq.dropped_wedges [OF assms(1) s'(1)] by simp
qed

definition demo_pool :: "bool list \<Rightarrow> (nat, nat) rplib_tpool" where
  "demo_pool ms = \<lparr>p_queue_tasks = \<lparr>q_size = 1, p_front = 1, p_rear = 1,
       nodes = [1 \<mapsto> \<lparr>p_data = 2, data_size = SIZEOF_TASK, p_next_node = NULL\<rparr>],
       bufs = [2 \<mapsto> \<lparr>p_function = 7, p_arg = 8\<rparr>], brk = 3, mallocs = ms\<rparr>,
     p_thread_buf = True, num_threads = 4, num_threads_busy = 0, num_threads_alive = 4, mutex_task_queue = False,
     mutex_thrd_count = False, b_terminate = False\<rparr>"

lemma demo_pool_wf: "ll_wf (p_queue_tasks (demo_pool ms)) [1]"
  by (auto simp: ll_wf_def demo_pool_def dptr_def INT_MAX_def)

lemma demo_pool_tasks: "tpool_tasks (demo_pool ms) = [\<lparr>p_function = 7, p_arg = 8\<rparr>]"
  by (simp add: tpool_tasks_def ll_list_wf [OF demo_pool_wf]) (simp add: demo_pool_def dptr_def)

lemma demo_pool_flags [simp]: "\<not> mutex_task_queue (demo_pool ms)" "\<not> b_terminate (demo_pool ms)"
  by (simp_all add: demo_pool_def)

theorem take_task_spec_witness:
  "\<exists>s'. tpool_take_task (demo_pool []) = Some (Inr (Some \<lparr>p_function = 7, p_arg = 8\<rparr>, s')) \<and>
     tpool_tasks s' = []"
  using take_task_spec [OF ll_invI [OF demo_pool_wf], of "[]"]
  by (auto simp: demo_pool_tasks)

theorem failed_enqueue_wedges_pool_witness:
  "\<exists>s'. rplib_tpool_enqueue_task 1 2 (demo_pool [False]) = Some (Inr (RPLIB_SUCCESS, s')) \<and>
     tpool_tasks s' = [\<lparr>p_function = 7, p_arg = 8\<rparr>] \<and> tpool_take_task s' = None"
proof -
  have "\<not> ll_room (p_queue_tasks (demo_pool [False]))"
    by (simp add: ll_room_def mallocs_ok_def demo_pool_def)
  then show ?thesis
    using failed_enqueue_wedges_pool [OF ll_invI [OF demo_pool_wf], of "[False]" 1 2]
    by (auto simp: demo_pool_tasks)
qed

subsection \<open>Networking\<close>

text \<open>
  Closing a connection closes its descriptor and thereby removes it from the interest list, but
  \<open>rpchat_close_connection\<close> never reports success: the \<open>EPOLL_CTL_DEL\<close> that follows the \<open>close\<close>
  names a descriptor that is no longer open, and a descriptor that was not open fails at once.
\<close>

theorem close_connection_never_succeeds:
  "rpchat_close_connection ep fd s =
     Some (Inr (- 1,
       if open_fds s fd
       then s\<lparr>open_fds := (open_fds s)(fd := False), interest := (interest s)(fd := None)\<rparr>
       else s))"
  by (cases "open_fds s fd")
    (simp_all add: rpchat_close_connection_def os_close_def os_epoll_del_def run_simps)

text \<open>
  When the server socket cannot be set up (\<open>socket\<close>, either \<open>setsockopt\<close>, \<open>bind\<close> or \<open>listen\<close>
  fails) \<open>rpchat_begin_networking\<close> returns 0, the value of \<open>RPLIB_SUCCESS\<close>, because \<open>res\<close> still
  holds the result of \<open>sigprocmask\<close>; the caller's epoll and server descriptors stay -1 and the epoll
  descriptor that was created is left open.
\<close>

theorem begin_networking_failure_reports_success:
  assumes "list_all (\<lambda>n. n = 0) (r_sigset r)" and "0 \<le> r_signalfd r" and "0 \<le> r_epoll_create r"
    and "r_socket r < 0 \<or> r_reuseaddr r < 0 \<or> r_reuseport r < 0 \<or> r_bind r < 0 \<or> r_listen r < 0"
  shows "\<exists>s'. rpchat_begin_networking r s =
       Some (Inr ((RPLIB_SUCCESS, RPLIB_ERROR, RPLIB_ERROR, r_signalfd r), s')) \<and>
     open_fds s' (r_epoll_create r) \<and> open_fds s' (r_signalfd r)"
  using networking_failure_run [OF assms, of s] by blast

definition demo_setup :: setup_results where
  "demo_setup = \<lparr>r_sigset = [0, 0, 0, 0], r_signalfd = 3, r_epoll_create = 4, r_socket = 5,
     r_reuseaddr = 0, r_reuseport = 0, r_bind = - 1, r_listen = 0, r_setitimer = 0\<rparr>"

definition boot_os :: os where
  "boot_os = \<lparr>open_fds = (\<lambda>fd. fd \<in> {0, 1, 2}), interest = Map.empty, rx = (\<lambda>_. []),
     peer_closed = (\<lambda>_. False), tx = [], send_results = [], clock = 0, backlog = [],
     nonblocking = (\<lambda>_. False), signals = [], heap_results = [], uninit = (\<lambda>_. 0),
     uninit_event = service_event 0, log_out = []\<rparr>"

theorem begin_networking_failure_reports_success_witness:
  "\<exists>s'. rpchat_begin_networking demo_setup boot_os =
       Some (Inr ((RPLIB_SUCCESS, RPLIB_ERROR, RPLIB_ERROR, 3), s')) \<and> open_fds s' 4"
  using begin_networking_failure_reports_success [of demo_setup boot_os] by (auto simp: demo_setup_def)

end
