(* ===== verification/Basic_Chat.thy ===== *)
theory Basic_Chat
  imports Chat_Worker
begin

text \<open>
  The main thread, \<open>src/rpchat_basic_chat.c\<close>: the handlers of the events that \<open>epoll_wait\<close>
  reports (a signal, a new connection, activity on an existing connection), with their rules.
  The main loop that calls them is in \<open>Chat_Server\<close>.

  The descriptors of the server socket, the epoll instance and the signal descriptor are
  arguments as in the code; the pointers to the one thread pool and the one connection queue are
  left out.
\<close>

subsection \<open>Accepting a connection\<close>

text \<open>
  The stack object \<open>new_conn_info\<close> before its initialisation: every field is read off memory whose
  contents are arbitrary.
\<close>

definition uninit_conn :: "server \<Rightarrow> rpchat_conn_info" where
  "uninit_conn w =
     \<lparr>h_fd = sint (word_of_nat (uninit_nat (sys w) 0 4) :: 32 word),
      pending_jobs = word_of_nat (uninit_nat (sys w) 4 4),
      username = stack_string 8 (sys w),
      stat_msg = stack_string (8 + SIZEOF_STRING) (sys w),
      mutex_conn = (uninit_nat (sys w) (8 + 2 * SIZEOF_STRING) 4 \<noteq> 0),
      conn_status =
        [RPCHAT_CONN_PRE_REGISTER, RPCHAT_CONN_AVAILABLE, RPCHAT_CONN_SEND_STAT, RPCHAT_CONN_SEND_MSG,
         RPCHAT_CONN_PENDING_STATUS, RPCHAT_CONN_ERR, RPCHAT_CONN_CLOSING] !
          (uninit_nat (sys w) (48 + 2 * SIZEOF_STRING) 4 mod 7),
      last_active = sint (word_of_nat (uninit_nat (sys w) (56 + 2 * SIZEOF_STRING) 8) :: 64 word)\<rparr>"

text \<open>
  A failed \<open>accept\<close> jumps to \<open>leave\<close>, which unlocks \<open>mutex_conn_ll\<close> although this call has not
  locked it.
\<close>

definition rpchat_handle_new_connection :: "int \<Rightarrow> int \<Rightarrow> (server, int) prog" where
  "rpchat_handle_new_connection h_fd_server ep =
     bindM (os_op (rpchat_accept_new_connection h_fd_server)) (\<lambda>h_new_fd.
     bindM (if 0 > h_new_fd then returnM RPLIB_ERROR
            else
              bindM (os_op os_time) (\<lambda>now.
              bindM (getsM uninit_conn) (\<lambda>junk.
              let new_conn_info = snd (rpchat_conn_info_initialize junk h_new_fd now) in
              thenM lock_conn_ll
              (bindM (ll_op (rplib_ll_queue_enqueue new_conn_info SIZEOF_CONN_INFO)) (\<lambda>p_new_node.
               if p_new_node = NULL then returnM RPLIB_ERROR
               else
                 bindM (load_conn_node p_new_node) (\<lambda>n.
                 os_op (os_epoll_add ep h_new_fd (conn_event (p_data n)))))))))
       (\<lambda>res.
     thenM unlock_conn_ll
     (returnM res)))"

subsection \<open>Auditing the connections\<close>

text \<open>
  The loop of \<open>rpchat_audit_connections\<close>: when the allocation fails, \<open>res\<close> is what the last
  enqueue returned, and \<open>RPLIB_UNSUCCESS\<close> for the first connection.
\<close>

definition heartbeat_args :: "server \<Rightarrow> addr \<Rightarrow> rpchat_args_proc_event" where
  "heartbeat_args w p =
     \<lparr>args_type = RPCHAT_PROC_EVENT_HEARTBEAT, args_event = uninit_event (sys w),
      p_conn_info = p, p_msg_buf = None, sz_msg_buf = 0, args_live = True\<rparr>"

partial_function (option) audit_loop :: "addr \<Rightarrow> int \<Rightarrow> (server, int) prog" where
  "audit_loop p_current_node res w =
     (if p_current_node = NULL then Some (Inr (RPLIB_SUCCESS, w))
      else
        bindM (load_conn_node p_current_node) (\<lambda>n w1.
        bindM (os_op os_malloc) (\<lambda>ok w2.
          if \<not> ok then Some (Inr (res, w2))
          else
            bindM (rpchat_conn_info_enqueue_task (p_data n) (heartbeat_args w2 (p_data n))) (\<lambda>res w3.
              if res \<noteq> RPLIB_SUCCESS then Some (Inr (res, w3))
              else audit_loop (p_next_node n) res w3) w2) w1) w)"

definition rpchat_audit_connections :: "(server, int) prog" where
  "rpchat_audit_connections =
     thenM lock_conn_ll
     (bindM (getsM (\<lambda>w. q_size (conn_ll w))) (\<lambda>n.
      bindM (if 1 > n then returnM RPLIB_SUCCESS
             else bindM (getsM (\<lambda>w. p_front (conn_ll w))) (\<lambda>front. audit_loop front RPLIB_UNSUCCESS))
        (\<lambda>res.
      thenM unlock_conn_ll
      (returnM res))))"

subsection \<open>Signals\<close>

abbreviation (input) SIGINT :: int where
  "SIGINT \<equiv> 2"

abbreviation (input) SIGALRM :: int where
  "SIGALRM \<equiv> 14"

definition rpchat_handle_signal :: "int \<Rightarrow> int \<Rightarrow> (server, int) prog" where
  "rpchat_handle_signal ep h_fd_signal =
     bindM (os_op (rpchat_get_signal h_fd_signal)) (\<lambda>signum.
     if signum = SIGINT then
       thenM (os_op (os_epoll_del ep h_fd_signal)) (returnM RPLIB_UNSUCCESS)
     else if signum = SIGALRM then rpchat_audit_connections
     else returnM RPLIB_ERROR)"

subsection \<open>Events\<close>

text \<open>Activity on an existing connection: stop listening and hand the event to the thread pool.\<close>

definition inbound_args :: "epoll_event \<Rightarrow> rpchat_args_proc_event" where
  "inbound_args ev =
     \<lparr>args_type = RPCHAT_PROC_EVENT_INBOUND, args_event = ev, p_conn_info = data_ptr (ev_data ev),
      p_msg_buf = None, sz_msg_buf = 0, args_live = True\<rparr>"

definition queue_event :: "int \<Rightarrow> epoll_event \<Rightarrow> (server, int) prog" where
  "queue_event ep ev =
     (let p = data_ptr (ev_data ev) in
      bindM (load_conn p) (\<lambda>c.
      thenM (os_op (rpchat_toggle_descriptor ep (h_fd c) p False))
      (rpchat_conn_info_enqueue_task p (inbound_args ev))))"

text \<open>The loop over the reported events; leaving it early drops the events that follow.\<close>

fun events_loop :: "int \<Rightarrow> int \<Rightarrow> int \<Rightarrow> epoll_event list \<Rightarrow> int \<Rightarrow> (server, int) prog" where
  "events_loop h_fd_server ep h_fd_signal [] res = returnM res"
| "events_loop h_fd_server ep h_fd_signal (ev # evs) res =
     (if h_fd_signal = data_fd (ev_data ev) then
        bindM (rpchat_handle_signal ep h_fd_signal) (\<lambda>res.
        if res = RPLIB_SUCCESS then events_loop h_fd_server ep h_fd_signal evs res else returnM res)
      else if h_fd_server = data_fd (ev_data ev) then
        bindM (rpchat_handle_new_connection h_fd_server ep) (\<lambda>res.
        if res \<noteq> RPLIB_SUCCESS then returnM res else events_loop h_fd_server ep h_fd_signal evs res)
      else
        bindM (os_op os_malloc) (\<lambda>ok.
        if \<not> ok then returnM res
        else bindM (queue_event ep ev) (\<lambda>res. events_loop h_fd_server ep h_fd_signal evs res)))"

definition rpchat_handle_events :: "epoll_event list \<Rightarrow> int \<Rightarrow> int \<Rightarrow> int \<Rightarrow> (server, int) prog" where
  "rpchat_handle_events evs h_fd_server ep h_fd_signal =
     events_loop h_fd_server ep h_fd_signal evs RPLIB_UNSUCCESS"

subsection \<open>What the main thread may do\<close>

definition newcomers :: "server \<Rightarrow> server \<Rightarrow> bool" where
  "newcomers w w' \<longleftrightarrow>
     (\<forall>q c. conn_map w q = None \<longrightarrow> conn_map w' q = Some c \<longrightarrow> conn_status c = RPCHAT_CONN_PRE_REGISTER)"

lemma newcomers_none: "(\<And>q. conn_map w q = None \<Longrightarrow> conn_map w' q = None) \<Longrightarrow> newcomers w w'"
  by (simp add: newcomers_def)

lemma newcomers_cong: "conn_map w = conn_map v \<Longrightarrow> conn_map w' = conn_map v' \<Longrightarrow> newcomers w w' = newcomers v v'"
  by (simp add: newcomers_def)

text \<open>
  \<open>grows L w w'\<close>: the invariant holds again, every connection is still there and changed in its
  job count only, a new one is still to register, and connections and tasks are only appended.
\<close>

definition grows :: "addr set \<Rightarrow> server \<Rightarrow> server \<Rightarrow> bool" where
  "grows L w w' \<longleftrightarrow>
     srv_inv L w' \<and> (\<forall>q c. conn_map w q = Some c \<longrightarrow> core w' q = core w q) \<and>
     (\<exists>ts. queued w' = queued w @ ts) \<and> (\<exists>ps. conn_ptrs w' = conn_ptrs w @ ps) \<and>
     pool_flags (tp w') = pool_flags (tp w) \<and> clock (sys w') = clock (sys w) \<and>
     no_new_service (sys w) (sys w') \<and> newcomers w w'"

lemma grows_refl: "srv_inv L w \<Longrightarrow> grows L w w"
  by (simp add: grows_def newcomers_none)

lemma grows_live: "grows L w w' \<Longrightarrow> conn_map w q \<noteq> None \<Longrightarrow> conn_map w' q \<noteq> None"
  by (auto simp: grows_def core_def)

lemma grows_trans: "grows L w w1 \<Longrightarrow> grows L w1 w2 \<Longrightarrow> grows L w w2"
proof -
  assume a: "grows L w w1" and b: "grows L w1 w2"
  have "conn_status c = RPCHAT_CONN_PRE_REGISTER" if "conn_map w q = None" "conn_map w2 q = Some c" for q c
  proof (cases "conn_map w1 q")
    case None
    then show ?thesis using b that(2) by (simp add: grows_def newcomers_def)
  next
    case (Some d)
    then have "conn_status d = RPCHAT_CONN_PRE_REGISTER" using a that(1) by (simp add: grows_def newcomers_def)
    moreover have "core w2 q = core w1 q" using b Some by (simp add: grows_def)
    ultimately show ?thesis using Some that(2) core_status [of w2 q w1] by (simp add: status_def)
  qed
  then have new: "newcomers w w2" unfolding newcomers_def by blast
  have "core w2 q = core w q" if c: "conn_map w q = Some c" for q c
  proof -
    obtain d where "conn_map w1 q = Some d" using grows_live [OF a, of q] c by (cases "conn_map w1 q") simp_all
    then show ?thesis using a b c by (simp add: grows_def)
  qed
  moreover have "no_new_service (sys w) (sys w2)"
    using a b no_new_service_trans [of "sys w" "sys w1" "sys w2"] by (simp add: grows_def)
  ultimately show ?thesis
    using a b new unfolding grows_def by (elim conjE exE) (intro conjI allI impI, simp_all)
qed

lemma grows_status:
  assumes "grows L w w'" and "status w q = Some st"
  shows "status w' q = Some st"
proof -
  obtain c where "conn_map w q = Some c" using assms(2) by (elim statusE)
  then have "core w' q = core w q" using assms(1) unfolding grows_def by blast
  then show ?thesis using assms(2) core_status [of w' q w] by simp
qed

lemma grows_inv: "grows L w w' \<Longrightarrow> srv_inv L w'"
  by (simp add: grows_def)

lemma grows_sys:
  assumes "srv_inv L w" and "fd_inv (w\<lparr>sys := s\<rparr>)" and "clock s = clock (sys w)"
    and "no_new_service (sys w) s"
  shows "grows L w (w\<lparr>sys := s\<rparr>)"
  using assms by (simp add: grows_def view_simps srv_inv_sys newcomers_none)

lemma grows_calm:
  assumes "grows L w0 w" and "interest s = interest (sys w)" and "open_fds s = open_fds (sys w)"
    and "clock s = clock (sys w)"
  shows "grows L w0 (w\<lparr>sys := s\<rparr>)"
proof -
  have "srv_inv L w" using assms(1) by (rule grows_inv)
  then have "fd_inv (w\<lparr>sys := s\<rparr>)" using assms(2,3) by (simp add: fd_inv_same srv_inv_def)
  with \<open>srv_inv L w\<close> assms have "grows L w (w\<lparr>sys := s\<rparr>)" by (intro grows_sys) simp_all
  with assms(1) show ?thesis by (rule grows_trans)
qed

lemma grows_mutex: "grows L w0 (ll_mutex b w) \<longleftrightarrow> grows L w0 w" "grows L (ll_mutex b w0) w \<longleftrightarrow> grows L w0 w"
  by (simp_all add: grows_def view_simps conn_ptrs_def newcomers_def)

lemma wp_main_malloc:
  assumes "grows L w0 w"
    and "\<And>ok s. grows L w0 (w\<lparr>sys := s\<rparr>) \<Longrightarrow> Q ok (w\<lparr>sys := s\<rparr>)"
  shows "wp (os_op os_malloc) E Q w"
  using assms(2) grows_calm [OF assms(1)] by (simp add: wp_def run_simps os_malloc_def)

lemma wp_main_enqueue:
  assumes g: "grows L w0 w" and c: "conn_map w p \<noteq> None" and a: "args_ok w a" "p_conn_info a = p"
    and Q: "\<And>w'. grows L w0 w' \<Longrightarrow> nodes (conn_ll w') = nodes (conn_ll w) \<Longrightarrow>
        mutex_conn_ll (cq w') = mutex_conn_ll (cq w) \<Longrightarrow> Q RPLIB_SUCCESS w'"
  shows "wp (rpchat_conn_info_enqueue_task p a) E Q w"
proof -
  have inv: "srv_inv L w" using g by (rule grows_inv)
  obtain c where c: "conn_map w p = Some c" using c by blast
  show ?thesis
  proof (rule wp_enqueue_task [OF moves_start [OF inv c] _ a(1)])
    fix t assume t: "queue_step a (tp w) t"
      and m: "moves L p (conn_status c) w (upd_conn p (count_job c) (w\<lparr>tp := t\<rparr>))"
    let ?w = "upd_conn p (count_job c) (w\<lparr>tp := t\<rparr>)"
    have "core ?w q = core w q" for q using c by (auto simp: view_simps core_def)
    moreover have "\<exists>ts. queued ?w = queued w @ ts" using m by (simp add: moves_def frame_def)
    moreover have "newcomers w ?w" using c by (intro newcomers_none) (auto simp: view_simps)
    ultimately have "grows L w ?w"
      using m t by (simp add: grows_def moves_def) (simp add: view_simps conn_ptrs_def queue_step_def upd_conn_def conn_ll_def)
    with g have "grows L w0 ?w" by (rule grows_trans)
    then show "Q RPLIB_SUCCESS ?w" by (rule Q) (simp_all add: view_simps)
  qed (use a(2) c in simp_all)
qed

lemma wp_main_node:
  assumes "nodes (conn_ll w) x = Some n" and "x \<noteq> NULL"
  shows "wp (load_conn_node x) E Q w \<longleftrightarrow> Q n w"
  using assms by (simp add: wp_def load_conn_node_def load_node_def conn_ll_def run_simps)

subsection \<open>Rules for the handlers\<close>

lemma wp_bindM': "wp (\<lambda>w. bindM (m w) k w) E Q v \<longleftrightarrow> wp (m v) E (\<lambda>a. wp (k a) E Q) v"
  using wp_bindM [of "m v" k E Q v] by (simp add: wp_def)

lemma wp_returnM': "wp (\<lambda>w. Some (Inr (a, w))) E Q v \<longleftrightarrow> Q a v"
  by (simp add: wp_def)

lemma heartbeat_ok: "conn_map w p \<noteq> None \<Longrightarrow> args_ok w (heartbeat_args v p)"
  by (simp add: args_ok_def heartbeat_args_def buf_ok_def)

lemma wp_audit_loop:
  assumes "ll_path (nodes (conn_ll w)) x ps NULL" and "grows L w0 w"
    and "\<And>res w'. grows L w0 w' \<Longrightarrow> Q res w'"
  shows "wp (audit_loop x res) E Q w"
  using assms(1,2)
proof (induction ps arbitrary: x w res)
  case Nil
  then show ?case by (simp add: wp_def audit_loop.simps assms(3))
next
  case (Cons a ps)
  obtain n where n: "x = a" "a \<noteq> NULL" "nodes (conn_ll w) a = Some n"
      "ll_path (nodes (conn_ll w)) (p_next_node n) ps NULL"
    using Cons.prems(1) by (elim ll_path_ConsE)
  have inv: "ll_inv (conn_ll w)" using Cons.prems(2) by (simp add: grows_def srv_inv_def)
  have live: "conn_map w (p_data n) \<noteq> None"
    using ll_inv_node(2) [OF inv n(3)] by (simp add: conn_map_def)
  have queue: "wp (rpchat_conn_info_enqueue_task (p_data n) (heartbeat_args v (p_data n))) E
      (\<lambda>res. wp (\<lambda>w3. if res \<noteq> RPLIB_SUCCESS then Some (Inr (res, w3))
                        else audit_loop (p_next_node n) res w3) E Q) v"
    if v: "grows L w0 v" "conn_ll v = conn_ll w" for v
  proof -
    have live': "conn_map v (p_data n) \<noteq> None" using v(2) live by (simp add: conn_map_def)
    show ?thesis
    proof (rule wp_main_enqueue [OF v(1) live' heartbeat_ok [OF live']])
      fix u assume "grows L w0 u" "nodes (conn_ll u) = nodes (conn_ll v)"
      then have "wp (audit_loop (p_next_node n) 0) E Q u"
        using n(4) v(2) by (intro Cons.IH) simp_all
      then show "wp (\<lambda>w3. if (0::int) \<noteq> RPLIB_SUCCESS then Some (Inr (0, w3))
                        else audit_loop (p_next_node n) 0 w3) E Q u"
        by simp
    qed (simp add: heartbeat_args_def)
  qed
  have "wp (os_op os_malloc) E (\<lambda>ok. wp (\<lambda>w2. if \<not> ok then Some (Inr (res, w2)) else
      bindM (rpchat_conn_info_enqueue_task (p_data n) (heartbeat_args w2 (p_data n))) (\<lambda>res w3.
        if res \<noteq> RPLIB_SUCCESS then Some (Inr (res, w3)) else audit_loop (p_next_node n) res w3) w2) E Q) w"
  proof (rule wp_main_malloc [OF Cons.prems(2)])
    fix ok s assume g: "grows L w0 (w\<lparr>sys := s\<rparr>)"
    show "wp (\<lambda>w2. if \<not> ok then Some (Inr (res, w2)) else
      bindM (rpchat_conn_info_enqueue_task (p_data n) (heartbeat_args w2 (p_data n))) (\<lambda>res w3.
        if res \<noteq> RPLIB_SUCCESS then Some (Inr (res, w3)) else audit_loop (p_next_node n) res w3) w2) E Q
      (w\<lparr>sys := s\<rparr>)"
      using queue [OF g] assms(3) [OF g]
      by (cases ok) (simp_all add: view_simps wp_returnM' wp_bindM')
  qed
  then have "wp (bindM (load_conn_node x) (\<lambda>n. bindM (os_op os_malloc) (\<lambda>ok w2.
          if \<not> ok then Some (Inr (res, w2))
          else bindM (rpchat_conn_info_enqueue_task (p_data n) (heartbeat_args w2 (p_data n))) (\<lambda>res w3.
              if res \<noteq> RPLIB_SUCCESS then Some (Inr (res, w3))
              else audit_loop (p_next_node n) res w3) w2))) E Q w"
    using n by (simp add: wp_bindM wp_main_node)
  then show ?case
    using n(1,2) by (simp add: wp_def) (subst audit_loop.simps, simp)
qed

lemma wp_audit:
  assumes "grows L w0 w" and "\<And>res w'. grows L w0 w' \<Longrightarrow> \<not> mutex_conn_ll (cq w') \<Longrightarrow> Q res w'"
  shows "wp rpchat_audit_connections E Q w"
proof -
  have path: "ll_path (nodes (conn_ll w)) (p_front (conn_ll w)) (ll_nodes (conn_ll w)) NULL"
    using assms(1) by (simp add: grows_def srv_inv_def ll_inv_def ll_wf_def)
  let ?w = "ll_mutex True w"
  have g: "grows L w0 ?w" using assms(1) by (simp add: grows_mutex)
  have "wp (audit_loop (p_front (conn_ll w)) 1) E (\<lambda>res w'. Q res (ll_mutex False w')) ?w"
    by (rule wp_audit_loop [OF _ g]) (use path assms(2) in \<open>simp_all add: view_simps grows_mutex\<close>)
  then show ?thesis
    unfolding rpchat_audit_connections_def wp_simps wp_unlock_ll
    by (intro wp_lock_ll) (use assms in \<open>simp add: wp_simps wp_unlock_ll view_simps grows_mutex\<close>)
qed

lemma fd_inv_del:
  "fd_inv w \<Longrightarrow> fd_inv (w\<lparr>sys := (sys w)\<lparr>interest := (interest (sys w))(fd := None)\<rparr>\<rparr>)"
  by (auto simp: fd_inv_def view_simps)

lemma wp_main_del:
  assumes "grows L w0 w"
    and "\<And>r s. grows L w0 (w\<lparr>sys := s\<rparr>) \<Longrightarrow> Q r (w\<lparr>sys := s\<rparr>)"
  shows "wp (os_op (os_epoll_del ep fd)) E Q w"
proof -
  have "srv_inv L w" using assms(1) by (rule grows_inv)
  then have "grows L w (w\<lparr>sys := (sys w)\<lparr>interest := (interest (sys w))(fd := None)\<rparr>\<rparr>)"
    by (intro grows_sys) (simp_all add: fd_inv_del srv_inv_def)
  with assms(1) have "grows L w0 (w\<lparr>sys := (sys w)\<lparr>interest := (interest (sys w))(fd := None)\<rparr>\<rparr>)"
    by (rule grows_trans)
  moreover have "Q r w" for r using assms(1) assms(2) [of "sys w"] by simp
  ultimately show ?thesis
    using assms(2) by (auto simp: wp_def run_simps os_epoll_del_def)
qed

lemma wp_signal:
  assumes "grows L w0 w" and "\<And>res w'. grows L w0 w' \<Longrightarrow> Q res w'"
  shows "wp (rpchat_handle_signal ep sig) E Q w"
proof -
  have read: "wp (os_op (rpchat_get_signal sig)) E R w"
    if "\<And>n s. grows L w0 (w\<lparr>sys := s\<rparr>) \<Longrightarrow> R n (w\<lparr>sys := s\<rparr>)" for R
    using that that [of "sys w"] grows_calm [OF assms(1)] assms(1)
    by (auto simp: wp_def run_simps rpchat_get_signal_def os_read_signal_def split: list.splits)
  show ?thesis
    unfolding rpchat_handle_signal_def wp_bindM
  proof (rule read)
    fix n s assume g: "grows L w0 (w\<lparr>sys := s\<rparr>)"
    show "wp (if n = SIGINT then thenM (os_op (os_epoll_del ep sig)) (returnM RPLIB_UNSUCCESS)
        else if n = SIGALRM then rpchat_audit_connections else returnM RPLIB_ERROR) E Q (w\<lparr>sys := s\<rparr>)"
      using wp_main_del [OF g, where Q = "\<lambda>_. Q 1"] wp_audit [OF g] assms(2)
      by (simp add: wp_simps wp_returnM_eta g)
  qed
qed

lemma wp_queue_event:
  assumes g: "grows L w0 w" and d: "ev_data ev = Data_ptr p" and p: "conn_map w p \<noteq> None"
    and Q: "\<And>w'. grows L w0 w' \<Longrightarrow> mutex_conn_ll (cq w') = mutex_conn_ll (cq w) \<Longrightarrow> Q RPLIB_SUCCESS w'"
  shows "wp (queue_event ep ev) E Q w"
proof -
  have inv: "srv_inv L w" using g by (rule grows_inv)
  obtain c where c: "conn_map w p = Some c" using p by blast
  have "wp (os_op (os_epoll_del ep (h_fd c))) E (\<lambda>_. wp (rpchat_conn_info_enqueue_task p (inbound_args ev)) E Q) w"
  proof (rule wp_main_del [OF g])
    fix s assume g': "grows L w0 (w\<lparr>sys := s\<rparr>)"
    have "args_ok (w\<lparr>sys := s\<rparr>) (inbound_args ev)"
      using c d by (simp add: args_ok_def inbound_args_def buf_ok_def view_simps)
    then show "wp (rpchat_conn_info_enqueue_task p (inbound_args ev)) E Q (w\<lparr>sys := s\<rparr>)"
      using c d Q by (intro wp_main_enqueue [OF g']) (simp_all add: view_simps inbound_args_def)
  qed
  then show ?thesis
    using d wp_load_conn [OF inv c]
    by (simp add: queue_event_def wp_simps rpchat_toggle_descriptor_def)
qed

subsection \<open>A new connection\<close>

definition new_conn :: "server \<Rightarrow> int \<Rightarrow> rpchat_conn_info" where
  "new_conn w fd = snd (rpchat_conn_info_initialize (uninit_conn w) fd (clock (sys w)))"

lemma new_conn_simps [simp]:
  "h_fd (new_conn w fd) = fd" "conn_status (new_conn w fd) = RPCHAT_CONN_PRE_REGISTER"
  "mutex_conn (new_conn w fd) = False" "pending_jobs (new_conn w fd) = 0"
  "last_active (new_conn w fd) = clock (sys w)" "str_wf (username (new_conn w fd))"
  "str_wf (stat_msg (new_conn w fd))" "str_bytes (username (new_conn w fd)) = []"
  "str_bytes (stat_msg (new_conn w fd)) = []"
  by (simp_all add: new_conn_def rpchat_conn_info_initialize_def str_wf_def str_bytes_def)

text \<open>The connection list with a connection appended under a fresh address.\<close>

lemma srv_inv_new:
  assumes inv: "srv_inv L w" and l: "ll_inv l" "bufs l = (conn_map w)(p \<mapsto> c)" and p: "conn_map w p = None"
    and fd: "\<And>q. \<not> live_on w q (h_fd c)" "open_fds (sys w) (h_fd c)"
    and L: "p \<notin> L" and c: "pending_jobs c = 0" "\<not> mutex_conn c" "str_wf (username c)" "str_wf (stat_msg c)"
  shows "srv_inv L (set_ll l w)"
proof -
  have live: "live_on (set_ll l w) q x \<longleftrightarrow>
      (if q = p then x = h_fd c \<and> conn_status c \<noteq> RPCHAT_CONN_CLOSING else live_on w q x)" for q x
    using p by (auto simp: live_on_def view_simps l(2))
  have "\<not> live_on w p x" for x using p by (simp add: live_on_def)
  then have "fd_inv (set_ll l w)"
    using inv fd by (simp add: srv_inv_def fd_inv_def live view_simps) metis
  moreover have "args_ok (set_ll l w) a" if "a \<in> set (queued w)" for a
    using that inv by (auto simp: srv_inv_def args_ok_def view_simps l(2))
  moreover have "jobs (set_ll l w) q = jobs w q" for q by (simp add: jobs_def view_simps)
  moreover have "jobs w p = 0"
    using inv p by (auto simp: jobs_def srv_inv_def args_ok_def filter_empty_conv)
  moreover have "conn_ok L p c" using L c by (simp add: conn_ok_def)
  ultimately show ?thesis using inv l c by (auto simp: srv_inv_def view_simps split: if_splits)
qed

lemma srv_inv_same:
  assumes "srv_inv L w" and "ll_inv l" and "bufs l = conn_map w"
  shows "srv_inv L (set_ll l w)"
proof -
  have "live_on (set_ll l w) = live_on w" by (simp add: live_on_def fun_eq_iff view_simps assms(3))
  then show ?thesis
    using assms by (simp add: srv_inv_def fd_inv_def view_simps args_ok_def jobs_def)
qed

lemma wp_accept:
  assumes g: "grows L w0 w"
    and fail: "\<And>s. grows L w0 (w\<lparr>sys := s\<rparr>) \<Longrightarrow> Q (- 1) (w\<lparr>sys := s\<rparr>)"
    and ok: "\<And>fd s. grows L w0 (w\<lparr>sys := s\<rparr>) \<Longrightarrow> 0 \<le> fd \<Longrightarrow> \<not> open_fds (sys w) fd \<Longrightarrow>
       open_fds s fd \<Longrightarrow> Q fd (w\<lparr>sys := s\<rparr>)"
  shows "wp (os_op (rpchat_accept_new_connection srv)) E Q w"
proof -
  have inv: "srv_inv L w" using g by (rule grows_inv)
  have "fd_inv (w\<lparr>sys := s\<rparr>)" if "interest s = interest (sys w)" "open_fds s = (open_fds (sys w))(fd := True)" for s fd
    using inv that by (simp add: srv_inv_def fd_inv_def view_simps)
  then have "grows L w0 (w\<lparr>sys := s\<rparr>)" if "interest s = interest (sys w)"
      "open_fds s = (open_fds (sys w))(fd := True)" "clock s = clock (sys w)" for s fd
    using that grows_trans [OF g grows_sys [OF inv]] by (metis no_new_service_simps(2))
  moreover have "Q (- 1) w" using fail [of "sys w"] g by simp
  moreover have "Q (- 1) (w\<lparr>sys := (sys w)\<lparr>backlog := b\<rparr>\<rparr>)" for b
    using grows_calm [OF g] by (intro fail) simp
  ultimately show ?thesis
    using ok
    by (auto simp: wp_def run_simps rpchat_accept_new_connection_def os_accept_def os_set_nonblocking_def
        split: list.splits)
qed

lemma grows_new:
  assumes inv: "srv_inv L w" and l: "ll_inv l" "bufs l = (conn_map w)(p \<mapsto> c)" "ll_ptrs l = conn_ptrs w @ [p]"
    and p: "conn_map w p = None" and "srv_inv L (set_ll l w)" and "conn_status c = RPCHAT_CONN_PRE_REGISTER"
  shows "grows L w (set_ll l w)"
proof -
  have "core (set_ll l w) q = core w q" if "conn_map w q = Some d" for q d
    using that p by (auto simp: core_def view_simps l(2))
  moreover have "newcomers w (set_ll l w)" using assms(7) by (simp add: newcomers_def view_simps l(2))
  ultimately show ?thesis using assms by (simp add: grows_def view_simps conn_ptrs_def)
qed

lemma run_ll_op: "m (conn_ll w) = Some (Inr (a, l)) \<Longrightarrow> ll_op m w = Some (Inr (a, set_ll l w))"
  by (simp add: run_simps conn_ll_def set_ll_def)

lemma fd_inv_add:
  assumes "fd_inv w" and "live_on w p fd"
  shows "fd_inv (w\<lparr>sys := (sys w)\<lparr>interest := (interest (sys w))(fd \<mapsto> conn_event p)\<rparr>\<rparr>)"
  using assms by (simp add: fd_inv_def view_simps conn_event_def)

lemma wp_main_add:
  assumes g: "grows L w0 w" and p: "live_on w p fd"
    and Q: "\<And>r s. grows L w0 (w\<lparr>sys := s\<rparr>) \<Longrightarrow> Q r (w\<lparr>sys := s\<rparr>)"
  shows "wp (os_op (os_epoll_add ep fd (conn_event p))) E Q w"
proof -
  have "srv_inv L w" using g by (rule grows_inv)
  then have "grows L w0 (w\<lparr>sys := (sys w)\<lparr>interest := (interest (sys w))(fd \<mapsto> conn_event p)\<rparr>\<rparr>)"
    using p by (intro grows_trans [OF g grows_sys]) (simp_all add: fd_inv_add srv_inv_def)
  moreover have "Q r w" for r using g Q [of "sys w"] by simp
  ultimately show ?thesis using Q by (auto simp: wp_def run_simps os_epoll_add_def)
qed

text \<open>Appending the connection object and registering its descriptor.\<close>

lemma wp_add_conn:
  assumes g: "grows L w0 w" and L: "L \<subseteq> dom (conn_map w)"
    and fd: "\<And>q. \<not> live_on w q fd" "open_fds (sys w) fd" and c: "c = new_conn v fd"
    and Q: "\<And>res w'. grows L w0 w' \<Longrightarrow> Q res w'"
  shows "wp (ll_op (rplib_ll_queue_enqueue c SIZEOF_CONN_INFO)) E
     (\<lambda>p. wp (if p = NULL then returnM RPLIB_ERROR
        else bindM (load_conn_node p) (\<lambda>n. os_op (os_epoll_add ep fd (conn_event (p_data n))))) E Q) w"
proof (cases "ll_room (conn_ll w)")
  case False
  have inv: "srv_inv L w" using g by (rule grows_inv)
  then have ll: "ll_inv (conn_ll w)" by (simp add: srv_inv_def)
  obtain l where l: "rplib_ll_queue_enqueue c SIZEOF_CONN_INFO (conn_ll w) = Some (Inr (NULL, l))"
      "ll_inv l" "ll_list l = ll_list (conn_ll w)" "bufs l = bufs (conn_ll w)"
    using enqueue_no_room [OF ll _ False, of SIZEOF_CONN_INFO c] by (auto simp: SIZEOF_CONN_INFO_def)
  have "ll_ptrs l = ll_ptrs (conn_ll w)" using arg_cong [OF l(3), of "map fst"] by simp
  moreover have "srv_inv L (set_ll l w)" using srv_inv_same [OF inv l(2)] l(4) by (simp add: conn_map_def)
  ultimately have "grows L w (set_ll l w)"
    using l(4) by (simp add: grows_def view_simps conn_ptrs_def core_def conn_map_def newcomers_def)
  then show ?thesis
    using Q [OF grows_trans [OF g]] run_ll_op [of "rplib_ll_queue_enqueue c SIZEOF_CONN_INFO" w, OF l(1)] by (simp add: wp_return wp_simps)
next
  case True
  have inv: "srv_inv L w" using g by (rule grows_inv)
  then have ll: "ll_inv (conn_ll w)" by (simp add: srv_inv_def)
  obtain p d l where l: "rplib_ll_queue_enqueue c SIZEOF_CONN_INFO (conn_ll w) = Some (Inr (p, l))"
      "p \<noteq> NULL" "ll_inv l" "ll_list l = ll_list (conn_ll w) @ [(d, c)]" "bufs (conn_ll w) d = None"
      "bufs l = (bufs (conn_ll w))(d \<mapsto> c)" "dptr l p = d" "nodes l p \<noteq> None"
    using enqueue_room [OF ll _ True, of SIZEOF_CONN_INFO c] by (auto simp: SIZEOF_CONN_INFO_def)
  obtain n where n: "nodes l p = Some n" "p_data n = d" using l(7,8) by (auto simp: dptr_def)
  have d: "conn_map w d = None" "bufs l = (conn_map w)(d \<mapsto> c)" "d \<notin> L"
    using l(5,6) L by (auto simp: conn_map_def)
  have ptrs: "ll_ptrs l = conn_ptrs w @ [d]"
    using arg_cong [OF l(4), of "map fst"] by (simp add: conn_ptrs_def)
  have "srv_inv L (set_ll l w)"
    by (rule srv_inv_new [OF inv l(3) d(2,1)]) (simp_all only: c new_conn_simps fd d not_False_eq_True)
  then have g': "grows L w0 (set_ll l w)"
    using grows_trans [OF g grows_new [OF inv l(3) d(2) ptrs d(1)]] by (simp add: c)
  have "live_on (set_ll l w) d fd" using c by (simp add: live_on_def view_simps l(6))
  then have "wp (os_op (os_epoll_add ep fd (conn_event d))) E Q (set_ll l w)"
    by (rule wp_main_add [OF g']) (rule Q)
  then show ?thesis
    using l(2) n run_ll_op [of "rplib_ll_queue_enqueue c SIZEOF_CONN_INFO" w, OF l(1)] by (simp add: wp_return wp_simps wp_main_node view_simps)
qed

lemma wp_new_connection:
  assumes g: "grows L w0 w" and L: "L \<subseteq> dom (conn_map w)"
    and Q: "\<And>res w'. grows L w0 w' \<Longrightarrow> Q res w'"
  shows "wp (rpchat_handle_new_connection srv ep) E Q w"
  unfolding rpchat_handle_new_connection_def wp_bindM wp_thenM wp_unlock_ll wp_returnM
proof (rule wp_accept [OF g])
  fix s assume g1: "grows L w0 (w\<lparr>sys := s\<rparr>)"
  then have "Q (- 1) (ll_mutex False (w\<lparr>sys := s\<rparr>))" by (intro Q) (simp add: grows_mutex)
  then show "wp (if 0 > (- 1 :: int) then returnM RPLIB_ERROR else X) E
      (\<lambda>res w. Q res (ll_mutex False w)) (w\<lparr>sys := s\<rparr>)" for X
    by (simp add: wp_simps)
next
  fix fd s
  define w1 where "w1 = w\<lparr>sys := s\<rparr>"
  define w2 where "w2 = ll_mutex True w1"
  assume "grows L w0 (w\<lparr>sys := s\<rparr>)" and fd: "0 \<le> fd" "\<not> open_fds (sys w) fd" "open_fds s fd"
  then have g2: "grows L w0 w2" by (simp add: w2_def w1_def grows_mutex)
  let ?c = "new_conn w1 fd"
  let ?add = "\<lambda>p_new_node. if p_new_node = NULL then returnM RPLIB_ERROR
     else bindM (load_conn_node p_new_node) (\<lambda>n. os_op (os_epoll_add ep fd (conn_event (p_data n))))"
  have "wp (ll_op (rplib_ll_queue_enqueue ?c SIZEOF_CONN_INFO)) E
      (\<lambda>p. wp (?add p) E (\<lambda>res w. Q res (ll_mutex False w))) w2"
  proof (rule wp_add_conn [OF g2])
    show "L \<subseteq> dom (conn_map w2)" using L by (simp add: w2_def w1_def view_simps)
    have "fd_inv w" using g by (simp add: grows_def srv_inv_def)
    then show "\<not> live_on w2 q fd" for q
      using fd(2) by (auto simp: fd_inv_def w2_def w1_def view_simps)
    show "open_fds (sys w2) fd" using fd(3) by (simp add: w2_def w1_def view_simps)
    show "Q res (ll_mutex False w')" if "grows L w0 w'" for res w'
      using that by (intro Q) (simp add: grows_mutex)
  qed (rule refl)
  then have "wp lock_conn_ll E (\<lambda>_. wp (bindM (ll_op (rplib_ll_queue_enqueue ?c SIZEOF_CONN_INFO)) ?add) E
      (\<lambda>res w. Q res (ll_mutex False w))) w1"
    by (intro wp_lock_ll) (simp only: wp_bindM w2_def)
  then show "wp (if 0 > fd then returnM RPLIB_ERROR
        else bindM (os_op os_time) (\<lambda>now. bindM (getsM uninit_conn) (\<lambda>junk.
          let new_conn_info = snd (rpchat_conn_info_initialize junk fd now) in
          thenM lock_conn_ll
            (bindM (ll_op (rplib_ll_queue_enqueue new_conn_info SIZEOF_CONN_INFO)) ?add)))) E
      (\<lambda>res w. Q res (ll_mutex False w)) (w\<lparr>sys := s\<rparr>)"
    using fd(1)
    by (simp add: wp_simps wp_zoomM os_time_def Let_def w1_def new_conn_def)
qed

subsection \<open>The batch of events\<close>

text \<open>
  Events as \<open>epoll_wait\<close> reports them: the ones registered by pointer point to live
  connections, the others carry one of the two service descriptors.
\<close>

definition event_ok :: "int \<Rightarrow> int \<Rightarrow> server \<Rightarrow> epoll_event \<Rightarrow> bool" where
  "event_ok srv sig w ev \<longleftrightarrow>
     (case ev_data ev of Data_fd fd \<Rightarrow> fd = srv \<or> fd = sig | Data_ptr p \<Rightarrow> conn_map w p \<noteq> None)"

lemma event_ok_grows: "grows L w w' \<Longrightarrow> event_ok srv sig w ev \<Longrightarrow> event_ok srv sig w' ev"
  by (auto simp: event_ok_def dest: grows_live split: epoll_data.splits)

lemma dom_grows: "grows L w w' \<Longrightarrow> L \<subseteq> dom (conn_map w) \<Longrightarrow> L \<subseteq> dom (conn_map w')"
  using grows_live by fastforce

lemma wp_events_loop:
  assumes "grows L w0 w" and "L \<subseteq> dom (conn_map w)" and "\<forall>ev \<in> set evs. event_ok srv sig w ev"
    and Q: "\<And>res w'. grows L w0 w' \<Longrightarrow> Q res w'"
  shows "wp (events_loop srv ep sig evs res) E Q w"
  using assms(1-3)
proof (induction evs arbitrary: w res)
  case Nil
  then show ?case by (simp add: wp_simps Q)
next
  case (Cons ev evs)
  note g = Cons.prems(1)
  have inv: "srv_inv L w" using g by (rule grows_inv)
  have g0: "grows L w w" using inv by (rule grows_refl)
  have rest: "wp (events_loop srv ep sig evs res) E Q w'" if "grows L w w'" for w' res
    using grows_trans [OF g that] dom_grows [OF that Cons.prems(2)] Cons.prems(3) event_ok_grows [OF that]
    by (intro Cons.IH) auto
  have stop: "Q res w'" if "grows L w w'" for w' res by (rule Q) (rule grows_trans [OF g that])
  have sig: "wp (rpchat_handle_signal ep sig) E (\<lambda>res. wp (if res = RPLIB_SUCCESS
      then events_loop srv ep sig evs res else returnM res) E Q) w"
    by (rule wp_signal [OF g0]) (simp add: wp_simps rest stop)
  have new: "wp (rpchat_handle_new_connection srv ep) E (\<lambda>res. wp (if res \<noteq> RPLIB_SUCCESS
      then returnM res else events_loop srv ep sig evs res) E Q) w"
    by (rule wp_new_connection [OF g0 Cons.prems(2)]) (simp add: wp_simps rest stop)
  have conn: "wp (os_op os_malloc) E (\<lambda>ok. wp (if \<not> ok then returnM res
      else bindM (queue_event ep ev) (\<lambda>res. events_loop srv ep sig evs res)) E Q) w"
    if other: "sig \<noteq> data_fd (ev_data ev)" "srv \<noteq> data_fd (ev_data ev)"
  proof (rule wp_main_malloc [OF g0])
    fix ok s assume s: "grows L w (w\<lparr>sys := s\<rparr>)"
    obtain p where p: "ev_data ev = Data_ptr p" "conn_map w p \<noteq> None"
      using other Cons.prems(3) by (cases "ev_data ev") (auto simp: event_ok_def)
    have "wp (queue_event ep ev) E (\<lambda>res. wp (events_loop srv ep sig evs res) E Q) (w\<lparr>sys := s\<rparr>)"
      by (rule wp_queue_event [OF s p(1)]) (use p rest in \<open>simp_all add: view_simps\<close>)
    then show "wp (if \<not> ok then returnM res
      else bindM (queue_event ep ev) (\<lambda>res. events_loop srv ep sig evs res)) E Q (w\<lparr>sys := s\<rparr>)"
      using stop [OF s] by (simp add: wp_simps)
  qed
  consider "sig = data_fd (ev_data ev)" | "sig \<noteq> data_fd (ev_data ev)" "srv = data_fd (ev_data ev)"
    | "sig \<noteq> data_fd (ev_data ev)" "srv \<noteq> data_fd (ev_data ev)" by blast
  then show ?case
  proof cases
    case 1
    show ?thesis unfolding events_loop.simps if_P [OF 1] wp_bindM by (rule sig)
  next
    case 2
    show ?thesis unfolding events_loop.simps if_not_P [OF 2(1)] if_P [OF 2(2)] wp_bindM by (rule new)
  next
    case 3
    show ?thesis
      unfolding events_loop.simps if_not_P [OF 3(1)] if_not_P [OF 3(2)] wp_bindM
      by (rule conn [OF 3, unfolded wp_bindM])
  qed
qed

end
