(* ===== verification/Chat_Server.thy ===== *)
theory Chat_Server
  imports Basic_Chat
begin

text \<open>
  The server as a whole: the thread pool's start, wait and destruction as the main thread sees
  them, the main loop and \<open>rpchat_begin_chat_server\<close>, and the step relation in which the main
  thread, the workers and the environment take turns.

  Threads take turns at the granularity of one round of a worker and one call of
  \<open>rpchat_handle_events\<close>; the interleaving inside the thread pool's own code is the subject of
  \<open>Tpool_Threads\<close>. What happens while the main thread waits in \<open>epoll_wait\<close> is a list of
  turns, and which descriptors \<open>epoll_wait\<close> then reports is an input; the reported events
  are read off the interest list.
\<close>

subsection \<open>The environment\<close>

datatype env_event =
    Arrive int "byte list"
  | Hang_up int
  | Incoming int
  | Raise int
  | Tick nat
  | Answers "bool list" "int list" "nat \<Rightarrow> byte" epoll_event
  | Allocs "bool list" "bool list"

text \<open>
  Bytes arrive, a peer closes its end, a connection request with the descriptor it will get,
  a signal, time passes, and what the kernel and the allocator will answer next.
\<close>

fun env_apply :: "env_event \<Rightarrow> server \<Rightarrow> server" where
  "env_apply (Arrive fd bs) w = w\<lparr>sys := (sys w)\<lparr>rx := (rx (sys w))(fd := rx (sys w) fd @ bs)\<rparr>\<rparr>"
| "env_apply (Hang_up fd) w = w\<lparr>sys := (sys w)\<lparr>peer_closed := (peer_closed (sys w))(fd := True)\<rparr>\<rparr>"
| "env_apply (Incoming fd) w = w\<lparr>sys := (sys w)\<lparr>backlog := backlog (sys w) @ [fd]\<rparr>\<rparr>"
| "env_apply (Raise n) w = w\<lparr>sys := (sys w)\<lparr>signals := signals (sys w) @ [n]\<rparr>\<rparr>"
| "env_apply (Tick n) w = w\<lparr>sys := (sys w)\<lparr>clock := clock (sys w) + int n\<rparr>\<rparr>"
| "env_apply (Answers hs ss junk ev) w =
     w\<lparr>sys := (sys w)\<lparr>heap_results := hs, send_results := ss, uninit := junk, uninit_event := ev\<rparr>\<rparr>"
| "env_apply (Allocs ms ns) w =
     w\<lparr>cq := (cq w)\<lparr>p_conn_ll := (p_conn_ll (cq w))\<lparr>mallocs := ms\<rparr>\<rparr>,
       tp := (tp w)\<lparr>p_queue_tasks := (p_queue_tasks (tp w))\<lparr>mallocs := ns\<rparr>\<rparr>\<rparr>"

datatype turn = Worker | Env env_event

text \<open>A turn of a worker that does not come back (an empty queue, a held lock) is not a run.\<close>

definition run_turn :: "nat \<Rightarrow> turn \<Rightarrow> (server, unit) prog" where
  "run_turn started t =
     (case t of
        Worker \<Rightarrow> if started = 0 then blockM else thenM worker_step (returnM ())
      | Env e \<Rightarrow> modifyM (env_apply e))"

fun run_turns :: "nat \<Rightarrow> turn list \<Rightarrow> (server, unit) prog" where
  "run_turns started [] = returnM ()"
| "run_turns started (t # ts) = thenM (run_turn started t) (run_turns started ts)"

subsection \<open>Starting, waiting for and destroying the pool\<close>

text \<open>
  \<open>rplib_tpool_start\<close>: the results of \<open>pthread_create\<close> (a missing one is 0). Besides the result it
  gives the number of threads that run. Without the array of thread handles \<open>pthread_create\<close> stores
  through NULL.
\<close>

fun start_loop :: "nat \<Rightarrow> int list \<Rightarrow> int \<times> nat" where
  "start_loop 0 rs = (RPLIB_SUCCESS, 0)"
| "start_loop (Suc n) rs =
     (if rs \<noteq> [] \<and> hd rs \<noteq> 0 then (RPLIB_UNSUCCESS, 0)
      else let (res, k) = start_loop n (tl rs) in (res, Suc k))"

definition rplib_tpool_start :: "chat_tpool \<Rightarrow> int list \<Rightarrow> fault + int \<times> nat" where
  "rplib_tpool_start p_tpool results =
     (if 0 < num_threads p_tpool \<and> \<not> p_thread_buf p_tpool then Inl NullDeref
      else Inr (start_loop (num_threads p_tpool) results))"

text \<open>
  How the other threads meet the destruction of the pool, which a server of whole rounds leaves open and
  \<open>Tpool_Threads\<close> models step by step. \<open>st_wait\<close> has an entry for each test of the loop in
  \<open>rplib_tpool_wait\<close>: the value of \<open>num_threads_busy\<close> the owner reads, and what happens until
  it is woken for the next test. \<open>st_join\<close> says of each thread whether it gets to see the termination flag: one that
  had tested the flag but did not sleep yet when it was set and broadcast sleeps for good.
\<close>

record stop_script =
  st_wait :: "(64 word \<times> turn list) list"
  st_join :: "bool list"

text \<open>
  \<open>rplib_tpool_wait\<close>: the loop tests both counters and waits on the condition variable otherwise. When no entry is
  left the owner is not woken any more.
\<close>

fun rplib_tpool_wait :: "nat \<Rightarrow> (64 word \<times> turn list) list \<Rightarrow> (server, int) prog" where
  "rplib_tpool_wait started [] = blockM"
| "rplib_tpool_wait started ((busy, meanwhile) # tests) =
     bindM (getsM (\<lambda>w. q_size (p_queue_tasks (tp w)))) (\<lambda>size.
     if busy \<noteq> 0 \<or> size \<noteq> 0 then thenM (run_turns started meanwhile) (rplib_tpool_wait started tests)
     else returnM RPLIB_SUCCESS)"

text \<open>
  \<open>pthread_join\<close> on a thread that was started waits for the round in which it sees the
  termination flag, if it gets to it; on one that was not started it is undefined.
\<close>

fun join_threads :: "nat \<Rightarrow> nat \<Rightarrow> bool list \<Rightarrow> (server, unit) prog" where
  "join_threads 0 started sees = returnM ()"
| "join_threads (Suc n) 0 sees = faultM BadThread"
| "join_threads (Suc n) (Suc started) sees =
     (if sees \<noteq> [] \<and> hd sees then thenM worker_step (join_threads n started (tl sees)) else blockM)"

definition rplib_tpool_destroy :: "nat \<Rightarrow> bool \<Rightarrow> stop_script \<Rightarrow> (server, int) prog" where
  "rplib_tpool_destroy started b_shutdown_immediate stop =
     thenM (if \<not> b_shutdown_immediate then thenM (rplib_tpool_wait started (st_wait stop)) (returnM ())
            else returnM ())
     (thenM (tp_op (modifyM (\<lambda>s. s\<lparr>b_terminate := True\<rparr>)))
     (bindM (getsM (\<lambda>w. num_threads (tp w))) (\<lambda>n.
      thenM (join_threads n started (st_join stop))
      (tp_op (tasks_op rplib_ll_queue_destroy)))))"

subsection \<open>The main loop\<close>

definition RPCHAT_NUM_THREADS :: nat where
  "RPCHAT_NUM_THREADS = 4"

text \<open>
  One pass: whether the event buffer could be allocated, what happens meanwhile, whether
  \<open>epoll_wait\<close> fails (and whether with \<open>EINTR\<close>), and which descriptors it finds ready, with
  their event bits.
\<close>

record wait_result =
  wr_calloc :: bool
  wr_meanwhile :: "turn list"
  wr_error :: "bool option"
  wr_fds :: "(int \<times> 32 word) list"

definition ready_events :: "(int \<times> 32 word) list \<Rightarrow> os \<Rightarrow> epoll_event list" where
  "ready_events fds s =
     List.map_filter
       (\<lambda>(fd, bits). map_option (\<lambda>reg. \<lparr>ev_events = bits, ev_data = ev_data reg\<rparr>) (interest s fd)) fds"

text \<open>
  \<open>epoll_wait\<close> refuses a non-positive \<open>maxevents\<close>, the \<open>int\<close> that \<open>max_connections\<close> is
  converted to. With nothing to report it does not return.
\<close>

definition os_epoll_wait :: "32 word \<Rightarrow> wait_result \<Rightarrow> (os, int \<times> epoll_event list) prog" where
  "os_epoll_wait maxevents r s =
     (if sint maxevents \<le> 0 \<or> wr_error r \<noteq> None then Some (Inr ((- 1, []), s))
      else let evs = take (unat maxevents) (ready_events (wr_fds r) s) in
           if evs = [] then None else Some (Inr ((int (length evs), evs), s)))"

definition notice :: "(server, unit) prog" where
  "notice = os_op (os_printf (lit (NEWLINE @ ''Notice: Shutting down..'' @ NEWLINE)))"

fun server_loop :: "int \<Rightarrow> int \<Rightarrow> int \<Rightarrow> nat \<Rightarrow> 32 word \<Rightarrow> wait_result list \<Rightarrow> (server, int) prog" where
  "server_loop srv ep sig started max_connections [] = blockM"
| "server_loop srv ep sig started max_connections (r # rs) =
     (if \<not> wr_calloc r then returnM RPLIB_ERROR
      else
        thenM (run_turns started (wr_meanwhile r))
        (bindM (os_op (os_epoll_wait max_connections r)) (\<lambda>(ready, evs).
         let loop_res = rpchat_monitor_connections ready (0 < sint max_connections \<and> wr_error r = Some True) in
         if loop_res = RPLIB_ERROR then thenM notice (returnM RPLIB_UNSUCCESS)
         else
           bindM (rpchat_handle_events evs srv ep sig) (\<lambda>loop_res.
           if loop_res = RPLIB_UNSUCCESS then thenM notice (returnM RPLIB_SUCCESS)
           else server_loop srv ep sig started max_connections rs))))"

definition run_server ::
  "int \<Rightarrow> int \<Rightarrow> int \<Rightarrow> nat \<Rightarrow> 32 word \<Rightarrow> wait_result list \<Rightarrow> stop_script \<Rightarrow> (server, int) prog" where
  "run_server srv ep sig started max_connections script stop =
     bindM (server_loop srv ep sig started max_connections script) (\<lambda>res.
     thenM (rplib_tpool_destroy started False stop)
     (thenM rpchat_conn_queue_destroy
     (thenM (if 0 < ep then os_op (rpchat_stop_networking ep srv sig) else returnM ())
     (returnM res))))"

subsection \<open>\<open>rpchat_begin_chat_server\<close>\<close>

record boot =
  b_setup :: "32 word \<Rightarrow> setup_results"
  b_pool_ok :: bool
  b_tasks_ok :: bool
  b_thread_buf_ok :: bool
  b_tasks_mallocs :: "bool list"
  b_pool_inits :: "int list"
  b_queue_ok :: bool
  b_conns_ok :: bool
  b_conns_mallocs :: "bool list"
  b_server_str :: rpchat_string
  b_threads :: "int list"

text \<open>
  Without a connection queue the pool is destroyed before it was started, and its threads are
  joined all the same; a pool whose task queue or array of thread handles could not be allocated
  holds NULL in its place.
\<close>

definition rpchat_begin_chat_server ::
  "32 word \<Rightarrow> 32 word \<Rightarrow> boot \<Rightarrow> wait_result list \<Rightarrow> stop_script \<Rightarrow> (os, int) prog" where
  "rpchat_begin_chat_server port_num max_connections b script stop =
     bindM (rpchat_begin_networking (b_setup b port_num)) (\<lambda>(res, srv, ep, sig).
     if 0 > ep then returnM res
     else
       case rplib_tpool_create RPCHAT_NUM_THREADS (b_pool_ok b) (b_tasks_ok b) (b_thread_buf_ok b) (b_tasks_mallocs b)
              (b_pool_inits b) of
         None \<Rightarrow> blockM
       | Some (Inl e) \<Rightarrow> faultM e
       | Some (Inr None) \<Rightarrow>
           thenM (if 0 < ep then rpchat_stop_networking ep srv sig else returnM ()) (returnM res)
       | Some (Inr (Some None)) \<Rightarrow> faultM NullDeref
       | Some (Inr (Some (Some pool))) \<Rightarrow>
           (case rpchat_conn_queue_create ep (b_queue_ok b) (b_conns_ok b) (b_conns_mallocs b)
                   (b_server_str b) of
              None \<Rightarrow> faultM (if p_thread_buf pool then BadThread else NullDeref)
            | Some queue \<Rightarrow>
                (case rplib_tpool_start pool (b_threads b) of
                   Inl e \<Rightarrow> faultM e
                 | Inr (_, started) \<Rightarrow>
                     (\<lambda>s. case run_server srv ep sig started max_connections script stop
                                 \<lparr>cq = queue, tp = pool, sys = s\<rparr> of
                            None \<Rightarrow> None
                          | Some (Inl e) \<Rightarrow> Some (Inl e)
                          | Some (Inr (res, w)) \<Rightarrow> Some (Inr (res, sys w))))))"

subsection \<open>The step relation\<close>

text \<open>
  An event that \<open>epoll_wait\<close> can report in state \<open>w\<close>: some descriptor is registered with this
  data.
\<close>

definition reported :: "server \<Rightarrow> epoll_event \<Rightarrow> bool" where
  "reported w ev \<longleftrightarrow> (\<exists>fd reg. interest (sys w) fd = Some reg \<and> ev_data ev = ev_data reg)"

inductive chat_step :: "int \<Rightarrow> int \<Rightarrow> int \<Rightarrow> server \<Rightarrow> server \<Rightarrow> bool" for srv ep sig where
  worker: "worker_step w = Some (Inr (go, w')) \<Longrightarrow> chat_step srv ep sig w w'"
| events: "rpchat_handle_events evs srv ep sig w = Some (Inr (res, w')) \<Longrightarrow>
     \<forall>ev \<in> set evs. reported w ev \<Longrightarrow> chat_step srv ep sig w w'"
| env: "chat_step srv ep sig w (env_apply e w)"

text \<open>
  The invariant of the whole server: the invariant of the rounds with no lock held, the pool
  has its threads, and only the two service descriptors are registered by number.
\<close>

definition chat_inv :: "int \<Rightarrow> int \<Rightarrow> server \<Rightarrow> bool" where
  "chat_inv srv sig w \<longleftrightarrow>
     srv_inv {} w \<and> num_threads (tp w) = RPCHAT_NUM_THREADS \<and>
     (\<forall>fd ev x. interest (sys w) fd = Some ev \<longrightarrow> ev_data ev = Data_fd x \<longrightarrow> x = srv \<or> x = sig)"

lemma chat_inv_srv: "chat_inv srv sig w \<Longrightarrow> srv_inv {} w"
  by (simp add: chat_inv_def)

lemma chat_inv_mono:
  "chat_inv srv sig w \<Longrightarrow> srv_inv {} w' \<Longrightarrow> no_new_service (sys w) (sys w') \<Longrightarrow>
   pool_flags (tp w') = pool_flags (tp w) \<Longrightarrow> chat_inv srv sig w'"
  unfolding chat_inv_def no_new_service_def pool_flags_def by (metis prod.inject)

lemma reported_ok:
  assumes "chat_inv srv sig w" and "reported w ev"
  shows "event_ok srv sig w ev"
proof -
  obtain fd reg where r: "interest (sys w) fd = Some reg" "ev_data ev = ev_data reg"
    using assms(2) by (auto simp: reported_def)
  show ?thesis
  proof (cases "ev_data reg")
    case (Data_fd x)
    then show ?thesis using r assms(1) by (auto simp: event_ok_def chat_inv_def)
  next
    case (Data_ptr p)
    have "fd_inv w" using assms(1) by (simp add: chat_inv_def srv_inv_def)
    then have "live_on w p fd" using r Data_ptr unfolding fd_inv_def by blast
    then have "conn_map w p \<noteq> None" unfolding live_on_def by (elim exE conjE) simp
    then show ?thesis using r Data_ptr by (simp add: event_ok_def)
  qed
qed

subsection \<open>Every step keeps the invariant\<close>

lemma wp_worker_inv:
  assumes "chat_inv srv sig w"
  shows "wp worker_step tolerated (\<lambda>_. chat_inv srv sig) w"
proof (rule wp_mono [OF wp_worker_step [OF chat_inv_srv [OF assms]]])
  fix go w' assume post: "round_post {} w go w'"
  show "chat_inv srv sig w'"
  proof (cases go)
    case True
    with post obtain a w1 c where r: "round_start w a w1" "conn_map w (p_conn_info a) = Some c"
        "task_post {} (p_conn_info a) (conn_status c) (timed_out a c w) w1 w'"
      unfolding round_post_def by (simp only: if_True) (elim exE conjE)
    have "srv_inv {} w'" using r(3) by (rule round_inv)
    moreover have "no_new_service (sys w) (sys w')"
      using round_frame [OF r] unfolding round_frame_def os_frame_def by (elim conjE)
    moreover have "pool_flags (tp w') = pool_flags (tp w)"
      using round_frame [OF r] unfolding round_frame_def by (elim conjE)
    ultimately show ?thesis by (rule chat_inv_mono [OF assms])
  qed (use assms post in \<open>simp add: round_post_def\<close>)
qed

lemma wp_events_inv:
  assumes "chat_inv srv sig w" and "\<forall>ev \<in> set evs. reported w ev"
  shows "wp (rpchat_handle_events evs srv ep sig) E (\<lambda>_ w'. chat_inv srv sig w' \<and> grows {} w w') w"
  unfolding rpchat_handle_events_def
proof (rule wp_events_loop)
  show "grows {} w w" using assms(1) by (intro grows_refl) (rule chat_inv_srv)
  show "\<forall>ev \<in> set evs. event_ok srv sig w ev" using assms reported_ok by blast
  show "chat_inv srv sig w' \<and> grows {} w w'" if "grows {} w w'" for w'
    using that assms(1) by (auto simp: grows_def intro: chat_inv_mono)
qed simp

lemma ll_mallocs [simp]:
  "ll_inv (l\<lparr>mallocs := ms\<rparr>) = ll_inv l" "ll_list (l\<lparr>mallocs := ms\<rparr>) = ll_list l"
  "ll_ptrs (l\<lparr>mallocs := ms\<rparr>) = ll_ptrs l"
  by (simp_all add: ll_inv_def ll_wf_def ll_list_def ll_ptrs_def ll_nodes_def dptr_def [abs_def])

lemma env_views:
  "conn_map (env_apply e w) = conn_map w" "conn_ptrs (env_apply e w) = conn_ptrs w"
  "queued (env_apply e w) = queued w" "interest (sys (env_apply e w)) = interest (sys w)"
  "open_fds (sys (env_apply e w)) = open_fds (sys w)"
  "mutex_task_queue (tp (env_apply e w)) = mutex_task_queue (tp w)"
  "pool_flags (tp (env_apply e w)) = pool_flags (tp w)"
  "num_threads (tp (env_apply e w)) = num_threads (tp w)"
  "server_str (cq (env_apply e w)) = server_str (cq w)"
  "ll_inv (conn_ll (env_apply e w)) = ll_inv (conn_ll w)"
  "tpool_inv (tp (env_apply e w)) = tpool_inv (tp w)"
  by (cases e; simp add: conn_map_def conn_ptrs_def conn_ll_def queued_def tpool_tasks_def)+

lemma env_srv_inv: "srv_inv L w \<Longrightarrow> srv_inv L (env_apply e w)"
proof -
  assume inv: "srv_inv L w"
  have "live_on (env_apply e w) = live_on w" by (simp add: live_on_def env_views fun_eq_iff)
  moreover have "jobs (env_apply e w) = jobs w" by (simp add: jobs_def env_views fun_eq_iff)
  moreover have "args_ok (env_apply e w) = args_ok w" by (simp add: args_ok_def env_views fun_eq_iff)
  ultimately show ?thesis
    using inv by (simp add: srv_inv_def fd_inv_def env_views)
qed

lemma env_inv: "chat_inv srv sig w \<Longrightarrow> chat_inv srv sig (env_apply e w)"
  by (simp add: chat_inv_def env_srv_inv env_views)

lemma chat_step_inv: "chat_step srv ep sig w w' \<Longrightarrow> chat_inv srv sig w \<Longrightarrow> chat_inv srv sig w'"
proof (induction rule: chat_step.induct)
  case (worker w go w')
  from wp_D [OF wp_worker_inv [OF worker(2)] worker(1)] show ?case .
next
  case (events evs w res w')
  from wp_D [OF wp_events_inv [OF events(3,2)] events(1)] show ?case ..
qed (rule env_inv)

interpretation chat: step_system "chat_step srv ep sig" "chat_inv srv sig" for srv ep sig
  by unfold_locales (rule chat_step_inv)

subsection \<open>The main loop and the shutdown keep the invariant\<close>

lemma wp_run_turn:
  "chat_inv srv sig w \<Longrightarrow> wp (run_turn started t) tolerated (\<lambda>_. chat_inv srv sig) w"
  using wp_worker_inv [of srv sig w]
  by (cases t) (auto simp: run_turn_def wp_simps wp_returnM_eta env_inv)

text \<open>What every single turn keeps, a sequence of turns keeps.\<close>

lemma wp_run_turns_rule:
  assumes "\<And>v t. I v \<Longrightarrow> wp (run_turn started t) E (\<lambda>_. I) v"
  shows "I w \<Longrightarrow> wp (run_turns started ts) E (\<lambda>_. I) w"
proof (induction ts arbitrary: w)
  case (Cons t ts)
  show ?case unfolding run_turns.simps wp_thenM
    by (rule wp_mono [OF assms [OF Cons.prems]]) (rule Cons.IH)
qed (simp add: wp_simps)

lemma wp_run_turns:
  "chat_inv srv sig w \<Longrightarrow> wp (run_turns started ts) tolerated (\<lambda>_. chat_inv srv sig) w"
  by (rule wp_run_turns_rule [where I = "chat_inv srv sig"]) (rule wp_run_turn)

lemma ready_reported: "ev \<in> set (ready_events fds (sys w)) \<Longrightarrow> reported w ev"
  by (auto simp: ready_events_def List.map_filter_def reported_def) blast

lemma srv_inv_fd: "srv_inv L w \<Longrightarrow> fd_inv w"
  by (simp add: srv_inv_def)

lemma chat_inv_log:
  "chat_inv srv sig w \<Longrightarrow> chat_inv srv sig (w\<lparr>sys := (sys w)\<lparr>log_out := l\<rparr>\<rparr>)"
  by (rule chat_inv_mono [of srv sig w])
    (simp_all add: srv_inv_sys fd_inv_same srv_inv_fd [OF chat_inv_srv] chat_inv_srv)

lemma wp_notice: "chat_inv srv sig w \<Longrightarrow> wp notice E (\<lambda>_. chat_inv srv sig) w"
  by (simp add: notice_def wp_zoomM os_printf_def wp_simps chat_inv_log)

lemma wp_server_loop:
  "chat_inv srv sig w \<Longrightarrow>
   wp (server_loop srv ep sig started mx script) tolerated
     (\<lambda>res w'. chat_inv srv sig w' \<and> - 1 \<le> res \<and> res \<le> 1) w"
proof (induction script arbitrary: w)
  case (Cons r rs)
  let ?Q = "\<lambda>res w'. chat_inv srv sig w' \<and> - 1 \<le> res \<and> res \<le> 1"
  have stop: "wp (thenM notice (returnM res)) tolerated ?Q v"
    if "chat_inv srv sig v" "- 1 \<le> res" "res \<le> 1" for res :: int and v
    using wp_notice [OF that(1)] that(2,3) by (simp add: wp_thenM wp_returnM_eta)
  have handle: "wp (rpchat_handle_events evs srv ep sig) tolerated (\<lambda>res. wp (if res = RPLIB_UNSUCCESS
      then thenM notice (returnM RPLIB_SUCCESS) else server_loop srv ep sig started mx rs) tolerated ?Q) v"
    if "chat_inv srv sig v" "\<forall>ev \<in> set evs. reported v ev" for evs v
    by (rule wp_mono [OF wp_events_inv [OF that]]) (use stop Cons.IH in \<open>simp add: wp_if\<close>)
  have wait: "wp (os_op (os_epoll_wait mx r)) tolerated (\<lambda>(ready, evs). wp
         (let loop_res = rpchat_monitor_connections ready (0 < sint mx \<and> wr_error r = Some True) in
         if loop_res = RPLIB_ERROR then thenM notice (returnM RPLIB_UNSUCCESS)
         else
           bindM (rpchat_handle_events evs srv ep sig) (\<lambda>loop_res.
           if loop_res = RPLIB_UNSUCCESS then thenM notice (returnM RPLIB_SUCCESS)
           else server_loop srv ep sig started mx rs)) tolerated ?Q) v"
    if v: "chat_inv srv sig v" for v
  proof -
    have evs: "\<forall>ev \<in> set (take n (ready_events (wr_fds r) (sys v))). reported v ev" for n
      by (auto dest!: in_set_takeD intro: ready_reported)
    have "wp (let loop_res = rpchat_monitor_connections ready e in
         if loop_res = RPLIB_ERROR then thenM notice (returnM RPLIB_UNSUCCESS)
         else
           bindM (rpchat_handle_events evs srv ep sig) (\<lambda>loop_res.
           if loop_res = RPLIB_UNSUCCESS then thenM notice (returnM RPLIB_SUCCESS)
           else server_loop srv ep sig started mx rs)) tolerated ?Q v"
      if "\<forall>ev \<in> set evs. reported v ev" for ready e evs
      using stop [OF v, of 1] handle [OF v that]
      by (cases "rpchat_monitor_connections ready e = RPLIB_ERROR") (simp_all only: Let_def wp_bindM if_True if_False, simp)
    then show ?thesis
      using evs by (simp add: wp_def [of "os_op _"] run_simps os_epoll_wait_def Let_def [of "take _ _"])
  qed
  have "wp (run_turns started (wr_meanwhile r)) tolerated (\<lambda>_. wp (bindM (os_op (os_epoll_wait mx r)) (\<lambda>(ready, evs).
         let loop_res = rpchat_monitor_connections ready (0 < sint mx \<and> wr_error r = Some True) in
         if loop_res = RPLIB_ERROR then thenM notice (returnM RPLIB_UNSUCCESS)
         else
           bindM (rpchat_handle_events evs srv ep sig) (\<lambda>loop_res.
           if loop_res = RPLIB_UNSUCCESS then thenM notice (returnM RPLIB_SUCCESS)
           else server_loop srv ep sig started mx rs))) tolerated ?Q) w"
    by (rule wp_mono [OF wp_run_turns [OF Cons.prems]]) (use wait in \<open>simp add: wp_bindM split_def\<close>)
  then show ?case
    using Cons.prems by (cases "wr_calloc r") (simp_all add: wp_thenM wp_returnM)
qed (simp add: wp_simps)

text \<open>What every turn keeps holds when the wait is over, and then the queue is empty.\<close>

lemma wp_wait_rule:
  assumes turn: "\<And>v t. I v \<Longrightarrow> wp (run_turn started t) E (\<lambda>_. I) v"
  shows "I w \<Longrightarrow> wp (rplib_tpool_wait started tests) E (\<lambda>_ w'. I w' \<and> q_size (p_queue_tasks (tp w')) = 0) w"
proof (induction tests arbitrary: w)
  case (Cons test tests)
  obtain busy ts where test: "test = (busy, ts)" by (cases test)
  have "wp (run_turns started ts) E
      (\<lambda>_. wp (rplib_tpool_wait started tests) E (\<lambda>_ w'. I w' \<and> q_size (p_queue_tasks (tp w')) = 0)) w"
    using Cons.prems by (intro wp_mono [OF wp_run_turns_rule [where I = I, OF turn]] Cons.IH)
  then show ?case using Cons.prems by (simp add: test wp_simps)
qed (simp add: wp_simps)

lemma wp_tpool_wait:
  assumes "chat_inv srv sig w"
  shows "wp (rplib_tpool_wait started tests) tolerated (\<lambda>_. chat_inv srv sig) w"
  by (rule wp_mono [OF wp_wait_rule [where I = "chat_inv srv sig", OF wp_run_turn assms]]) simp_all

text \<open>A worker that sees the termination flag stops and changes nothing.\<close>

lemma worker_stops:
  assumes "b_terminate (tp w)" and "worker_step w = Some r"
  shows "r = Inr (False, w)"
proof -
  have "\<not> mutex_task_queue (tp w)"
    using assms by (auto simp: worker_step_def run_simps tpool_take_task_def lock_task_queue_def)
  moreover from this have "(tp w)\<lparr>mutex_task_queue := False\<rparr> = tp w" by simp
  ultimately show ?thesis
    using assms
    by (auto simp: worker_step_def run_simps tpool_take_task_def lock_task_queue_def unlock_task_queue_def)
qed

lemma wp_join:
  "b_terminate (tp w) \<Longrightarrow> n \<le> started \<Longrightarrow> Q () w \<Longrightarrow> wp (join_threads n started sees) E Q w"
proof (induction n arbitrary: started sees)
  case (Suc n)
  then obtain k where k: "started = Suc k" "n \<le> k" by (cases started) auto
  have "wp worker_step E (\<lambda>_ v. v = w) w"
    unfolding wp_iff by (auto dest!: worker_stops [OF Suc.prems(1)])
  then have "wp worker_step E (\<lambda>_. wp (join_threads n k (tl sees)) E Q) w"
    by (rule wp_mono) (simp add: Suc.IH [OF Suc.prems(1) k(2) Suc.prems(3)])
  then show ?case by (simp add: k(1) wp_simps)
qed (simp add: wp_simps)

lemma wp_ll_destroy: "ll_inv s \<Longrightarrow> (\<And>s'. Q RPLIB_UNSUCCESS s') \<Longrightarrow> wp rplib_ll_queue_destroy E Q s"
  using destroy_loop_spec [of s 0] by (auto simp: rplib_ll_queue_destroy_def wp_def run_simps)

text \<open>The shutdown raises no fault of its own when all threads were started.\<close>

lemma wp_shutdown:
  assumes inv: "chat_inv srv sig w" and st: "RPCHAT_NUM_THREADS \<le> started" and Q: "\<And>r w'. Q r w'"
  shows "wp (rplib_tpool_destroy started False stop) tolerated (\<lambda>_. wp rpchat_conn_queue_destroy tolerated Q) w"
proof -
  let ?R = "\<lambda>_. wp rpchat_conn_queue_destroy tolerated Q"
  let ?stop = "\<lambda>w. w\<lparr>tp := (tp w)\<lparr>b_terminate := True\<rparr>\<rparr>"
  have "wp (join_threads (num_threads (tp v)) started (st_join stop)) tolerated
     (\<lambda>_. wp (tp_op (tasks_op rplib_ll_queue_destroy)) tolerated ?R) (?stop v)"
    if v: "chat_inv srv sig v" for v
  proof (rule wp_join)
    have "ll_inv (p_queue_tasks (tp v))" "ll_inv (p_conn_ll (cq v))"
      using v by (simp_all add: chat_inv_def srv_inv_def conn_ll_def)
    then show "wp (tp_op (tasks_op rplib_ll_queue_destroy)) tolerated ?R (?stop v)"
      unfolding wp_zoomM rpchat_conn_queue_destroy_def wp_thenM
      by (intro wp_ll_destroy) (simp_all add: Q wp_simps)
  qed (use v st in \<open>simp_all add: chat_inv_def\<close>)
  then show ?thesis
    using wp_tpool_wait [OF inv, of started "st_wait stop"]
    unfolding rplib_tpool_destroy_def wp_thenM wp_bindM
    by (simp add: wp_simps wp_returnM_eta) (rule wp_mono, assumption, simp add: wp_zoomM [of tp] wp_modifyM wp_getsM)
qed

lemma wp_run_server:
  assumes "chat_inv srv sig w" and "RPCHAT_NUM_THREADS \<le> started"
  shows "wp (run_server srv ep sig started mx script stop) tolerated
     (\<lambda>res w'. - 1 \<le> res \<and> res \<le> 1 \<and>
        (0 < ep \<longrightarrow> \<not> open_fds (sys w') srv \<and> \<not> open_fds (sys w') sig \<and> \<not> open_fds (sys w') ep)) w"
    (is "wp _ _ ?Q _")
  unfolding run_server_def wp_bindM wp_thenM
proof (rule wp_mono [OF wp_server_loop [OF assms(1)]], elim conjE)
  fix res :: int and v assume res: "- 1 \<le> res" "res \<le> 1" and v: "chat_inv srv sig v"
  have "wp (if 0 < ep then os_op (rpchat_stop_networking ep srv sig) else returnM ()) tolerated
      (\<lambda>_. wp (returnM res) tolerated ?Q) u" for u
    using res by (auto simp: wp_def run_simps rpchat_stop_networking_def os_close_def)
  then show "wp (rplib_tpool_destroy started False stop) tolerated (\<lambda>_. wp rpchat_conn_queue_destroy tolerated
      (\<lambda>_. wp (if 0 < ep then os_op (rpchat_stop_networking ep srv sig) else returnM ()) tolerated
      (\<lambda>_. wp (returnM res) tolerated ?Q))) v"
    by (rule wp_shutdown [OF v assms(2)])
qed

subsection \<open>The start\<close>

text \<open>The server that \<open>rpchat_begin_chat_server\<close> runs its main loop on.\<close>

definition booted :: "boot \<Rightarrow> 32 word \<Rightarrow> os \<Rightarrow> int \<Rightarrow> int \<Rightarrow> int \<Rightarrow> server \<Rightarrow> bool" where
  "booted b port s srv ep sig w \<longleftrightarrow>
     (\<exists>res s' pool queue.
        rpchat_begin_networking (b_setup b port) s = Some (Inr ((res, srv, ep, sig), s')) \<and> 0 \<le> ep \<and>
        rplib_tpool_create RPCHAT_NUM_THREADS (b_pool_ok b) (b_tasks_ok b) (b_thread_buf_ok b) (b_tasks_mallocs b)
          (b_pool_inits b) = Some (Inr (Some (Some pool))) \<and>
        rpchat_conn_queue_create ep (b_queue_ok b) (b_conns_ok b) (b_conns_mallocs b)
          (b_server_str b) = Some queue \<and>
        w = \<lparr>cq = queue, tp = pool, sys = s'\<rparr> \<and> p_thread_buf pool)"

lemma networking_interest:
  assumes "rpchat_begin_networking r s = Some (Inr ((res, srv, ep, sig), s'))" and "0 \<le> ep"
    and "interest s = Map.empty"
  shows "interest s' = [srv \<mapsto> service_event srv, sig \<mapsto> service_event sig]"
  using assms
  by (auto simp: rpchat_begin_networking_def rpchat_setup_server_socket_def run_simps os_new_fd_def
      os_epoll_add_def split: if_splits)

lemma ll_created:
  "rplib_ll_queue_create ok ms = Some l \<Longrightarrow>
   ll_inv l \<and> ll_list l = [] \<and> bufs l = Map.empty \<and> ll_ptrs l = [] \<and> q_size l = 0"
  using create_spec [of ms l] by (auto simp: rplib_ll_queue_create_def ll_list_def split: if_splits)

lemma server_str_wf: "str_wf (snprintf_str s (lit RPCHAT_SERVER_IDENTIFIER))"
  by (simp add: str_wf_def snprintf_str_def Let_def split_beta snprintf_def lit_def
      RPCHAT_SERVER_IDENTIFIER_def STR_STORAGE_def)

lemma booted_inv:
  assumes "booted b port s srv ep sig w" and "interest s = Map.empty"
  shows "chat_inv srv sig w" and "conn_ptrs w = []" and "queued w = []"
proof -
  obtain res s' pool queue where w:
    "rpchat_begin_networking (b_setup b port) s = Some (Inr ((res, srv, ep, sig), s'))" "0 \<le> ep"
    "rplib_tpool_create RPCHAT_NUM_THREADS (b_pool_ok b) (b_tasks_ok b) (b_thread_buf_ok b) (b_tasks_mallocs b)
          (b_pool_inits b) = Some (Inr (Some (Some pool)))"
    "rpchat_conn_queue_create ep (b_queue_ok b) (b_conns_ok b) (b_conns_mallocs b)
          (b_server_str b) = Some queue"
    "w = \<lparr>cq = queue, tp = pool, sys = s'\<rparr>" "p_thread_buf pool"
    using assms(1) unfolding booted_def by (elim exE conjE)
  have reg: "interest s' = [srv \<mapsto> service_event srv, sig \<mapsto> service_event sig]"
    using w(1,2) assms(2) by (rule networking_interest)
  have pool: "ll_inv (p_queue_tasks pool)" "ll_list (p_queue_tasks pool) = []"
      "num_threads pool = RPCHAT_NUM_THREADS"
    using w(3) by (auto simp: rplib_tpool_create_def rplib_tpool_initialize_def dest!: ll_created split: if_splits)
  have queue: "ll_inv (p_conn_ll queue)" "bufs (p_conn_ll queue) = Map.empty" "ll_ptrs (p_conn_ll queue) = []"
      "str_wf (server_str queue)"
    using w(4) by (auto simp: rpchat_conn_queue_create_def server_str_wf dest!: ll_created split: if_splits option.splits)
  have "live_on w p fd = False" for p fd by (simp add: live_on_def conn_map_def conn_ll_def w(5) queue)
  then have "fd_inv w" using reg by (auto simp: fd_inv_def w(5) service_event_def split: if_splits)
  then show "chat_inv srv sig w"
    using reg pool queue
    by (auto simp: chat_inv_def srv_inv_def w(5) conn_ll_def conn_map_def queued_def tpool_tasks_def
        service_event_def split: if_splits)
  show "conn_ptrs w = []" "queued w = []"
    using queue pool by (simp_all add: conn_ptrs_def conn_ll_def queued_def tpool_tasks_def w(5))
qed

lemma start_all: "\<forall>r \<in> set rs. r = 0 \<Longrightarrow> start_loop n rs = (RPLIB_SUCCESS, n)"
proof (induction n arbitrary: rs)
  case (Suc n)
  have "\<forall>r \<in> set (tl rs). r = 0" using Suc.prems by (cases rs) auto
  then show ?case using Suc.IH [of "tl rs"] Suc.prems by (cases rs) auto
qed simp

end
