(* ===== verification/Server_Props.thy ===== *)
theory Server_Props
  imports Chat_Server Chat_Broadcast
begin

text \<open>
  Properties of the main thread and of the server as a whole: every reachable state is safe, what
  the handlers of the main thread do, and how the server stops.
\<close>

subsection \<open>A run of the server\<close>

definition good_setup :: setup_results where
  "good_setup = \<lparr>r_sigset = [0, 0, 0, 0], r_signalfd = 7, r_epoll_create = 4, r_socket = 3,
     r_reuseaddr = 0, r_reuseport = 0, r_bind = 0, r_listen = 0, r_setitimer = 0\<rparr>"

definition good_boot :: boot where
  "good_boot = \<lparr>b_setup = (\<lambda>_. good_setup), b_pool_ok = True, b_tasks_ok = True, b_thread_buf_ok = True, b_tasks_mallocs = [],
     b_pool_inits = [], b_queue_ok = True, b_conns_ok = True, b_conns_mallocs = [],
     b_server_str = \<lparr>len = 0, contents = (\<lambda>_. 0)\<rparr>, b_threads = []\<rparr>"

definition first_os :: os where
  "first_os = \<lparr>open_fds = (\<lambda>fd. fd \<in> {0, 1, 2}), interest = Map.empty, rx = (\<lambda>_. []),
     peer_closed = (\<lambda>_. False), tx = [], send_results = [], clock = 0, backlog = [5],
     nonblocking = (\<lambda>_. False), signals = [], heap_results = [], uninit = (\<lambda>_. 0),
     uninit_event = service_event 0, log_out = []\<rparr>"

lemma good_booted: "\<exists>w. booted good_boot port first_os 3 4 7 w"
  by (simp add: booted_def good_boot_def good_setup_def first_os_def rpchat_begin_networking_def
      rpchat_setup_server_socket_def run_simps os_new_fd_def os_epoll_add_def rplib_tpool_create_def
      rplib_tpool_initialize_def rplib_ll_queue_create_def rpchat_conn_queue_create_def RPCHAT_NUM_THREADS_def)

text \<open>
  C1. Every reachable state of the server is safe. Start the server on a system with no descriptor
  registered, and let the main thread handle batches of reported events, workers run rounds and the
  environment act, whole rounds and batches one after the other in any order, with allocations failing at any time:
  the server's invariant holds in every state reached, a worker's next round can only fault by an access outside a
  string object (\<open>OutOfBounds\<close>; a message buffer is never left) or by SIGPIPE, and handling any batch of events
  that epoll can report never faults at all. Interleavings inside a round or a batch are not part of this; \<open>Conn_Race\<close>
  has three that break the invariant.
\<close>

theorem reachable_states_safe:
  assumes "booted b port s srv ep sig w0" and "interest s = Map.empty"
    and "(chat_step srv ep sig)\<^sup>*\<^sup>* w0 w"
  shows "srv_inv {} w \<and>
     wp worker_step (\<lambda>e. e = OutOfBounds \<or> e = Killed) (\<lambda>_. srv_inv {}) w \<and>
     (\<forall>evs. (\<forall>ev \<in> set evs. reported w ev) \<longrightarrow>
        wp (rpchat_handle_events evs srv ep sig) (\<lambda>_. False) (\<lambda>_. srv_inv {}) w)"
proof (rule chat.reach_safe [OF assms(3) booted_inv(1) [OF assms(1,2)]])
  fix w assume inv: "chat_inv srv sig w"
  have "wp worker_step (\<lambda>e. e = OutOfBounds \<or> e = Killed) (\<lambda>_. srv_inv {}) w"
    by (rule wp_weaken [OF wp_worker_inv [OF inv]]) (simp_all add: chat_inv_def tolerated_def)
  moreover have "wp (rpchat_handle_events evs srv ep sig) (\<lambda>_. False) (\<lambda>_. srv_inv {}) w"
    if "\<forall>ev \<in> set evs. reported w ev" for evs
    by (rule wp_weaken [OF wp_events_inv [OF inv that]]) (simp_all add: chat_inv_def)
  ultimately show "srv_inv {} w \<and>
     wp worker_step (\<lambda>e. e = OutOfBounds \<or> e = Killed) (\<lambda>_. srv_inv {}) w \<and>
     (\<forall>evs. (\<forall>ev \<in> set evs. reported w ev) \<longrightarrow>
        wp (rpchat_handle_events evs srv ep sig) (\<lambda>_. False) (\<lambda>_. srv_inv {}) w)"
    using inv by (simp add: chat_inv_def)
qed

theorem reachable_states_safe_witness:
  "\<exists>w0 w. booted good_boot 9001 first_os 3 4 7 w0 \<and> clock (sys w) = 20 \<and> srv_inv {} w \<and>
     wp (rpchat_handle_events [] 3 4 7) (\<lambda>_. False) (\<lambda>_. srv_inv {}) w"
proof -
  obtain w0 where w0: "booted good_boot 9001 first_os 3 4 7 w0" using good_booted by blast
  then have "clock (sys w0) = 0"
    by (auto simp: booted_def good_boot_def good_setup_def first_os_def rpchat_begin_networking_def
      rpchat_setup_server_socket_def run_simps os_new_fd_def os_epoll_add_def)
  then have "clock (sys (env_apply (Tick 20) w0)) = 20" by simp
  moreover have "(chat_step 3 4 7)\<^sup>*\<^sup>* w0 (env_apply (Tick 20) w0)"
    by (intro r_into_rtranclp chat_step.env)
  ultimately show ?thesis
    using w0 reachable_states_safe [OF w0, of "env_apply (Tick 20) w0"]
    by (intro exI [of _ w0] exI [of _ "env_apply (Tick 20) w0"]) (simp add: first_os_def)
qed

text \<open>With everything allocated and every thread started, the call is a run of the server.\<close>

lemma begin_is_run:
  assumes "booted b port s srv ep sig w0" and "interest s = Map.empty" and "\<forall>r \<in> set (b_threads b). r = 0"
  shows "rpchat_begin_chat_server port mx b script stop s =
     (case run_server srv ep sig RPCHAT_NUM_THREADS mx script stop w0 of
        None \<Rightarrow> None
      | Some (Inl e) \<Rightarrow> Some (Inl e)
      | Some (Inr (res, w)) \<Rightarrow> Some (Inr (res, sys w)))"
proof -
  obtain res s' pool queue where w:
    "rpchat_begin_networking (b_setup b port) s = Some (Inr ((res, srv, ep, sig), s'))" "0 \<le> ep"
    "rplib_tpool_create RPCHAT_NUM_THREADS (b_pool_ok b) (b_tasks_ok b) (b_thread_buf_ok b) (b_tasks_mallocs b)
          (b_pool_inits b) = Some (Inr (Some (Some pool)))"
    "rpchat_conn_queue_create ep (b_queue_ok b) (b_conns_ok b) (b_conns_mallocs b)
          (b_server_str b) = Some queue"
    "w0 = \<lparr>cq = queue, tp = pool, sys = s'\<rparr>" "p_thread_buf pool"
    using assms(1) unfolding booted_def by (elim exE conjE)
  have "chat_inv srv sig w0" using assms(1,2) by (rule booted_inv)
  then have "num_threads pool = RPCHAT_NUM_THREADS" by (simp add: chat_inv_def w(5))
  then have "rplib_tpool_start pool (b_threads b) = Inr (RPLIB_SUCCESS, RPCHAT_NUM_THREADS)"
    using start_all [OF assms(3)] w(6) by (simp add: rplib_tpool_start_def)
  then show ?thesis using w by (simp add: rpchat_begin_chat_server_def run_simps)
qed

text \<open>
  C16. The server as a whole. With everything allocated that the start allocates (\<open>booted\<close>) and every thread started,
  running \<open>rpchat_begin_chat_server\<close> on any script of events, its rounds and batches one after the other, and
  any course of the shutdown faults only by an access outside a string object or by SIGPIPE; if it returns, the result
  is one of the three return codes and the server, signal and epoll descriptors are closed.
\<close>

theorem server_run_safe:
  assumes "booted b port s srv ep sig w0" and "0 < ep" and "interest s = Map.empty"
    and "\<forall>r \<in> set (b_threads b). r = 0"
  shows "wp (rpchat_begin_chat_server port mx b script stop) (\<lambda>e. e = OutOfBounds \<or> e = Killed)
     (\<lambda>res s'. - 1 \<le> res \<and> res \<le> 1 \<and>
        \<not> open_fds s' srv \<and> \<not> open_fds s' sig \<and> \<not> open_fds s' ep) s"
proof -
  have "wp (run_server srv ep sig RPCHAT_NUM_THREADS mx script stop) tolerated
     (\<lambda>res w'. - 1 \<le> res \<and> res \<le> 1 \<and>
        (0 < ep \<longrightarrow> \<not> open_fds (sys w') srv \<and> \<not> open_fds (sys w') sig \<and> \<not> open_fds (sys w') ep)) w0"
    using booted_inv(1) [OF assms(1,3)] by (intro wp_run_server) simp_all
  then show ?thesis
    using assms(2)
    by (auto simp: begin_is_run [OF assms(1,3,4)] wp_def tolerated_def split: option.splits sum.splits)
qed

subsection \<open>New connections\<close>

lemma accept_run:
  assumes "open_fds s srv" and "backlog s = fd # rest" and "0 \<le> fd" and "\<not> open_fds s fd"
  shows "\<exists>s'. rpchat_accept_new_connection srv s = Some (Inr (fd, s')) \<and>
     open_fds s' = (open_fds s)(fd := True) \<and> interest s' = interest s \<and> clock s' = clock s \<and>
     nonblocking s' fd \<and> backlog s' = rest \<and> uninit s' = uninit s"
  using assms by (simp add: rpchat_accept_new_connection_def os_accept_def os_set_nonblocking_def run_simps)

lemma new_connection_run:
  assumes inv: "srv_inv {} w" and ml: "\<not> mutex_conn_ll (cq w)" and room: "ll_room (conn_ll w)"
    and o: "open_fds (sys w) srv" "open_fds (sys w) ep"
    and fd: "backlog (sys w) = fd # rest" "0 \<le> fd" "\<not> open_fds (sys w) fd" "interest (sys w) fd = None"
  shows "\<exists>p c w'. rpchat_handle_new_connection srv ep w = Some (Inr (RPLIB_SUCCESS, w')) \<and> srv_inv {} w' \<and>
     conn_map w p = None \<and> conn_map w' = (conn_map w)(p \<mapsto> c) \<and> conn_ptrs w' = conn_ptrs w @ [p] \<and>
     h_fd c = fd \<and> conn_status c = RPCHAT_CONN_PRE_REGISTER \<and> last_active c = clock (sys w) \<and>
     pending_jobs c = 0 \<and> \<not> mutex_conn c \<and> str_bytes (username c) = [] \<and> str_bytes (stat_msg c) = [] \<and>
     nonblocking (sys w') fd \<and>
     interest (sys w') = (interest (sys w))(fd \<mapsto> conn_event p) \<and> backlog (sys w') = rest \<and>
     queued w' = queued w \<and> \<not> mutex_conn_ll (cq w')"
proof -
  obtain s where s: "rpchat_accept_new_connection srv (sys w) = Some (Inr (fd, s))"
      "open_fds s = (open_fds (sys w))(fd := True)" "interest s = interest (sys w)" "clock s = clock (sys w)"
      "nonblocking s fd" "backlog s = rest"
    using accept_run [OF o(1) fd(1-3)] by blast
  define w1 where "w1 = w\<lparr>sys := s\<rparr>"
  define w2 where "w2 = ll_mutex True w1"
  let ?c = "new_conn w1 fd"
  have ll: "ll_inv (conn_ll w)" using inv by (simp add: srv_inv_def)
  obtain q d l where l: "rplib_ll_queue_enqueue ?c SIZEOF_CONN_INFO (conn_ll w) = Some (Inr (q, l))"
      "q \<noteq> NULL" "ll_list l = ll_list (conn_ll w) @ [(d, ?c)]" "bufs (conn_ll w) d = None"
      "bufs l = (bufs (conn_ll w))(d \<mapsto> ?c)" "dptr l q = d" "nodes l q \<noteq> None"
    using enqueue_room [OF ll _ room, of SIZEOF_CONN_INFO ?c] by (auto simp: SIZEOF_CONN_INFO_def)
  obtain n where n: "nodes l q = Some n" "p_data n = d" using l(6,7) by (auto simp: dptr_def)
  have ll2: "conn_ll w2 = conn_ll w" by (simp add: w2_def w1_def view_simps)
  then have enq: "ll_op (rplib_ll_queue_enqueue ?c SIZEOF_CONN_INFO) w2 = Some (Inr (q, set_ll l w2))"
    using run_ll_op [of "rplib_ll_queue_enqueue ?c SIZEOF_CONN_INFO" w2] l(1) by simp
  define w3 where "w3 = (set_ll l w2)\<lparr>sys := s\<lparr>interest := (interest s)(fd \<mapsto> conn_event d)\<rparr>\<rparr>"
  have add: "os_op (os_epoll_add ep fd (conn_event d)) (set_ll l w2) = Some (Inr (0, w3))"
    using o(2) s(2,3) fd(4)
    by (simp add: run_simps os_epoll_add_def w3_def w2_def w1_def view_simps)
  have lock: "lock_conn_ll w1 = Some (Inr ((), w2))"
    using ml by (simp add: w2_def w1_def lock_ll_run)
  have node: "load_conn_node q (set_ll l w2) = Some (Inr (n, set_ll l w2))"
    using n l(2) by (intro run_main_node) (simp_all add: view_simps)
  have c: "?c = snd (rpchat_conn_info_initialize (uninit_conn w1) fd (clock (sys w1)))"
    by (simp add: new_conn_def)
  have run: "rpchat_handle_new_connection srv ep w = Some (Inr (0, ll_mutex False w3))"
    using fd(2) s(1) lock enq node add l(2) n(2)
    by (simp add: rpchat_handle_new_connection_def bindM_return thenM_return zoomM_return os_time_def
        run_getsM Let_def unlock_ll_run run_returnM flip: w1_def c)
  have "grows {} w (ll_mutex False w3)"
    using wp_D [OF wp_new_connection [OF grows_refl [OF inv], where Q = "\<lambda>_. grows {} w"] run] by simp
  then have "srv_inv {} (ll_mutex False w3)" by (rule grows_inv)
  moreover have "ll_ptrs l = conn_ptrs w @ [d]"
    using arg_cong [OF l(3), of "map fst"] by (simp add: conn_ptrs_def)
  ultimately show ?thesis
    using run l(4,5) s(3-6)
    by (intro exI [of _ d] exI [of _ ?c] exI [of _ "ll_mutex False w3"])
      (simp add: w3_def w2_def w1_def view_simps conn_ptrs_def conn_map_def queued_def)
qed

text \<open>
  C17. Accepting a client. With a connection request pending, memory and a free list lock,
  \<open>rpchat_handle_new_connection\<close> returns \<open>RPLIB_SUCCESS\<close>: a new object at a fresh address is appended
  to the connection list, unregistered, unlocked, with no job, empty strings and last active now, whatever the
  stack held before it was initialised, its descriptor is non-blocking and registered with epoll under that address; nobody else is affected and
  the lock is released.
\<close>

theorem new_connection_accepted:
  assumes inv: "srv_inv {} w" and ml: "\<not> mutex_conn_ll (cq w)" and room: "ll_room (conn_ll w)"
    and o: "open_fds (sys w) srv" "open_fds (sys w) ep"
    and fd: "backlog (sys w) = fd # rest" "0 \<le> fd" "\<not> open_fds (sys w) fd" "interest (sys w) fd = None"
  shows "\<exists>p c w'. rpchat_handle_new_connection srv ep w = Some (Inr (RPLIB_SUCCESS, w')) \<and> srv_inv {} w' \<and>
     conn_map w p = None \<and> conn_map w' = (conn_map w)(p \<mapsto> c) \<and> conn_ptrs w' = conn_ptrs w @ [p] \<and>
     h_fd c = fd \<and> conn_status c = RPCHAT_CONN_PRE_REGISTER \<and> last_active c = clock (sys w) \<and>
     pending_jobs c = 0 \<and> \<not> mutex_conn c \<and> str_bytes (username c) = [] \<and> str_bytes (stat_msg c) = [] \<and>
     nonblocking (sys w') fd \<and>
     interest (sys w') = (interest (sys w))(fd \<mapsto> conn_event p) \<and> backlog (sys w') = rest \<and>
     queued w' = queued w \<and> \<not> mutex_conn_ll (cq w')"
  using assms by (rule new_connection_run)

lemma demo_chat_inv: "chat_inv 3 7 (demo_with st ty now rx5)"
  by (simp add: chat_inv_def demo_with_inv)
    (simp add: demo_def demo_os_def RPCHAT_NUM_THREADS_def service_event_def conn_event_def)

theorem new_connection_accepted_witness:
  "\<exists>p w'. rpchat_handle_new_connection 3 4
       (env_apply (Incoming 9) (demo_with RPCHAT_CONN_AVAILABLE RPCHAT_PROC_EVENT_INBOUND 30 [])) =
       Some (Inr (RPLIB_SUCCESS, w')) \<and> conn_ptrs w' = [2, 4, p] \<and>
     status w' p = Some RPCHAT_CONN_PRE_REGISTER \<and> interest (sys w') 9 = Some (conn_event p)"
proof -
  let ?w = "env_apply (Incoming 9) (demo_with RPCHAT_CONN_AVAILABLE RPCHAT_PROC_EVENT_INBOUND 30 [])"
  have inv: "srv_inv {} ?w" using env_inv [OF demo_chat_inv] by (rule chat_inv_srv)
  have room: "ll_room (conn_ll ?w)"
    by (simp add: ll_room_def mallocs_ok_def view_simps ll_list_wf [OF demo_ll_wf] INT_MAX_def)
      (simp add: demo_ll_def)
  have lk: "\<not> mutex_conn_ll (cq ?w)" by simp
  have o: "open_fds (sys ?w) 3" "open_fds (sys ?w) 4" "backlog (sys ?w) = 9 # []" "0 \<le> (9::int)"
      "\<not> open_fds (sys ?w) 9" "interest (sys ?w) 9 = None"
    by (simp_all add: demo_os_def)
  from new_connection_accepted [OF inv lk room o] show ?thesis
    by (elim exE conjE) (intro exI conjI, assumption,
      simp_all add: env_views status_def del: env_apply.simps)
qed

text \<open>
  A failed \<open>accept\<close> loses events. When the server socket is reported readable but \<open>accept\<close>
  fails (the client is gone, or no descriptor is left), \<open>rpchat_handle_events\<close> returns \<open>RPLIB_ERROR\<close> at once: whatever events follow in the batch are
  dropped (their descriptors are edge-triggered, so epoll does not report them again), no
  task is queued, and the list lock is released without having been taken.
\<close>

theorem failed_accept_drops_events:
  assumes "open_fds (sys w) srv" and "backlog (sys w) = e # rest" and "e < 0" and "sig \<noteq> srv"
  shows "rpchat_handle_events (service_event srv # evs) srv ep sig w =
     Some (Inr (RPLIB_ERROR, ll_mutex False (w\<lparr>sys := (sys w)\<lparr>backlog := rest\<rparr>\<rparr>)))"
  using assms
  by (simp add: rpchat_handle_events_def service_event_def rpchat_handle_new_connection_def run_simps
      rpchat_accept_new_connection_def os_accept_def unlock_ll_run)

theorem failed_accept_drops_events_witness:
  "rpchat_handle_events [service_event 3, conn_event 4] 3 4 7
     (env_apply (Incoming (- 1)) (demo_with RPCHAT_CONN_AVAILABLE RPCHAT_PROC_EVENT_INBOUND 30 [])) =
     Some (Inr (RPLIB_ERROR, ll_mutex False (demo_with RPCHAT_CONN_AVAILABLE RPCHAT_PROC_EVENT_INBOUND 30 [])))"
proof -
  let ?v = "demo_with RPCHAT_CONN_AVAILABLE RPCHAT_PROC_EVENT_INBOUND 30 []"
  let ?w = "env_apply (Incoming (- 1)) ?v"
  have w: "open_fds (sys ?w) 3" "backlog (sys ?w) = - 1 # []" "?w\<lparr>sys := (sys ?w)\<lparr>backlog := []\<rparr>\<rparr> = ?v"
    by (simp_all add: demo_def demo_os_def)
  show ?thesis using failed_accept_drops_events [OF w(1,2), of 7 "[conn_event 4]" 4] by (simp only: w(3))
qed

subsection \<open>Audit\<close>

lemma plenty_malloc: "plenty k w \<Longrightarrow> os_op os_malloc w = Some (Inr (True, w))"
  by (rule run_malloc) (simp add: plenty_def)

lemma audit_loop_run:
  assumes "ll_path (nodes (conn_ll w)) x ps NULL" and "srv_inv L w" and "plenty (length ps) w"
  shows "\<exists>w'. audit_loop x res w = Some (Inr (RPLIB_SUCCESS, w')) \<and>
     queued w' = queued w @ map (\<lambda>q. heartbeat_args w (dptr (conn_ll w) q)) ps \<and> grows L w w'"
  using assms
proof (induction ps arbitrary: x w res)
  case Nil
  then show ?case by (subst audit_loop.simps) (simp add: grows_refl)
next
  case (Cons a ps)
  obtain n where n: "x = a" "a \<noteq> NULL" "nodes (conn_ll w) a = Some n"
      "ll_path (nodes (conn_ll w)) (p_next_node n) ps NULL"
    using Cons.prems(1) by (elim ll_path_ConsE)
  have d: "dptr (conn_ll w) a = p_data n" using n by (simp add: dptr_def)
  have "ll_inv (conn_ll w)" using Cons.prems(2) by (simp add: srv_inv_def)
  then obtain c where c: "conn_map w (p_data n) = Some c"
    using ll_inv_node(2) [OF _ n(3)] by (auto simp: conn_map_def)
  let ?a = "heartbeat_args w (p_data n)"
  have ok: "args_ok w ?a" using c by (intro heartbeat_ok) simp
  have pc: "p_conn_info ?a = p_data n" by (simp add: heartbeat_args_def)
  obtain w1 where w1: "rpchat_conn_info_enqueue_task (p_data n) ?a w = Some (Inr (RPLIB_SUCCESS, w1))"
      "queued w1 = queued w @ [?a]" "plenty (length ps) w1" "sys w1 = sys w"
    using enqueue_task_run [OF Cons.prems(2) _ ok, of c "length ps" "p_data n"] c pc Cons.prems(3) by auto
  have g1: "grows L w w1" "nodes (conn_ll w1) = nodes (conn_ll w)"
    using wp_D [OF wp_main_enqueue [OF grows_refl [OF Cons.prems(2)] _ ok pc,
        where Q = "\<lambda>_ w1. grows L w w1 \<and> nodes (conn_ll w1) = nodes (conn_ll w)"] w1(1)] c by simp_all
  have ev: "heartbeat_args w1 = heartbeat_args w" by (simp add: heartbeat_args_def fun_eq_iff w1(4))
  have dp: "dptr (conn_ll w1) = dptr (conn_ll w)" by (simp add: dptr_def g1(2) fun_eq_iff)
  obtain w' where w': "audit_loop (p_next_node n) 0 w1 = Some (Inr (RPLIB_SUCCESS, w'))"
      "queued w' = queued w1 @ map (\<lambda>q. heartbeat_args w1 (dptr (conn_ll w1) q)) ps" "grows L w1 w'"
    using Cons.IH [OF _ grows_inv [OF g1(1)] w1(3), of "p_next_node n" 0] n(4) g1(2) by auto
  have "audit_loop x res w = Some (Inr (RPLIB_SUCCESS, w'))"
    using n(1,2) run_main_node [OF n(3,2)] plenty_malloc [OF Cons.prems(3)] w1(1) w'(1)
    by (subst audit_loop.simps) (simp add: bindM_return)
  then show ?case
    using w'(2) w1(2) d ev dp grows_trans [OF g1(1) w'(3)] by auto
qed

text \<open>
  C18. The audit. With memory and a free list lock \<open>rpchat_audit_connections\<close> succeeds and queues
  exactly one HEARTBEAT task for every connection, in list order, behind the tasks already queued; the
  connections themselves do not change and the lock is released.
\<close>

theorem audit_queues_heartbeats:
  assumes "srv_inv L w" and "\<not> mutex_conn_ll (cq w)" and "plenty (length (conn_ptrs w)) w"
  shows "\<exists>w'. rpchat_audit_connections w = Some (Inr (RPLIB_SUCCESS, w')) \<and>
     queued w' = queued w @ map (heartbeat_args w) (conn_ptrs w) \<and> srv_inv L w' \<and>
     (\<forall>q st. status w q = Some st \<longrightarrow> status w' q = Some st) \<and> \<not> mutex_conn_ll (cq w')"
proof -
  have ll: "ll_inv (conn_ll w)" using assms(1) by (simp add: srv_inv_def)
  let ?w = "ll_mutex True w"
  have path: "ll_path (nodes (conn_ll ?w)) (p_front (conn_ll ?w)) (ll_nodes (conn_ll w)) NULL"
    using ll by (simp add: view_simps ll_inv_def ll_wf_def)
  have "plenty (length (ll_nodes (conn_ll w))) ?w"
    using assms(3) by (simp add: conn_ptrs_nodes plenty_def view_simps)
  then obtain v where v: "audit_loop (p_front (conn_ll w)) 1 ?w = Some (Inr (RPLIB_SUCCESS, v))"
      "queued v = queued ?w @ map (\<lambda>q. heartbeat_args ?w (dptr (conn_ll ?w) q)) (ll_nodes (conn_ll w))"
      "grows L ?w v"
    using audit_loop_run [OF path, of L 1] assms(1) by (auto simp: view_simps)
  have g: "grows L w (ll_mutex False v)" using v(3) by (simp add: grows_mutex)
  have empty: "q_size (conn_ll w) < 1 \<Longrightarrow> ll_nodes (conn_ll w) = []"
    using unat_q_size [OF ll] by (simp add: word_less_nat_alt length_ll_list)
  then have e: "v = ?w" if "q_size (conn_ll w) < 1"
    using that v(1) path by (simp add: view_simps audit_loop.simps)
  have "rpchat_audit_connections w = Some (Inr (RPLIB_SUCCESS, ll_mutex False v))"
    using v(1) e assms(2)
    by (simp add: rpchat_audit_connections_def thenM_return lock_ll_run bindM_return run_getsM
        run_returnM unlock_ll_run view_simps)
  moreover have "map (\<lambda>q. heartbeat_args ?w (dptr (conn_ll ?w) q)) (ll_nodes (conn_ll w)) =
      map (heartbeat_args w) (conn_ptrs w)"
    by (simp add: conn_ptrs_nodes view_simps heartbeat_args_def)
  moreover have "status (ll_mutex False v) q = Some st" if "status w q = Some st" for q st
    using g that by (rule grows_status)
  ultimately show ?thesis using v(2) grows_inv [OF g] by (simp add: view_simps)
qed

theorem audit_queues_heartbeats_witness:
  "\<exists>w'. rpchat_audit_connections (demo_with RPCHAT_CONN_AVAILABLE RPCHAT_PROC_EVENT_INBOUND 30 []) =
       Some (Inr (RPLIB_SUCCESS, w')) \<and>
     map (\<lambda>a. (args_type a, p_conn_info a)) (queued w') = [(RPCHAT_PROC_EVENT_INBOUND, 2),
       (RPCHAT_PROC_EVENT_HEARTBEAT, 2), (RPCHAT_PROC_EVENT_HEARTBEAT, 4)]"
proof -
  let ?w = "demo_with RPCHAT_CONN_AVAILABLE RPCHAT_PROC_EVENT_INBOUND 30 []"
  have "plenty (length (conn_ptrs ?w)) ?w" by (simp add: demo_plenty)
  from audit_queues_heartbeats [OF demo_with_inv _ this] show ?thesis
    by (auto simp: heartbeat_args_def demo_args_def)
qed

subsection \<open>Events on connections\<close>

text \<open>
  C19. Dispatching an event. An event on a registered connection is queued as exactly one task, of type INBOUND,
  that carries the event, the connection's address and no message buffer, and the descriptor is taken off the
  interest list so that the connection is not reported again before the task has run (its
  address read as a descriptor number must not be one of the two service descriptors).
\<close>

theorem event_queues_task:
  assumes inv: "srv_inv L w" and c: "conn_map w p = Some c" and mem: "plenty 1 w"
    and o: "open_fds (sys w) ep" "open_fds (sys w) (h_fd c)" "interest (sys w) (h_fd c) = Some reg"
    and ev: "ev_data ev = Data_ptr p" "data_fd (Data_ptr p) \<noteq> srv" "data_fd (Data_ptr p) \<noteq> sig"
  shows "\<exists>w'. rpchat_handle_events [ev] srv ep sig w = Some (Inr (RPLIB_SUCCESS, w')) \<and> srv_inv L w' \<and>
     (\<exists>a. queued w' = queued w @ [a] \<and> args_type a = RPCHAT_PROC_EVENT_INBOUND \<and> args_event a = ev \<and>
        p_conn_info a = p \<and> p_msg_buf a = None \<and> sz_msg_buf a = 0 \<and> args_live a) \<and>
     interest (sys w') = (interest (sys w))(h_fd c := None) \<and>
     status w' p = Some (conn_status c)"
proof -
  define w1 where "w1 = w\<lparr>sys := (sys w)\<lparr>interest := (interest (sys w))(h_fd c := None)\<rparr>\<rparr>"
  have inv1: "srv_inv L w1"
    unfolding w1_def using inv by (intro srv_inv_sys fd_inv_del) (simp_all add: srv_inv_def)
  have c1: "conn_map w1 p = Some c" using c by (simp add: w1_def view_simps)
  have mem1: "plenty (Suc 0) w1" using mem by (simp add: plenty_def w1_def)
  let ?a = "inbound_args ev"
  have pc: "p_conn_info ?a = p" using ev(1) by (simp add: inbound_args_def)
  have ok: "args_ok w1 ?a" using c1 ev(1) by (simp add: args_ok_def inbound_args_def buf_ok_def)
  obtain w' where w': "rpchat_conn_info_enqueue_task p ?a w1 = Some (Inr (RPLIB_SUCCESS, w'))"
      "queued w' = queued w1 @ [?a]" "sys w' = sys w1"
    using enqueue_task_run [OF inv1 c1 [folded pc] ok mem1 pc [symmetric]] by (elim exE conjE)
  have g: "grows L w1 w'"
    using wp_D [OF wp_main_enqueue [OF grows_refl [OF inv1] _ ok pc, where Q = "\<lambda>_. grows L w1"] w'(1)] c1
    by simp
  have "os_op (os_epoll_del ep (h_fd c)) w = Some (Inr (0, w1))"
    using o by (simp add: run_simps os_epoll_del_def w1_def)
  then have "queue_event ep ev w = Some (Inr (RPLIB_SUCCESS, w'))"
    using run_load_conn [OF c srv_inv_not_NULL [OF inv c]] w'(1) ev(1)
    by (simp add: queue_event_def bindM_return thenM_return rpchat_toggle_descriptor_def)
  then have "rpchat_handle_events [ev] srv ep sig w = Some (Inr (RPLIB_SUCCESS, w'))"
    using ev plenty_malloc [OF mem]
    by (simp add: rpchat_handle_events_def bindM_return run_returnM)
  moreover have "status w' p = Some (conn_status c)" using g status_conn [OF c1] by (rule grows_status)
  ultimately show ?thesis
    using w'(2,3) ev(1) grows_inv [OF g] by (simp add: w1_def view_simps inbound_args_def)
qed

theorem event_queues_task_witness:
  "\<exists>w'. rpchat_handle_events [conn_event 4] 3 4 7
       (demo_with RPCHAT_CONN_AVAILABLE RPCHAT_PROC_EVENT_INBOUND 30 []) = Some (Inr (RPLIB_SUCCESS, w')) \<and>
     map (\<lambda>a. (args_type a, p_conn_info a)) (queued w') =
       [(RPCHAT_PROC_EVENT_INBOUND, 2), (RPCHAT_PROC_EVENT_INBOUND, 4)] \<and>
     interest (sys w') 6 = None"
proof -
  let ?w = "demo_with RPCHAT_CONN_AVAILABLE RPCHAT_PROC_EVENT_INBOUND 30 []"
  let ?c = "demo_conn 6 RPCHAT_CONN_AVAILABLE [98, 111, 98, 0] 0"
  have c: "conn_map ?w 4 = Some ?c" by simp
  have o: "open_fds (sys ?w) 4" "open_fds (sys ?w) (h_fd ?c)" "interest (sys ?w) (h_fd ?c) = Some (conn_event 4)"
    by (simp_all add: demo_os_def)
  have ev: "ev_data (conn_event 4) = Data_ptr 4" "data_fd (Data_ptr 4) \<noteq> 3" "data_fd (Data_ptr 4) \<noteq> 7"
    by (simp_all add: conn_event_def)
  from event_queues_task [OF demo_with_inv c demo_plenty o ev] show ?thesis
    by (auto simp: demo_args_def)
qed

subsection \<open>Stopping\<close>

text \<open>
  An interrupted wait stops the server. When \<open>epoll_wait\<close> fails with \<open>EINTR\<close>,
  \<open>rpchat_monitor_connections\<close> reports 0 events as if nothing had happened, but
  \<open>rpchat_handle_events\<close> returns \<open>RPLIB_UNSUCCESS\<close> for an empty batch, which the main loop takes for a
  planned exit: the loop ends with \<open>RPLIB_SUCCESS\<close> whatever would have come next.
\<close>

theorem eintr_stops_server:
  assumes "wr_calloc r" and "wr_meanwhile r = []" and "wr_error r = Some True" and "0 < sint mx"
  shows "\<exists>l. server_loop srv ep sig started mx (r # rs) w =
     Some (Inr (RPLIB_SUCCESS, w\<lparr>sys := (sys w)\<lparr>log_out := l\<rparr>\<rparr>))"
  using assms
  by (simp add: run_simps os_epoll_wait_def rpchat_monitor_connections_def rpchat_handle_events_def
      notice_def os_printf_def) (rule exI, rule refl)

theorem eintr_stops_server_witness:
  "\<exists>l. server_loop 3 4 7 4 1021 [\<lparr>wr_calloc = True, wr_meanwhile = [], wr_error = Some True, wr_fds = []\<rparr>]
       (demo_with RPCHAT_CONN_AVAILABLE RPCHAT_PROC_EVENT_INBOUND 30 []) =
     Some (Inr (RPLIB_SUCCESS, (demo_with RPCHAT_CONN_AVAILABLE RPCHAT_PROC_EVENT_INBOUND 30 [])\<lparr>sys :=
       (demo_os 30 [])\<lparr>log_out := l\<rparr>\<rparr>))"
  using eintr_stops_server [of "\<lparr>wr_calloc = True, wr_meanwhile = [], wr_error = Some True, wr_fds = []\<rparr>"
      1021 3 4 7 4 "[]" "demo_with RPCHAT_CONN_AVAILABLE RPCHAT_PROC_EVENT_INBOUND 30 []"]
  by simp

lemma worker_stop_run:
  assumes "b_terminate (tp w)" and "\<not> mutex_task_queue (tp w)"
  shows "worker_step w = Some (Inr (False, w))"
proof -
  have "(tp w)\<lparr>mutex_task_queue := False\<rparr> = tp w" using assms(2) by simp
  with assms show ?thesis
    by (simp add: worker_step_def run_simps tpool_take_task_def lock_task_queue_def unlock_task_queue_def)
qed

lemma join_run:
  assumes "b_terminate (tp w)" and "\<not> mutex_task_queue (tp w)"
  shows "n \<le> started \<Longrightarrow> take n sees = replicate n True \<Longrightarrow> join_threads n started sees w = Some (Inr ((), w))"
proof (induction n arbitrary: started sees)
  case (Suc n)
  then obtain k where "started = Suc k" "n \<le> k" by (cases started) auto
  moreover obtain bs where "sees = True # bs" "take n bs = replicate n True" using Suc.prems(2) by (cases sees) auto
  ultimately show ?case using Suc.IH by (simp add: thenM_return [where m = worker_step, OF worker_stop_run [OF assms]])
qed (simp add: run_returnM)

lemma ll_destroy_run: "ll_inv s \<Longrightarrow> \<exists>s'. rplib_ll_queue_destroy s = Some (Inr (RPLIB_UNSUCCESS, s'))"
  using destroy_loop_spec [of s 0] by (auto simp: rplib_ll_queue_destroy_def run_simps)

text \<open>
  All workers sleep when the pool is destroyed: the first test of \<open>rplib_tpool_wait\<close> reads 0 busy threads, and the
  broadcast that follows the termination flag reaches each of them.
\<close>

definition workers_asleep :: "stop_script \<Rightarrow> bool" where
  "workers_asleep stop \<longleftrightarrow>
     st_wait stop \<noteq> [] \<and> fst (hd (st_wait stop)) = 0 \<and>
     take RPCHAT_NUM_THREADS (st_join stop) = replicate RPCHAT_NUM_THREADS True"

text \<open>Then an idle server, its queue empty and no lock held, shuts down at once.\<close>

lemma shutdown_run:
  assumes inv: "chat_inv srv sig w" and idle: "queued w = []" "\<not> mutex_task_queue (tp w)"
    and st: "RPCHAT_NUM_THREADS \<le> started" and sl: "workers_asleep stop"
  shows "\<exists>w1 w2. rplib_tpool_destroy started False stop w = Some (Inr (RPLIB_UNSUCCESS, w1)) \<and>
     rpchat_conn_queue_destroy w1 = Some (Inr (RPLIB_SUCCESS, w2)) \<and> sys w2 = sys w"
proof -
  have ll: "ll_inv (p_queue_tasks (tp w))" "ll_inv (p_conn_ll (cq w))" "num_threads (tp w) \<le> started"
    using inv st by (simp_all add: chat_inv_def srv_inv_def conn_ll_def)
  have "unat (q_size (p_queue_tasks (tp w))) = 0"
    using unat_q_size [OF ll(1)] idle(1) by (simp add: queued_def tpool_tasks_def)
  moreover obtain ts tests where "st_wait stop = (0, ts) # tests"
    using sl by (cases "st_wait stop") (auto simp: workers_asleep_def)
  ultimately have wait: "rplib_tpool_wait started (st_wait stop) w = Some (Inr (RPLIB_SUCCESS, w))"
    by (simp add: run_simps unat_eq_0)
  let ?w = "w\<lparr>tp := (tp w)\<lparr>b_terminate := True\<rparr>\<rparr>"
  have join: "join_threads (num_threads (tp w)) started (st_join stop) ?w = Some (Inr ((), ?w))"
    using idle(2) ll(3) inv sl by (intro join_run) (simp_all add: chat_inv_def workers_asleep_def)
  obtain t where t: "rplib_ll_queue_destroy (p_queue_tasks (tp w)) = Some (Inr (RPLIB_UNSUCCESS, t))"
    using ll_destroy_run [OF ll(1)] by blast
  obtain l where l: "rplib_ll_queue_destroy (p_conn_ll (cq w)) = Some (Inr (RPLIB_UNSUCCESS, l))"
    using ll_destroy_run [OF ll(2)] by blast
  show ?thesis
    using wait join t l
    by (simp add: rplib_tpool_destroy_def rpchat_conn_queue_destroy_def thenM_return run_simps)
qed



definition sleepers :: stop_script where
  "sleepers = \<lparr>st_wait = [(0, [])], st_join = [True, True, True, True]\<rparr>"

lemma sleepers_asleep: "workers_asleep sleepers"
  by (simp add: workers_asleep_def sleepers_def RPCHAT_NUM_THREADS_def numeral_eq_Suc)


theorem server_run_safe_witness:
  "\<exists>s'. rpchat_begin_chat_server 9001 1021 good_boot
       [\<lparr>wr_calloc = True, wr_meanwhile = [], wr_error = Some True, wr_fds = []\<rparr>] sleepers first_os =
       Some (Inr (RPLIB_SUCCESS, s')) \<and> \<not> open_fds s' 3 \<and> \<not> open_fds s' 7 \<and> \<not> open_fds s' 4"
proof -
  let ?r = "\<lparr>wr_calloc = True, wr_meanwhile = [], wr_error = Some True, wr_fds = []\<rparr>"
  obtain w0 where w0: "booted good_boot 9001 first_os 3 4 7 w0" using good_booted by blast
  have e: "interest first_os = Map.empty" by (simp add: first_os_def)
  have th: "\<forall>r \<in> set (b_threads good_boot). r = 0" by (simp add: good_boot_def)
  have idle: "queued w0 = []" "chat_inv 3 7 w0" using booted_inv [OF w0 e] by simp_all
  have lk: "\<not> mutex_task_queue (tp w0)"
    using w0 by (auto simp: booted_def rplib_tpool_create_def rplib_tpool_initialize_def split: if_splits)
  obtain v l where v: "server_loop 3 4 7 4 1021 [?r] w0 = Some (Inr (RPLIB_SUCCESS, v))"
      "v = w0\<lparr>sys := (sys w0)\<lparr>log_out := l\<rparr>\<rparr>"
    by (simp add: run_simps os_epoll_wait_def rpchat_monitor_connections_def rpchat_handle_events_def
        notice_def os_printf_def)
  have "chat_inv 3 7 v" using wp_D [OF wp_server_loop [OF idle(2)] v(1)] by simp
  then obtain w1 w2 where "rplib_tpool_destroy 4 False sleepers v = Some (Inr (RPLIB_UNSUCCESS, w1))"
     "rpchat_conn_queue_destroy w1 = Some (Inr (RPLIB_SUCCESS, w2))"
    using shutdown_run [of 3 7 v 4 sleepers] sleepers_asleep idle(1) lk v(2) by (auto simp: view_simps RPCHAT_NUM_THREADS_def)
  then have "\<exists>w'. run_server 3 4 7 RPCHAT_NUM_THREADS 1021 [?r] sleepers w0 = Some (Inr (RPLIB_SUCCESS, w'))"
    using v(1) by (simp add: run_server_def run_simps rpchat_stop_networking_def os_close_def RPCHAT_NUM_THREADS_def)
  then have "\<exists>s'. rpchat_begin_chat_server 9001 1021 good_boot [?r] sleepers first_os = Some (Inr (RPLIB_SUCCESS, s'))"
    unfolding begin_is_run [OF w0 e th] by auto
  then show ?thesis
    using wp_D [OF server_run_safe [OF w0 _ e th]] by fastforce
qed

end
