(* ===== verification/Chat_Shutdown.thy ===== *)
theory Chat_Shutdown
  imports Server_Props
begin

text \<open>
  When the server does not stop: the pool is only destroyed once its task queue is empty, and
  a DELIVER for a client that owes a STATUS puts itself back into the queue until the
  STATUS is read, which only the main thread, now waiting for the queue, would notice.
\<close>

subsection \<open>A queue of tasks that wait for a STATUS\<close>













end
