(* ===== verification/Server_Main.thy ===== *)
theory Server_Main
  imports Chat_Server "HOL-Library.Char_ord"
begin

text \<open>
  The program's entry point, \<open>src/main.c\<close>, with \<open>src/rpchat_file_io.c\<close>: command line, descriptor
  limit, log file, and the call of \<open>rpchat_begin_chat_server\<close>.

  \<open>getopt\<close> is modelled as glibc documents it for the option string \<open>t:l:h\<close> (arguments that
  are not options are skipped, \<open>--\<close> ends the options, an unknown option or a missing argument
  gives \<open>?\<close>), and \<open>strtol\<close> with base 10 and saturation.
\<close>

subsection \<open>\<open>getopt\<close> and \<open>strtol\<close>\<close>

type_synonym opt = "char \<times> string option"

definition takes_arg :: "char \<Rightarrow> bool" where
  "takes_arg c \<longleftrightarrow> c = CHR ''t'' \<or> c = CHR ''l''"

text \<open>One word of options: the options it gives and the words that are left.\<close>

fun opt_cluster :: "string \<Rightarrow> string list \<Rightarrow> opt list \<times> string list" where
  "opt_cluster [] args = ([], args)"
| "opt_cluster (c # cs) args =
     (if takes_arg c then
        (if cs \<noteq> [] then ([(c, Some cs)], args)
         else case args of [] \<Rightarrow> ([(CHR ''?'', None)], []) | a # as \<Rightarrow> ([(c, Some a)], as))
      else
        let (os, rest) = opt_cluster cs args
        in ((if c = CHR ''h'' then c else CHR ''?'', None) # os, rest))"

lemma opt_cluster_shorter: "opt_cluster cs args = (os, rest) \<Longrightarrow> length rest \<le> length args"
  by (induction cs arbitrary: os) (auto simp: Let_def split: if_splits list.splits prod.splits)

function getopt :: "string list \<Rightarrow> opt list" where
  "getopt [] = []"
| "getopt (a # as) =
     (if a = ''--'' then []
      else if 2 \<le> length a \<and> hd a = CHR ''-'' then
        let (os, rest) = opt_cluster (tl a) as in os @ getopt rest
      else getopt as)"
  by pat_completeness auto

termination getopt
  by (relation "measure length") (auto simp: less_Suc_eq_le dest: opt_cluster_shorter [OF sym])

definition is_digit :: "char \<Rightarrow> bool" where
  "is_digit c \<longleftrightarrow> CHR ''0'' \<le> c \<and> c \<le> CHR ''9''"

definition is_space :: "char \<Rightarrow> bool" where
  "is_space c \<longleftrightarrow> c = CHR '' '' \<or> CHR 0x09 \<le> c \<and> c \<le> CHR 0x0D"

definition digits_val :: "string \<Rightarrow> int" where
  "digits_val cs = foldl (\<lambda>n c. 10 * n + int (of_char c) - 48) 0 cs"

definition strtol :: "string \<Rightarrow> int" where
  "strtol s =
     (let s1 = dropWhile is_space s;
          neg = (s1 \<noteq> [] \<and> hd s1 = CHR ''-'');
          s2 = (if s1 \<noteq> [] \<and> (hd s1 = CHR ''-'' \<or> hd s1 = CHR ''+'') then tl s1 else s1);
          n = digits_val (takeWhile is_digit s2)
      in max (- (2 ^ 63)) (min (2 ^ 63 - 1) (if neg then - n else n)))"

subsection \<open>\<open>rpchat_get_arguments\<close>\<close>

definition PATH_MAX :: nat where
  "PATH_MAX = 4096"

text \<open>
  \<open>None\<close> is the jump to \<open>print_usage\<close> (the line printed before it for an option without its argument is
  left out: \<open>getopt\<close> never returns \<open>l\<close> without one); otherwise the values of \<open>port_num\<close> and \<open>p_temp_log_location\<close>.\<close>

fun arguments_loop :: "opt list \<Rightarrow> int \<Rightarrow> string option \<Rightarrow> (int \<times> string option) option" where
  "arguments_loop [] port_num loc = Some (port_num, loc)"
| "arguments_loop ((c, optarg) # os) port_num loc =
     (if c = CHR ''p'' then
        (case optarg of
           None \<Rightarrow> None
         | Some s \<Rightarrow> arguments_loop os (sint (word_of_int (strtol s) :: 32 word)) loc)
      else if c = CHR ''l'' then
        (case optarg of None \<Rightarrow> None | Some s \<Rightarrow> arguments_loop os port_num (Some s))
      else if c = CHR ''h'' then None
      else arguments_loop os port_num loc)"

text \<open>
  The result, and on success what the caller's \<open>port_num\<close>, \<open>log_location\<close> and \<open>sz_log_loc\<close> hold
  afterwards (\<open>snprintf\<close> truncates the path but returns its whole length).
\<close>

definition rpchat_get_arguments :: "string list \<Rightarrow> int \<times> int \<times> string \<times> nat" where
  "rpchat_get_arguments argv =
     (case arguments_loop (getopt (tl argv)) 0 None of
        None \<Rightarrow> (RPLIB_UNSUCCESS, 0, [], 0)
      | Some (port_num, loc) \<Rightarrow>
          let port_num = (if port_num = 0 then RPCHAT_DEFAULT_PORT else port_num) in
          case loc of
            None \<Rightarrow> (RPLIB_SUCCESS, port_num, [], 0)
          | Some s \<Rightarrow> (RPLIB_SUCCESS, port_num, take (PATH_MAX - 1) s, length s))"

subsection \<open>The log file\<close>

record host =
  rlimit_nofile :: "64 word option"
  open_result :: "string \<Rightarrow> int"
  dup2_result :: int

text \<open>
  \<open>rpchat_open_log_location\<close>: when \<open>dup2\<close> fails the file stays open, but its descriptor is lost.
\<close>

definition rpchat_open_log_location :: "host \<Rightarrow> string \<Rightarrow> (os, int) prog" where
  "rpchat_open_log_location h p_log_location =
     (let h_fd_log_loc = open_result h p_log_location in
      thenM (os_new_fd h_fd_log_loc)
      (if 0 > h_fd_log_loc then returnM h_fd_log_loc
       else if dup2_result h = - 1 then returnM RPLIB_ERROR
       else returnM h_fd_log_loc))"

definition rpchat_close_log_location :: "int \<Rightarrow> (os, int) prog" where
  "rpchat_close_log_location h_fd_log_loc = os_close h_fd_log_loc"

subsection \<open>\<open>main\<close>\<close>

definition RPCHAT_MAX_USABLE_DESCRIPTOR_OFFSET :: "64 word" where
  "RPCHAT_MAX_USABLE_DESCRIPTOR_OFFSET = 3"

fun show_nat :: "nat \<Rightarrow> string" where
  "show_nat n = (if n < 10 then [char_of (48 + n)] else show_nat (n div 10) @ [char_of (48 + n mod 10)])"

definition show_int :: "int \<Rightarrow> string" where
  "show_int n = (if n < 0 then CHR ''-'' # show_nat (nat (- n)) else show_nat (nat n))"

definition print_usage :: "(os, unit) prog" where
  "print_usage = os_printf (lit (''Usage: '' @ NEWLINE @ '' rpchat -l[log location (defaults to stdout)] '' @
     ''-p[host port number  '' @ ''(default '' @ show_int RPCHAT_DEFAULT_PORT @ '')]'' @ NEWLINE))"

text \<open>
  \<open>max_descriptors\<close> is an \<open>unsigned long\<close>, passed on as an \<open>unsigned int\<close>; \<open>b\<close>, \<open>script\<close> and \<open>stop\<close>
  are what the server will meet when it starts, runs and stops.
\<close>

definition main ::
  "host \<Rightarrow> string list \<Rightarrow> boot \<Rightarrow> wait_result list \<Rightarrow> stop_script \<Rightarrow> (os, int) prog" where
  "main h argv b script stop =
     (case rlimit_nofile h of
        None \<Rightarrow> returnM RPLIB_UNSUCCESS
      | Some rlim_cur \<Rightarrow>
          let max_descriptors = rlim_cur - RPCHAT_MAX_USABLE_DESCRIPTOR_OFFSET;
              (res, port_num, log_location, sz_log_loc) = rpchat_get_arguments argv in
          if res \<noteq> RPLIB_SUCCESS then thenM print_usage (returnM RPLIB_UNSUCCESS)
          else
            bindM (if 0 < sz_log_loc then rpchat_open_log_location h log_location
                   else returnM RPLIB_ERROR) (\<lambda>h_fd_log_loc.
            thenM (os_printf (lit (''Port: '' @ show_int port_num @ NEWLINE)))
            (thenM (os_printf (lit (''Log Location: '' @
                (if 0 < h_fd_log_loc then log_location else ''stdout'') @ NEWLINE)))
            (bindM (rpchat_begin_chat_server (word_of_int port_num) (ucast max_descriptors) b script stop) (\<lambda>res.
             thenM (rpchat_close_log_location h_fd_log_loc)
             (returnM res))))))"

subsection \<open>Which options there are\<close>

lemma opt_cluster_opts:
  "opt_cluster cs args = (os, rest) \<Longrightarrow> (c, a) \<in> set os \<Longrightarrow>
   c \<in> {CHR ''t'', CHR ''l'', CHR ''h'', CHR ''?''} \<and> (c = CHR ''l'' \<longrightarrow> a \<noteq> None)"
  by (induction cs arbitrary: os)
    (auto simp: Let_def takes_arg_def split: if_splits list.splits prod.splits)

lemma getopt_opts:
  "(c, a) \<in> set (getopt args) \<Longrightarrow>
   c \<in> {CHR ''t'', CHR ''l'', CHR ''h'', CHR ''?''} \<and> (c = CHR ''l'' \<longrightarrow> a \<noteq> None)"
proof (induction args rule: getopt.induct)
  case (2 w ws)
  then show ?case
    by (auto split: if_splits prod.splits dest: opt_cluster_opts [OF sym])
qed simp

lemma arguments_loop_no_p:
  "\<forall>(c, a) \<in> set os. c \<noteq> CHR ''p'' \<and> (c = CHR ''l'' \<longrightarrow> a \<noteq> None) \<Longrightarrow>
   arguments_loop os port loc =
     (if CHR ''h'' \<in> fst ` set os then None
      else Some (port, case filter (\<lambda>o'. fst o' = CHR ''l'') os of [] \<Rightarrow> loc | ls \<Rightarrow> snd (last ls)))"
proof (induction os arbitrary: loc)
  case (Cons o' os)
  obtain c a where o': "o' = (c, a)" by fastforce
  show ?case using Cons by (auto simp: o' split: list.splits option.splits)
qed simp

end
