(* ===== verification/Main_Props.thy ===== *)
theory Main_Props
  imports Server_Main Server_Props
begin

text \<open>Properties of the command line and of the program as a whole.\<close>

subsection \<open>Arguments\<close>

lemma getopt_no_p:
  "\<forall>(c, a) \<in> set (getopt args). c \<noteq> CHR ''p'' \<and> (c = CHR ''l'' \<longrightarrow> a \<noteq> None)"
  using getopt_opts by fastforce

text \<open>
  C28. The command line. \<open>rpchat_get_arguments\<close> fails exactly if the option \<open>-h\<close> is given; otherwise it
  delivers the path of the last \<open>-l\<close> (at most 4095 bytes of it, with the whole length as its size), and
  the default port: the option string lacks \<open>p:\<close>, so the port of \<open>-p\<close> is never read.
\<close>

theorem arguments_spec:
  "rpchat_get_arguments argv =
     (if CHR ''h'' \<in> fst ` set (getopt (tl argv)) then (RPLIB_UNSUCCESS, 0, [], 0)
      else case filter (\<lambda>a. fst a = CHR ''l'') (getopt (tl argv)) of
             [] \<Rightarrow> (RPLIB_SUCCESS, 9001, [], 0)
           | ls \<Rightarrow> (RPLIB_SUCCESS, 9001, take 4095 (the (snd (last ls))), length (the (snd (last ls)))))"
proof -
  let ?os = "getopt (tl argv)"
  have last: "snd (last ls) \<noteq> None" if "filter (\<lambda>a. fst a = CHR ''l'') ?os = ls" "ls \<noteq> []" for ls
  proof -
    have "last ls \<in> set ?os" "fst (last ls) = CHR ''l''"
      using last_in_set [OF that(2)] that(1) by auto
    then show ?thesis using getopt_no_p [of "tl argv"] by (cases "last ls") auto
  qed
  show ?thesis
    using last arguments_loop_no_p [OF getopt_no_p, of "tl argv" 0 None]
    by (auto simp: rpchat_get_arguments_def RPCHAT_DEFAULT_PORT_def PATH_MAX_def Let_def
        split: list.splits option.splits)
qed

lemma default_arguments:
  assumes "\<forall>(c, a) \<in> set (getopt (tl argv)). c \<noteq> CHR ''h'' \<and> c \<noteq> CHR ''l''"
  shows "rpchat_get_arguments argv = (RPLIB_SUCCESS, 9001, [], 0)"
proof -
  have "filter (\<lambda>a. fst a = CHR ''l'') (getopt (tl argv)) = []" "CHR ''h'' \<notin> fst ` set (getopt (tl argv))"
    using assms by (auto simp: filter_empty_conv)
  then show ?thesis
    using arguments_loop_no_p [OF getopt_no_p, of "tl argv" 0 None]
    by (simp add: rpchat_get_arguments_def RPCHAT_DEFAULT_PORT_def)
qed

lemma main_run:
  assumes "rlimit_nofile h = Some lim"
    and "\<forall>(c, a) \<in> set (getopt (tl argv)). c \<noteq> CHR ''h'' \<and> c \<noteq> CHR ''l''"
  shows "\<exists>l. main h argv b script stop s =
     bindM (rpchat_begin_chat_server 9001 (ucast (lim - 3)) b script stop) (\<lambda>res.
       thenM (os_close (- 1)) (returnM res)) (s\<lparr>log_out := log_out s @ l\<rparr>)"
proof -
  have "rpchat_get_arguments argv = (RPLIB_SUCCESS, 9001, [], 0)"
    using assms(2) by (rule default_arguments)
  then show ?thesis
    using assms(1)
    by (simp add: main_def thenM_return bindM_return run_returnM os_printf_def run_modifyM
        rpchat_close_log_location_def RPCHAT_MAX_USABLE_DESCRIPTOR_OFFSET_def) (rule exI, rule refl)
qed

text \<open>
  Starting the program. With a readable descriptor limit and no \<open>-h\<close>, \<open>main\<close> runs the server on
  port 9001 whatever port was asked for, with the descriptor limit less 3 cut to 32 bits as
  the size of its event buffer, and returns the server's result.
\<close>

theorem main_runs_server:
  assumes "rlimit_nofile h = Some lim"
    and "\<forall>(c, a) \<in> set (getopt (tl argv)). c \<noteq> CHR ''h'' \<and> c \<noteq> CHR ''l''"
  shows "\<exists>l. main h argv b script stop s =
     bindM (rpchat_begin_chat_server 9001 (ucast (lim - 3)) b script stop) (\<lambda>res.
       thenM (os_close (- 1)) (returnM res)) (s\<lparr>log_out := log_out s @ l\<rparr>)"
  using assms by (rule main_run)

definition demo_host :: host where
  "demo_host = \<lparr>rlimit_nofile = Some 1024, open_result = (\<lambda>_. 9), dup2_result = 1\<rparr>"

lemma demo_argv: "getopt [''-p'', ''4000''] = [(CHR ''?'', None)]"
  by (simp add: takes_arg_def)

theorem main_runs_server_witness:
  "\<exists>l. main demo_host [''rpchat'', ''-p'', ''4000''] good_boot [] sleepers first_os =
     bindM (rpchat_begin_chat_server 9001 1021 good_boot [] sleepers) (\<lambda>res.
       thenM (os_close (- 1)) (returnM res)) (first_os\<lparr>log_out := l\<rparr>)"
proof -
  have "log_out first_os = []" by (simp add: first_os_def)
  then show ?thesis
    using main_runs_server [of demo_host 1024 "[''rpchat'', ''-p'', ''4000'']" good_boot "[]" sleepers first_os]
    by (simp add: demo_argv demo_host_def del: getopt.simps)
qed

text \<open>
  C39. A failed start looks like a success. Called with neither \<open>-h\<close> nor \<open>-l\<close>, when the server socket cannot be set up (say, because the port
  is in use) \<open>main\<close> returns 0 without having served anybody, although its comment promises 1 on an
  error.
\<close>

theorem failed_start_exits_with_0:
  assumes "rlimit_nofile h = Some lim"
    and "\<forall>(c, a) \<in> set (getopt (tl argv)). c \<noteq> CHR ''h'' \<and> c \<noteq> CHR ''l''"
    and r: "r = b_setup b 9001" "list_all (\<lambda>n. n = 0) (r_sigset r)" "0 \<le> r_signalfd r" "0 \<le> r_epoll_create r"
    and "r_socket r < 0 \<or> r_reuseaddr r < 0 \<or> r_reuseport r < 0 \<or> r_bind r < 0 \<or> r_listen r < 0"
  shows "\<exists>s'. main h argv b script stop s = Some (Inr (0, s')) \<and> tx s' = tx s"
proof -
  have server: "\<exists>s'. rpchat_begin_chat_server 9001 mx b script stop t = Some (Inr (0, s')) \<and> tx s' = tx t" for mx t
  proof -
    obtain s' where "rpchat_begin_networking (b_setup b 9001) t =
        Some (Inr ((0, RPLIB_ERROR, RPLIB_ERROR, r_signalfd r), s'))" "tx s' = tx t"
      using networking_failure_run [OF r(2-4) assms(7), of t] r(1) by auto
    then show ?thesis by (simp add: rpchat_begin_chat_server_def run_simps)
  qed
  obtain l where "main h argv b script stop s = bindM (rpchat_begin_chat_server 9001 (ucast (lim - 3)) b script stop)
      (\<lambda>res. thenM (os_close (- 1)) (returnM res)) (s\<lparr>log_out := log_out s @ l\<rparr>)"
    using main_run [OF assms(1,2)] by blast
  then show ?thesis
    using server [of "ucast (lim - 3)" "s\<lparr>log_out := log_out s @ l\<rparr>"] by (auto simp: run_simps os_close_def)
qed

theorem failed_start_exits_with_0_witness:
  "\<exists>s'. main demo_host [''rpchat'', ''-p'', ''4000'']
     (good_boot\<lparr>b_setup := (\<lambda>_. good_setup\<lparr>r_bind := - 1\<rparr>)\<rparr>) [] sleepers first_os = Some (Inr (0, s')) \<and> tx s' = []"
proof -
  have "tx first_os = []" by (simp add: first_os_def)
  then show ?thesis
    using failed_start_exits_with_0 [of demo_host 1024 "[''rpchat'', ''-p'', ''4000'']"
        "good_setup\<lparr>r_bind := - 1\<rparr>" "good_boot\<lparr>b_setup := (\<lambda>_. good_setup\<lparr>r_bind := - 1\<rparr>)\<rparr>" "[]" sleepers first_os]
    by (simp add: demo_argv demo_host_def good_setup_def del: getopt.simps)
qed

end
