(* ===== verification/Tpool_Threads.thy ===== *)
theory Tpool_Threads
  imports Tpool "HOL-Library.Multiset"
begin

text \<open>
  The threads of the pool, statement by statement: \<open>rplib_tpool_thread_do\<close>, \<open>rplib_tpool_wait\<close> and
  \<open>rplib_tpool_destroy\<close> of \<open>lib/rplib/src/rplib_tpool.c\<close> as a step relation over any number of
  workers and the thread that owns the pool. A worker's program counter names the statement it
  is about to execute (the line numbers below); the short critical sections of
  \<open>mutex_thrd_count\<close> are single steps, the lock of the task queue is taken and released
  explicitly, and the two condition variables wake sleeping threads. The queue itself is
  the heap-based queue of \<open>Ll_Queue\<close>.

  POSIX lets a condition wait return without a signal. The relation has these steps when its
  first argument is \<open>True\<close>; invariants are proved with them, deadlocks without.
\<close>

subsection \<open>State\<close>

datatype ('f, 'arg) thread_pc =
    Thread_new      \<comment> \<open>136\<close>
  | Loop_top        \<comment> \<open>144\<close>
  | Lock_queue      \<comment> \<open>149\<close>
  | Test_queue      \<comment> \<open>151, holds the queue's lock\<close>
  | Idle_dec        \<comment> \<open>155, holds the lock\<close>
  | Sleep_call      \<comment> \<open>159, holds the lock\<close>
  | Asleep          \<comment> \<open>159, waiting for the signal\<close>
  | Woken           \<comment> \<open>159, waiting for the lock\<close>
  | Busy_again      \<comment> \<open>163, holds the lock\<close>
  | Test_stop       \<comment> \<open>169, holds the lock\<close>
  | Take            \<comment> \<open>176, holds the lock\<close>
  | Running "('f, 'arg) rplib_tpool_task"   \<comment> \<open>188\<close>
  | Finish          \<comment> \<open>191\<close>
  | Leaving         \<comment> \<open>202\<close>
  | Gone

text \<open>The owner: free to queue tasks, in \<open>rplib_tpool_wait\<close>, and in \<open>rplib_tpool_destroy\<close> behind it.\<close>

datatype owner_pc =
    Owner_free
  | Wait_test       \<comment> \<open>256\<close>
  | Wait_asleep     \<comment> \<open>259\<close>
  | Waited          \<comment> \<open>73\<close>
  | Flagged         \<comment> \<open>74\<close>
  | Joining         \<comment> \<open>77\<close>
  | Joined          \<comment> \<open>84\<close>

text \<open>
  \<open>submitted\<close>, \<open>taken\<close> and \<open>finished\<close> record the history of the tasks; no step depends on them.
  \<open>wedged\<close> says that a failed enqueue has left the queue's lock held.
\<close>

record ('f, 'arg) threads =
  pool :: "('f, 'arg) rplib_tpool"
  pcs :: "nat \<Rightarrow> ('f, 'arg) thread_pc"
  owner :: owner_pc
  submitted :: "('f, 'arg) rplib_tpool_task list"
  taken :: "('f, 'arg) rplib_tpool_task list"
  finished :: "('f, 'arg) rplib_tpool_task multiset"
  wedged :: bool

definition goto :: "nat \<Rightarrow> ('f, 'arg) thread_pc \<Rightarrow> ('f, 'arg) threads \<Rightarrow> ('f, 'arg) threads" where
  "goto i x s = s\<lparr>pcs := (pcs s)(i := x)\<rparr>"

definition add_busy :: "64 word \<Rightarrow> ('f, 'arg) threads \<Rightarrow> ('f, 'arg) threads" where
  "add_busy k s = s\<lparr>pool := (pool s)\<lparr>num_threads_busy := num_threads_busy (pool s) + k\<rparr>\<rparr>"

definition add_alive :: "64 word \<Rightarrow> ('f, 'arg) threads \<Rightarrow> ('f, 'arg) threads" where
  "add_alive k s = s\<lparr>pool := (pool s)\<lparr>num_threads_alive := num_threads_alive (pool s) + k\<rparr>\<rparr>"

definition queue_lock :: "bool \<Rightarrow> ('f, 'arg) threads \<Rightarrow> ('f, 'arg) threads" where
  "queue_lock b s = s\<lparr>pool := (pool s)\<lparr>mutex_task_queue := b\<rparr>\<rparr>"

text \<open>\<open>pthread_cond_signal\<close> on \<open>cond_threads_idle\<close>; only the owner waits there.\<close>

definition wake_owner :: "('f, 'arg) threads \<Rightarrow> ('f, 'arg) threads" where
  "wake_owner s = (if owner s = Wait_asleep then s\<lparr>owner := Wait_test\<rparr> else s)"

text \<open>Lines 192-197: decrement, and signal if no thread is busy.\<close>

definition finish_task :: "('f, 'arg) threads \<Rightarrow> ('f, 'arg) threads" where
  "finish_task s =
     (let s' = add_busy (- 1) s
      in if num_threads_busy (pool s') = 0 then wake_owner s' else s')"

subsection \<open>Steps\<close>

text \<open>
  \<open>rplib_tpool_thread_do\<close>, lines 129 to 208. What the task function does is left open; it may queue tasks.
\<close>

inductive thread_do_step :: "bool \<Rightarrow> nat \<Rightarrow> ('f, 'arg) threads \<Rightarrow> ('f, 'arg) threads \<Rightarrow> bool" for spurious n where
  alive: "i < n \<Longrightarrow> pcs s i = Thread_new \<Longrightarrow> thread_do_step spurious n s (goto i Loop_top (add_alive 1 s))"
| busy: "i < n \<Longrightarrow> pcs s i = Loop_top \<Longrightarrow> thread_do_step spurious n s (goto i Lock_queue (add_busy 1 s))"
| lock: "i < n \<Longrightarrow> pcs s i = Lock_queue \<Longrightarrow> \<not> mutex_task_queue (pool s) \<Longrightarrow>
     thread_do_step spurious n s (goto i Test_queue (queue_lock True s))"
| empty: "i < n \<Longrightarrow> pcs s i = Test_queue \<Longrightarrow> q_size (p_queue_tasks (pool s)) = 0 \<Longrightarrow> \<not> b_terminate (pool s) \<Longrightarrow>
     thread_do_step spurious n s (goto i Idle_dec s)"
| job: "i < n \<Longrightarrow> pcs s i = Test_queue \<Longrightarrow> q_size (p_queue_tasks (pool s)) \<noteq> 0 \<or> b_terminate (pool s) \<Longrightarrow>
     thread_do_step spurious n s (goto i Test_stop s)"
| idle: "i < n \<Longrightarrow> pcs s i = Idle_dec \<Longrightarrow> thread_do_step spurious n s (goto i Sleep_call (add_busy (- 1) s))"
| sleep: "i < n \<Longrightarrow> pcs s i = Sleep_call \<Longrightarrow> thread_do_step spurious n s (goto i Asleep (queue_lock False s))"
| wake: "i < n \<Longrightarrow> pcs s i = Asleep \<Longrightarrow> spurious \<Longrightarrow> thread_do_step spurious n s (goto i Woken s)"
| relock: "i < n \<Longrightarrow> pcs s i = Woken \<Longrightarrow> \<not> mutex_task_queue (pool s) \<Longrightarrow>
     thread_do_step spurious n s (goto i Busy_again (queue_lock True s))"
| again: "i < n \<Longrightarrow> pcs s i = Busy_again \<Longrightarrow> thread_do_step spurious n s (goto i Test_queue (add_busy 1 s))"
| stop: "i < n \<Longrightarrow> pcs s i = Test_stop \<Longrightarrow> b_terminate (pool s) \<Longrightarrow>
     thread_do_step spurious n s (goto i Leaving (queue_lock False s))"
| go: "i < n \<Longrightarrow> pcs s i = Test_stop \<Longrightarrow> \<not> b_terminate (pool s) \<Longrightarrow> thread_do_step spurious n s (goto i Take s)"
| take: "i < n \<Longrightarrow> pcs s i = Take \<Longrightarrow>
     load_node (p_front (p_queue_tasks (pool s))) (p_queue_tasks (pool s)) = Some (Inr (nd, q1)) \<Longrightarrow>
     load_buf (p_data nd) (p_queue_tasks (pool s)) = Some (Inr (t, q2)) \<Longrightarrow>
     rplib_ll_queue_dequeue (p_queue_tasks (pool s)) = Some (Inr (r, q)) \<Longrightarrow>
     thread_do_step spurious n s (goto i (Running t) (s\<lparr>taken := taken s @ [t],
       pool := (pool s)\<lparr>p_queue_tasks := q, mutex_task_queue := False\<rparr>\<rparr>))"
| run: "i < n \<Longrightarrow> pcs s i = Running t \<Longrightarrow>
     thread_do_step spurious n s (goto i Finish (s\<lparr>finished := add_mset t (finished s)\<rparr>))"
| finish: "i < n \<Longrightarrow> pcs s i = Finish \<Longrightarrow> thread_do_step spurious n s (goto i Loop_top (finish_task s))"
| leave: "i < n \<Longrightarrow> pcs s i = Leaving \<Longrightarrow>
     thread_do_step spurious n s (goto i Gone (add_alive (- 1) (add_busy (- 1) s)))"

text \<open>
  \<open>rplib_tpool_enqueue_task\<close>, lines 94 to 127, called by the owner or by a task, in one step: its critical section, with the
  signal that wakes one of the sleeping workers, if there are any.
\<close>

inductive enqueue_step :: "nat \<Rightarrow> ('f, 'arg) threads \<Rightarrow> ('f, 'arg) threads \<Rightarrow> bool" for n where
  enqueue: "owner s = Owner_free \<or> (\<exists>i < n. \<exists>t. pcs s i = Running t) \<Longrightarrow>
     rplib_tpool_enqueue_task f a (pool s) = Some (Inr (r, p)) \<Longrightarrow> \<not> mutex_task_queue p \<Longrightarrow>
     (if \<exists>i < n. pcs s i = Asleep then \<exists>i < n. pcs s i = Asleep \<and> x = (pcs s)(i := Woken) else x = pcs s) \<Longrightarrow>
     enqueue_step n s (s\<lparr>pool := p, pcs := x, submitted := submitted s @ [\<lparr>p_function = f, p_arg = a\<rparr>]\<rparr>)"
| enqueue_failed: "owner s = Owner_free \<or> (\<exists>i < n. \<exists>t. pcs s i = Running t) \<Longrightarrow>
     rplib_tpool_enqueue_task f a (pool s) = Some (Inr (r, p)) \<Longrightarrow> mutex_task_queue p \<Longrightarrow>
     enqueue_step n s (s\<lparr>pool := p, wedged := True\<rparr>)"

text \<open>
  \<open>rplib_tpool_wait\<close>, lines 248 to 266.
\<close>

inductive wait_step :: "bool \<Rightarrow> ('f, 'arg) threads \<Rightarrow> ('f, 'arg) threads \<Rightarrow> bool" for spurious where
  wait: "owner s = Owner_free \<Longrightarrow> wait_step spurious s (s\<lparr>owner := Wait_test\<rparr>)"
| wait_on: "owner s = Wait_test \<Longrightarrow>
     num_threads_busy (pool s) \<noteq> 0 \<or> q_size (p_queue_tasks (pool s)) \<noteq> 0 \<Longrightarrow>
     wait_step spurious s (s\<lparr>owner := Wait_asleep\<rparr>)"
| wait_done: "owner s = Wait_test \<Longrightarrow>
     num_threads_busy (pool s) = 0 \<Longrightarrow> q_size (p_queue_tasks (pool s)) = 0 \<Longrightarrow>
     wait_step spurious s (s\<lparr>owner := Waited\<rparr>)"
| wait_wake: "owner s = Wait_asleep \<Longrightarrow> spurious \<Longrightarrow> wait_step spurious s (s\<lparr>owner := Wait_test\<rparr>)"

text \<open>
  \<open>rplib_tpool_destroy\<close> behind the wait, lines 72 to 81.
\<close>

inductive destroy_step :: "nat \<Rightarrow> ('f, 'arg) threads \<Rightarrow> ('f, 'arg) threads \<Rightarrow> bool" for n where
  flag: "owner s = Waited \<Longrightarrow>
     destroy_step n s (s\<lparr>owner := Flagged, pool := (pool s)\<lparr>b_terminate := True\<rparr>\<rparr>)"
| broadcast: "owner s = Flagged \<Longrightarrow>
     destroy_step n s (s\<lparr>owner := Joining, pcs := (\<lambda>i. if pcs s i = Asleep then Woken else pcs s i)\<rparr>)"
| join: "owner s = Joining \<Longrightarrow> \<forall>i < n. pcs s i = Gone \<Longrightarrow> destroy_step n s (s\<lparr>owner := Joined\<rparr>)"

text \<open>The threads take turns.\<close>

inductive tstep :: "bool \<Rightarrow> nat \<Rightarrow> ('f, 'arg) threads \<Rightarrow> ('f, 'arg) threads \<Rightarrow> bool" for spurious n where
  by_worker: "thread_do_step spurious n s s' \<Longrightarrow> tstep spurious n s s'"
| by_enqueue: "enqueue_step n s s' \<Longrightarrow> tstep spurious n s s'"
| by_wait: "wait_step spurious s s' \<Longrightarrow> tstep spurious n s s'"
| by_destroy: "destroy_step n s s' \<Longrightarrow> tstep spurious n s s'"

lemmas tstep_alive = thread_do_step.alive [THEN tstep.by_worker]
lemmas tstep_busy = thread_do_step.busy [THEN tstep.by_worker]
lemmas tstep_lock = thread_do_step.lock [THEN tstep.by_worker]
lemmas tstep_empty = thread_do_step.empty [THEN tstep.by_worker]
lemmas tstep_job = thread_do_step.job [THEN tstep.by_worker]
lemmas tstep_idle = thread_do_step.idle [THEN tstep.by_worker]
lemmas tstep_sleep = thread_do_step.sleep [THEN tstep.by_worker]
lemmas tstep_wake = thread_do_step.wake [THEN tstep.by_worker]
lemmas tstep_relock = thread_do_step.relock [THEN tstep.by_worker]
lemmas tstep_again = thread_do_step.again [THEN tstep.by_worker]
lemmas tstep_stop = thread_do_step.stop [THEN tstep.by_worker]
lemmas tstep_go = thread_do_step.go [THEN tstep.by_worker]
lemmas tstep_take = thread_do_step.take [THEN tstep.by_worker]
lemmas tstep_run = thread_do_step.run [THEN tstep.by_worker]
lemmas tstep_finish = thread_do_step.finish [THEN tstep.by_worker]
lemmas tstep_leave = thread_do_step.leave [THEN tstep.by_worker]
lemmas tstep_enqueue = enqueue_step.enqueue [THEN tstep.by_enqueue]
lemmas tstep_enqueue_failed = enqueue_step.enqueue_failed [THEN tstep.by_enqueue]
lemmas tstep_wait = wait_step.wait [THEN tstep.by_wait]
lemmas tstep_wait_on = wait_step.wait_on [THEN tstep.by_wait]
lemmas tstep_wait_done = wait_step.wait_done [THEN tstep.by_wait]
lemmas tstep_wait_wake = wait_step.wait_wake [THEN tstep.by_wait]
lemmas tstep_flag = destroy_step.flag [THEN tstep.by_destroy]
lemmas tstep_broadcast = destroy_step.broadcast [THEN tstep.by_destroy]
lemmas tstep_join = destroy_step.join [THEN tstep.by_destroy]

lemma tstep_cases:
  assumes "tstep spurious n s s'"
  obtains
    (alive) i where "s' = goto i Loop_top (add_alive 1 s)" "i < n" "pcs s i = Thread_new"
  | (busy) i where "s' = goto i Lock_queue (add_busy 1 s)" "i < n" "pcs s i = Loop_top"
  | (lock) i where "s' = goto i Test_queue (queue_lock True s)" "i < n" "pcs s i = Lock_queue"
        "\<not> mutex_task_queue (pool s)"
  | (empty) i where "s' = goto i Idle_dec s" "i < n" "pcs s i = Test_queue" "q_size (p_queue_tasks (pool s)) = 0"
        "\<not> b_terminate (pool s)"
  | (job) i where "s' = goto i Test_stop s" "i < n" "pcs s i = Test_queue"
        "q_size (p_queue_tasks (pool s)) \<noteq> 0 \<or> b_terminate (pool s)"
  | (idle) i where "s' = goto i Sleep_call (add_busy (- 1) s)" "i < n" "pcs s i = Idle_dec"
  | (sleep) i where "s' = goto i Asleep (queue_lock False s)" "i < n" "pcs s i = Sleep_call"
  | (wake) i where "s' = goto i Woken s" "i < n" "pcs s i = Asleep" "spurious"
  | (relock) i where "s' = goto i Busy_again (queue_lock True s)" "i < n" "pcs s i = Woken"
        "\<not> mutex_task_queue (pool s)"
  | (again) i where "s' = goto i Test_queue (add_busy 1 s)" "i < n" "pcs s i = Busy_again"
  | (stop) i where "s' = goto i Leaving (queue_lock False s)" "i < n" "pcs s i = Test_stop" "b_terminate (pool s)"
  | (go) i where "s' = goto i Take s" "i < n" "pcs s i = Test_stop" "\<not> b_terminate (pool s)"
  | (take) i nd q1 t q2 r q where
        "s' = goto i (Running t) (s\<lparr>taken := taken s @ [t], pool := (pool s)\<lparr>p_queue_tasks := q, mutex_task_queue := False\<rparr>\<rparr>)"
        "i < n" "pcs s i = Take"
        "load_node (p_front (p_queue_tasks (pool s))) (p_queue_tasks (pool s)) = Some (Inr (nd, q1))"
        "load_buf (p_data nd) (p_queue_tasks (pool s)) = Some (Inr (t, q2))"
        "rplib_ll_queue_dequeue (p_queue_tasks (pool s)) = Some (Inr (r, q))"
  | (run) i t where "s' = goto i Finish (s\<lparr>finished := add_mset t (finished s)\<rparr>)" "i < n"
        "pcs s i = Running t"
  | (finish) i where "s' = goto i Loop_top (finish_task s)" "i < n" "pcs s i = Finish"
  | (leave) i where "s' = goto i Gone (add_alive (- 1) (add_busy (- 1) s))" "i < n" "pcs s i = Leaving"
  | (enqueue) f a r p x where
        "s' = s\<lparr>pool := p, pcs := x, submitted := submitted s @ [\<lparr>p_function = f, p_arg = a\<rparr>]\<rparr>"
        "owner s = Owner_free \<or> (\<exists>i < n. \<exists>t. pcs s i = Running t)"
        "rplib_tpool_enqueue_task f a (pool s) = Some (Inr (r, p))" "\<not> mutex_task_queue p"
        "(if \<exists>i < n. pcs s i = Asleep then \<exists>i < n. pcs s i = Asleep \<and> x = (pcs s)(i := Woken) else x = pcs s)"
  | (enqueue_failed) f a r p where "s' = s\<lparr>pool := p, wedged := True\<rparr>"
        "owner s = Owner_free \<or> (\<exists>i < n. \<exists>t. pcs s i = Running t)"
        "rplib_tpool_enqueue_task f a (pool s) = Some (Inr (r, p))" "mutex_task_queue p"
  | (wait) "s' = s\<lparr>owner := Wait_test\<rparr>" "owner s = Owner_free"
  | (wait_on) "s' = s\<lparr>owner := Wait_asleep\<rparr>" "owner s = Wait_test"
        "num_threads_busy (pool s) \<noteq> 0 \<or> q_size (p_queue_tasks (pool s)) \<noteq> 0"
  | (wait_done) "s' = s\<lparr>owner := Waited\<rparr>" "owner s = Wait_test" "num_threads_busy (pool s) = 0"
        "q_size (p_queue_tasks (pool s)) = 0"
  | (wait_wake) "s' = s\<lparr>owner := Wait_test\<rparr>" "owner s = Wait_asleep" "spurious"
  | (flag) "s' = s\<lparr>owner := Flagged, pool := (pool s)\<lparr>b_terminate := True\<rparr>\<rparr>"
        "owner s = Waited"
  | (broadcast)
        "s' = s\<lparr>owner := Joining, pcs := (\<lambda>i. if pcs s i = Asleep then Woken else pcs s i)\<rparr>"
        "owner s = Flagged"
  | (join) "s' = s\<lparr>owner := Joined\<rparr>" "owner s = Joining" "\<forall>i < n. pcs s i = Gone"
  using assms
proof cases
  case by_worker
  then show thesis by cases (rule that; assumption)+
next
  case by_enqueue
  then show thesis by cases (rule that; assumption)+
next
  case by_wait
  then show thesis by cases (rule that; assumption)+
next
  case by_destroy
  then show thesis by cases (rule that; assumption)+
qed

subsection \<open>Invariant\<close>

fun holds_lock :: "('f, 'arg) thread_pc \<Rightarrow> bool" where
  "holds_lock x \<longleftrightarrow> x = Test_queue \<or> x = Idle_dec \<or> x = Sleep_call \<or> x = Busy_again \<or> x = Test_stop \<or> x = Take"

fun is_busy :: "('f, 'arg) thread_pc \<Rightarrow> nat" where
  "is_busy Lock_queue = 1" | "is_busy Test_queue = 1" | "is_busy Idle_dec = 1" | "is_busy Test_stop = 1"
| "is_busy Take = 1" | "is_busy (Running t) = 1" | "is_busy Finish = 1" | "is_busy Leaving = 1"
| "is_busy x = 0"

fun is_alive :: "('f, 'arg) thread_pc \<Rightarrow> nat" where
  "is_alive Thread_new = 0" | "is_alive Gone = 0" | "is_alive x = 1"

fun running :: "('f, 'arg) thread_pc \<Rightarrow> ('f, 'arg) rplib_tpool_task multiset" where
  "running (Running t) = {#t#}" | "running x = {#}"

definition lock_inv :: "nat \<Rightarrow> ('f, 'arg) threads \<Rightarrow> bool" where
  "lock_inv n s \<longleftrightarrow>
     (if wedged s then mutex_task_queue (pool s) \<and> (\<forall>i < n. \<not> holds_lock (pcs s i))
      else mutex_task_queue (pool s) \<longleftrightarrow> (\<exists>i < n. holds_lock (pcs s i))) \<and>
     (\<forall>i < n. \<forall>j < n. holds_lock (pcs s i) \<longrightarrow> holds_lock (pcs s j) \<longrightarrow> i = j)"

definition count_inv :: "nat \<Rightarrow> ('f, 'arg) threads \<Rightarrow> bool" where
  "count_inv n s \<longleftrightarrow>
     num_threads_busy (pool s) = word_of_nat (\<Sum>i < n. is_busy (pcs s i)) \<and>
     num_threads_alive (pool s) = word_of_nat (\<Sum>i < n. is_alive (pcs s i))"

definition task_inv :: "nat \<Rightarrow> ('f, 'arg) threads \<Rightarrow> bool" where
  "task_inv n s \<longleftrightarrow>
     tpool_inv (pool s) \<and> submitted s = taken s @ tpool_tasks (pool s) \<and>
     mset (taken s) = finished s + (\<Sum>i < n. running (pcs s i))"

text \<open>What the tests at lines 151 and 169 have established, and that the owner's wait is over only then.\<close>

definition pc_flow :: "('f, 'arg) rplib_tpool \<Rightarrow> ('f, 'arg) thread_pc \<Rightarrow> bool" where
  "pc_flow p x \<longleftrightarrow>
     (x = Idle_dec \<or> x = Sleep_call \<longrightarrow> tpool_tasks p = []) \<and>
     (x = Test_stop \<and> \<not> b_terminate p \<or> x = Take \<longrightarrow> tpool_tasks p \<noteq> []) \<and>
     (x = Leaving \<or> x = Gone \<longrightarrow> b_terminate p)"

definition owner_flow :: "nat \<Rightarrow> ('f, 'arg) threads \<Rightarrow> bool" where
  "owner_flow n s \<longleftrightarrow>
     (owner s \<in> {Waited, Flagged, Joining, Joined} \<longrightarrow>
        tpool_tasks (pool s) = [] \<and> (\<forall>i < n. running (pcs s i) = {#})) \<and>
     (b_terminate (pool s) \<longleftrightarrow> owner s \<in> {Flagged, Joining, Joined}) \<and>
     (owner s = Joined \<longrightarrow> (\<forall>i < n. pcs s i = Gone))"

definition flow_inv :: "nat \<Rightarrow> ('f, 'arg) threads \<Rightarrow> bool" where
  "flow_inv n s \<longleftrightarrow> (\<forall>i < n. pc_flow (pool s) (pcs s i)) \<and> owner_flow n s"

text \<open>A queued task is never left to sleeping threads.\<close>

definition wake_inv :: "nat \<Rightarrow> ('f, 'arg) threads \<Rightarrow> bool" where
  "wake_inv n s \<longleftrightarrow> (tpool_tasks (pool s) \<noteq> [] \<longrightarrow> (\<exists>i < n. pcs s i \<noteq> Asleep))"

definition tinv :: "nat \<Rightarrow> ('f, 'arg) threads \<Rightarrow> bool" where
  "tinv n s \<longleftrightarrow> lock_inv n s \<and> count_inv n s \<and> task_inv n s \<and> flow_inv n s \<and> wake_inv n s"

subsection \<open>Lemmas on the parts of the state\<close>

lemma goto_simps [simp]:
  "pcs (goto i x s) = (pcs s)(i := x)" "pool (goto i x s) = pool s" "owner (goto i x s) = owner s"
  "submitted (goto i x s) = submitted s" "taken (goto i x s) = taken s"
  "finished (goto i x s) = finished s" "wedged (goto i x s) = wedged s"
  by (simp_all add: goto_def)

lemma queue_lock_simps [simp]:
  "pcs (queue_lock b s) = pcs s" "pool (queue_lock b s) = (pool s)\<lparr>mutex_task_queue := b\<rparr>"
  "owner (queue_lock b s) = owner s" "submitted (queue_lock b s) = submitted s"
  "taken (queue_lock b s) = taken s" "finished (queue_lock b s) = finished s"
  "wedged (queue_lock b s) = wedged s"
  by (simp_all add: queue_lock_def)

lemma add_busy_simps [simp]:
  "pcs (add_busy k s) = pcs s"
  "pool (add_busy k s) = (pool s)\<lparr>num_threads_busy := num_threads_busy (pool s) + k\<rparr>"
  "owner (add_busy k s) = owner s" "submitted (add_busy k s) = submitted s"
  "taken (add_busy k s) = taken s" "finished (add_busy k s) = finished s"
  "wedged (add_busy k s) = wedged s"
  by (simp_all add: add_busy_def)

lemma add_alive_simps [simp]:
  "pcs (add_alive k s) = pcs s"
  "pool (add_alive k s) = (pool s)\<lparr>num_threads_alive := num_threads_alive (pool s) + k\<rparr>"
  "owner (add_alive k s) = owner s" "submitted (add_alive k s) = submitted s"
  "taken (add_alive k s) = taken s" "finished (add_alive k s) = finished s"
  "wedged (add_alive k s) = wedged s"
  by (simp_all add: add_alive_def)

lemma finish_task_simps [simp]:
  "pcs (finish_task s) = pcs s" "pool (finish_task s) = pool (add_busy (- 1) s)"
  "submitted (finish_task s) = submitted s" "taken (finish_task s) = taken s"
  "finished (finish_task s) = finished s" "wedged (finish_task s) = wedged s"
  by (simp_all add: finish_task_def wake_owner_def Let_def)

lemma owner_finish_task:
  "owner (finish_task s) = owner s \<or> owner s = Wait_asleep \<and> owner (finish_task s) = Wait_test"
  by (simp add: finish_task_def wake_owner_def Let_def)

lemma tpool_tasks_cong [simp]:
  "tpool_tasks (p\<lparr>mutex_task_queue := b\<rparr>) = tpool_tasks p"
  "tpool_tasks (p\<lparr>num_threads_busy := k\<rparr>) = tpool_tasks p"
  "tpool_tasks (p\<lparr>num_threads_alive := k\<rparr>) = tpool_tasks p"
  "tpool_tasks (p\<lparr>b_terminate := b\<rparr>) = tpool_tasks p"
  by (simp_all add: tpool_tasks_def)

text \<open>What the two operations on the task queue do to the rest of the pool.\<close>

lemma enqueue_effect:
  assumes "tpool_inv p" and "rplib_tpool_enqueue_task f a p = Some (Inr (r, p'))"
  shows "tpool_inv p' \<and> \<not> mutex_task_queue p \<and> b_terminate p' = b_terminate p \<and>
     num_threads_busy p' = num_threads_busy p \<and> num_threads_alive p' = num_threads_alive p \<and>
     tpool_tasks p' = (if mutex_task_queue p' then tpool_tasks p
       else tpool_tasks p @ [\<lparr>p_function = f, p_arg = a\<rparr>])"
proof -
  note e = tq.enq_effect [OF assms]
  have "num_threads_busy p' = num_threads_busy p \<and> num_threads_alive p' = num_threads_alive p"
    using lq.enq_cases [OF assms(1), of "\<lparr>p_function = f, p_arg = a\<rparr>" 15] assms(2) e
    by (elim disjE exE conjE) (auto simp: tpool_run)
  with e show ?thesis by simp
qed

lemma take_effect:
  assumes "tpool_inv p" and "tpool_tasks p \<noteq> []"
    and "load_node (p_front (p_queue_tasks p)) (p_queue_tasks p) = Some (Inr (nd, q1))"
    and "load_buf (p_data nd) (p_queue_tasks p) = Some (Inr (t, q2))"
    and "rplib_ll_queue_dequeue (p_queue_tasks p) = Some (Inr (r, q))"
  shows "ll_inv q \<and> tpool_tasks p = t # map snd (ll_list q)"
  by (rule take_enabled [OF assms(1,2)]) (use assms(3-5) in simp)

lemma sum_pcs_upd:
  fixes f :: "'a \<Rightarrow> 'b::comm_monoid_add" and n :: nat
  assumes "i < n"
  shows "(\<Sum>j < n. f ((g(i := x)) j)) + f (g i) = (\<Sum>j < n. f (g j)) + f x"
proof -
  have "(\<Sum>j < n. f (h j)) = f (h i) + (\<Sum>j \<in> {..<n} - {i}. f (h j))" for h
    by (rule sum.remove) (use assms in auto)
  moreover have "(\<Sum>j \<in> {..<n} - {i}. f ((g(i := x)) j)) = (\<Sum>j \<in> {..<n} - {i}. f (g j))"
    by (rule sum.cong) auto
  ultimately show ?thesis by (simp add: ac_simps)
qed

text \<open>Waking sleepers changes no count and no lock.\<close>

lemma woken_simps:
  assumes "h = g \<or> g = Asleep \<and> h = Woken"
  shows "is_busy h = is_busy g" "is_alive h = is_alive g" "running h = running g"
    "holds_lock h \<longleftrightarrow> holds_lock g"
  using assms by auto

lemma sum_woken:
  assumes "\<And>j. h j = g j \<or> g j = Asleep \<and> h j = Woken"
  shows "(\<Sum>j < n. is_busy (h j)) = (\<Sum>j < n. is_busy (g j))"
    "(\<Sum>j < n. is_alive (h j)) = (\<Sum>j < n. is_alive (g j))"
    "(\<Sum>j < n. running (h j)) = (\<Sum>j < n. running (g j))"
  by (simp_all only: woken_simps [OF assms])

subsection \<open>Preservation\<close>

lemma count_goto:
  assumes "i < n" and "count_inv n s" and "pcs s' = (pcs s)(i := x)"
    and "num_threads_busy (pool s') + word_of_nat (is_busy (pcs s i)) =
      num_threads_busy (pool s) + word_of_nat (is_busy x)"
    and "num_threads_alive (pool s') + word_of_nat (is_alive (pcs s i)) =
      num_threads_alive (pool s) + word_of_nat (is_alive x)"
  shows "count_inv n s'"
proof -
  have "word_of_nat (\<Sum>j < n. is_busy (pcs s' j)) + word_of_nat (is_busy (pcs s i)) =
      (num_threads_busy (pool s') + word_of_nat (is_busy (pcs s i)) :: 64 word)"
    using arg_cong [OF sum_pcs_upd [OF assms(1), of is_busy "pcs s" x], of "word_of_nat :: _ \<Rightarrow> 64 word"]
      assms(2-4) by (simp add: count_inv_def)
  moreover have "word_of_nat (\<Sum>j < n. is_alive (pcs s' j)) + word_of_nat (is_alive (pcs s i)) =
      (num_threads_alive (pool s') + word_of_nat (is_alive (pcs s i)) :: 64 word)"
    using arg_cong [OF sum_pcs_upd [OF assms(1), of is_alive "pcs s" x], of "word_of_nat :: _ \<Rightarrow> 64 word"]
      assms(2,3,5) by (simp add: count_inv_def)
  ultimately show ?thesis by (simp add: count_inv_def)
qed

lemma count_woken:
  assumes "count_inv n s" and "\<And>j. pcs s' j = pcs s j \<or> pcs s j = Asleep \<and> pcs s' j = Woken"
    and "num_threads_busy (pool s') = num_threads_busy (pool s)"
    and "num_threads_alive (pool s') = num_threads_alive (pool s)"
  shows "count_inv n s'"
  using assms(1,3,4) by (simp add: count_inv_def sum_woken [OF assms(2)])

lemma enqueue_wakes:
  assumes "if \<exists>i < n. g i = Asleep then \<exists>i < n. g i = Asleep \<and> x = g(i := Woken) else x = g"
  shows "x j = g j \<or> g j = Asleep \<and> x j = Woken"
  using assms by (auto split: if_splits)

lemma count_step:
  assumes "tstep spurious n s s'" and "count_inv n s" and inv: "tpool_inv (pool s)"
  shows "count_inv n s'"
  using assms(1)
proof (cases rule: tstep_cases)
  case (enqueue f a r p x)
  have "num_threads_busy p = num_threads_busy (pool s)" "num_threads_alive p = num_threads_alive (pool s)"
    using enqueue_effect [OF inv enqueue(3)] by simp_all
  with enqueue show ?thesis
    using count_woken [OF assms(2), of s'] enqueue_wakes [of n "pcs s" x] by simp
next
  case (enqueue_failed f a r p)
  have "num_threads_busy p = num_threads_busy (pool s)" "num_threads_alive p = num_threads_alive (pool s)"
    using enqueue_effect [OF inv enqueue_failed(3)] by simp_all
  with enqueue_failed show ?thesis using count_woken [OF assms(2), of s'] by simp
next
  case broadcast
  then show ?thesis using count_woken [OF assms(2), of s'] by simp
qed ((use assms(2) in \<open>simp add: count_inv_def; fail\<close>)
    | (auto intro!: count_goto [OF _ assms(2)])[1])+

lemma task_goto:
  assumes "i < n" and "task_inv n s" and "pcs s' = (pcs s)(i := x)" and "tpool_inv (pool s')"
    and "submitted s' = taken s' @ tpool_tasks (pool s')"
    and "mset (taken s') + finished s + running (pcs s i) =
      mset (taken s) + finished s' + running x"
  shows "task_inv n s'"
proof -
  have "(\<Sum>j < n. running (pcs s' j)) + running (pcs s i) = (\<Sum>j < n. running (pcs s j)) + running x"
    using sum_pcs_upd [OF assms(1), of running "pcs s" x] assms(3) by simp
  moreover have "mset (taken s) = finished s + (\<Sum>j < n. running (pcs s j))"
    using assms(2) by (simp add: task_inv_def)
  ultimately have "mset (taken s') + (finished s + running (pcs s i)) =
      finished s' + (\<Sum>j < n. running (pcs s' j)) + (finished s + running (pcs s i))"
    using assms(6) by (simp add: ac_simps)
  then show ?thesis using assms(4,5) by (simp add: task_inv_def)
qed

lemma task_quiet:
  assumes "i < n" and inv: "task_inv n s" and "\<forall>j. j \<noteq> i \<longrightarrow> pcs s' j = pcs s j"
    and "running (pcs s' i) = running (pcs s i)" and "p_queue_tasks (pool s') = p_queue_tasks (pool s)"
    and "submitted s' = submitted s" "taken s' = taken s" "finished s' = finished s"
  shows "task_inv n s'"
proof (rule task_goto [OF assms(1) inv, where x = "pcs s' i"])
  show "pcs s' = (pcs s)(i := pcs s' i)" using assms(3) by auto
qed (use inv assms(4-8) in \<open>simp_all add: task_inv_def tpool_tasks_def\<close>)

lemma task_woken:
  assumes "task_inv n s" and "\<And>j. pcs s' j = pcs s j \<or> pcs s j = Asleep \<and> pcs s' j = Woken"
    and "tpool_inv (pool s')" and "submitted s' = taken s @ tpool_tasks (pool s')"
    and "taken s' = taken s" and "finished s' = finished s"
  shows "task_inv n s'"
  using assms(1,3-6) by (simp add: task_inv_def sum_woken [OF assms(2)])

lemma task_step:
  assumes "tstep spurious n s s'" and "task_inv n s" and "flow_inv n s"
  shows "task_inv n s'"
  using assms(1)
proof (cases rule: tstep_cases)
  case (take i nd q1 t q2 r q)
  have "tpool_tasks (pool s) \<noteq> []" using take assms(3) by (auto simp: flow_inv_def pc_flow_def)
  then have "ll_inv q \<and> tpool_tasks (pool s) = t # map snd (ll_list q)"
    using take_effect [OF _ _ take(4-6)] assms(2) by (simp add: task_inv_def)
  with take assms(2) show ?thesis
    by (intro task_goto [OF take(2) assms(2), where x = "Running t"]) (simp_all add: task_inv_def tpool_tasks_def)
next
  case (enqueue f a r p x)
  have "tpool_inv p" "tpool_tasks p = tpool_tasks (pool s) @ [\<lparr>p_function = f, p_arg = a\<rparr>]"
    using enqueue_effect [OF _ enqueue(3)] enqueue(4) assms(2) by (simp_all add: task_inv_def)
  with enqueue assms(2) show ?thesis
    using task_woken [OF assms(2), of s'] enqueue_wakes [of n "pcs s" x] by (simp add: task_inv_def)
next
  case (enqueue_failed f a r p)
  have "tpool_inv p" "tpool_tasks p = tpool_tasks (pool s)"
    using enqueue_effect [OF _ enqueue_failed(3)] enqueue_failed(4) assms(2) by (simp_all add: task_inv_def)
  with enqueue_failed assms(2) show ?thesis
    using task_woken [OF assms(2), of s'] by (simp add: task_inv_def)
next
  case broadcast
  then show ?thesis using task_woken [OF assms(2), of s'] assms(2) by (simp add: task_inv_def)
next
  case (run i t)
  with assms(2) show ?thesis
    by (intro task_goto [OF run(2) assms(2), where x = Finish]) (simp_all add: task_inv_def)
qed ((use assms(2) in \<open>simp add: task_inv_def; fail\<close>) | (rule task_quiet [OF _ assms(2)], assumption, simp_all))+

text \<open>The lock of the task queue passes from one holder to the next.\<close>

lemma lock_keep:
  assumes inv: "lock_inv n s" and "\<And>j. holds_lock (pcs s' j) \<longleftrightarrow> holds_lock (pcs s j)"
    and "mutex_task_queue (pool s') = mutex_task_queue (pool s)" and "wedged s' = wedged s"
  shows "lock_inv n s'"
  using inv unfolding lock_inv_def assms(2-4) .

lemma lock_acquire:
  assumes "i < n" and inv: "lock_inv n s" and "\<not> mutex_task_queue (pool s)"
    and "\<forall>j. j \<noteq> i \<longrightarrow> pcs s' j = pcs s j" and "holds_lock (pcs s' i)"
    and "mutex_task_queue (pool s')" and "wedged s' = wedged s"
  shows "lock_inv n s'"
proof -
  have "\<not> wedged s" "\<And>j. j < n \<Longrightarrow> \<not> holds_lock (pcs s j)"
    using inv assms(3) unfolding lock_inv_def by (metis, metis)
  then have "j < n \<Longrightarrow> holds_lock (pcs s' j) \<longleftrightarrow> j = i" for j
    using assms(4,5) by metis
  then show ?thesis
    using assms(1,6,7) \<open>\<not> wedged s\<close> unfolding lock_inv_def by auto
qed

lemma lock_release:
  assumes "i < n" and inv: "lock_inv n s" and "holds_lock (pcs s i)"
    and "\<forall>j. j \<noteq> i \<longrightarrow> pcs s' j = pcs s j" and "\<not> holds_lock (pcs s' i)"
    and "\<not> mutex_task_queue (pool s')" and "wedged s' = wedged s"
  shows "lock_inv n s'"
proof -
  have "\<not> wedged s" "\<And>j. j < n \<Longrightarrow> holds_lock (pcs s j) \<Longrightarrow> j = i"
    using inv assms(1,3) unfolding lock_inv_def by (metis, metis)
  then have "j < n \<Longrightarrow> \<not> holds_lock (pcs s' j)" for j
    using assms(4,5) by metis
  then show ?thesis
    using assms(6,7) \<open>\<not> wedged s\<close> unfolding lock_inv_def by auto
qed

lemma lock_step:
  assumes "tstep spurious n s s'" and inv: "lock_inv n s" and "tpool_inv (pool s)"
  shows "lock_inv n s'"
  using assms(1)
proof (cases rule: tstep_cases)
  case (enqueue f a r p x)
  have "\<not> mutex_task_queue (pool s)" using enqueue_effect [OF assms(3) enqueue(3)] by simp
  with enqueue show ?thesis
    using woken_simps(4) [OF enqueue_wakes [OF enqueue(5)]]
    by (intro lock_keep [OF inv]) (simp_all del: holds_lock.simps)
next
  case (enqueue_failed f a r p)
  have "\<not> mutex_task_queue (pool s)" using enqueue_effect [OF assms(3) enqueue_failed(3)] by simp
  with inv have "\<forall>i < n. \<not> holds_lock (pcs s i)" unfolding lock_inv_def by metis
  with enqueue_failed(1,4) show ?thesis by (simp add: lock_inv_def del: holds_lock.simps)
qed ((rule lock_keep [OF inv]; simp; fail)
   | (rule lock_acquire [OF _ inv], assumption; simp; fail)
   | (rule lock_release [OF _ inv], assumption; simp; fail))+

text \<open>A thread that does not hold the lock depends on nothing but the termination flag.\<close>

lemma pc_flow_unlocked:
  "pc_flow p x \<Longrightarrow> \<not> holds_lock x \<Longrightarrow> b_terminate p \<longrightarrow> b_terminate p' \<Longrightarrow> pc_flow p' x"
  by (auto simp: pc_flow_def)

lemma pc_flow_same:
  "pc_flow p x \<Longrightarrow> tpool_tasks p' = tpool_tasks p \<Longrightarrow> b_terminate p' = b_terminate p \<Longrightarrow> pc_flow p' x"
  by (auto simp: pc_flow_def)

lemma pc_flow_woken:
  "pc_flow p x \<Longrightarrow> y = x \<or> x = Asleep \<and> y = Woken \<Longrightarrow> pc_flow p y"
  by (auto simp: pc_flow_def)

lemma flow_quiet:
  assumes "i < n" and inv: "flow_inv n s" and "\<forall>j. j \<noteq> i \<longrightarrow> pcs s' j = pcs s j"
    and "pc_flow (pool s') (pcs s' i)" and "running (pcs s' i) = running (pcs s i) \<or> running (pcs s' i) = {#}"
    and "tpool_tasks (pool s') = tpool_tasks (pool s)" and "b_terminate (pool s') = b_terminate (pool s)"
    and "owner s' = owner s \<or> owner s = Wait_asleep \<and> owner s' = Wait_test" and "pcs s i \<noteq> Gone"
  shows "flow_inv n s'"
proof -
  have "pc_flow (pool s') (pcs s' j)" if "j < n" for j
  proof (cases "j = i")
    case False
    then show ?thesis
      using that inv assms(3) pc_flow_same [OF _ assms(6,7)] by (simp add: flow_inv_def)
  qed (use assms(4) in simp)
  moreover have "running (pcs s' j) = {#}" if "j < n" "running (pcs s j) = {#}" for j
    using that assms(3,5) by (cases "j = i") auto
  moreover have "owner s \<noteq> Joined"
    using inv assms(1,9) by (auto simp: flow_inv_def owner_flow_def)
  ultimately show ?thesis
    using inv assms(8) unfolding flow_inv_def owner_flow_def assms(6,7) by auto
qed

lemma idle_not_running:
  assumes "count_inv n s" and "n < 2 ^ 64" and "num_threads_busy (pool s) = 0" and "i < n"
  shows "is_busy (pcs s i) = 0"
proof -
  have "is_busy x \<le> 1" for x :: "('a, 'b) thread_pc" by (cases x) auto
  then have "(\<Sum>i < n. is_busy (pcs s i)) \<le> (\<Sum>i < n. 1)" by (rule sum_mono)
  also have "\<dots> < 2 ^ 64" using assms(2) by simp
  finally have "unat (word_of_nat (\<Sum>i < n. is_busy (pcs s i)) :: 64 word) = (\<Sum>i < n. is_busy (pcs s i))"
    by (simp add: unat_of_nat del: of_nat_sum)
  then have "(\<Sum>i < n. is_busy (pcs s i)) = 0"
    using assms(1,3) by (simp add: count_inv_def del: of_nat_sum)
  with assms(4) show ?thesis by simp
qed

lemma busy_running: "is_busy x = 0 \<Longrightarrow> running x = {#}"
  by (cases x) auto

lemma pc_flow_others:
  assumes "flow_inv n s" and "j < n" and "\<not> holds_lock (pcs s j)" and "b_terminate (pool s) \<longrightarrow> b_terminate p"
  shows "pc_flow p (pcs s j)"
  using assms pc_flow_unlocked by (auto simp: flow_inv_def simp del: holds_lock.simps)

lemma flow_step:
  assumes "tstep spurious n s s'" and inv: "flow_inv n s" and lock: "lock_inv n s"
    and "count_inv n s" and "tpool_inv (pool s)" and "n < 2 ^ 64"
  shows "flow_inv n s'"
  using assms(1)
proof (cases rule: tstep_cases)
  case (take i nd q1 t q2 r q)
  have "tpool_tasks (pool s) \<noteq> []" using take inv by (auto simp: flow_inv_def pc_flow_def)
  then have "owner s \<notin> {Waited, Flagged, Joining, Joined}" using inv by (auto simp: flow_inv_def owner_flow_def)
  moreover have "\<not> holds_lock (pcs s j)" if "j < n" "j \<noteq> i" for j
    using that take(2,3) lock unfolding lock_inv_def by (metis holds_lock.simps)
  then have "pc_flow (pool s') (pcs s j)" if "j < n" "j \<noteq> i" for j
    using that take(1) by (intro pc_flow_others [OF inv]) auto
  ultimately show ?thesis
    using take(1) inv by (auto simp: flow_inv_def owner_flow_def pc_flow_def [of _ "Running t"])
next
  case (enqueue f a r p x)
  have p: "\<not> mutex_task_queue (pool s)" "b_terminate p = b_terminate (pool s)"
    using enqueue_effect [OF assms(5) enqueue(3)] by simp_all
  have "pc_flow p (x j)" if "j < n" for j
  proof (rule pc_flow_woken [OF _ enqueue_wakes [OF enqueue(5)]])
    show "pc_flow p (pcs s j)"
      using that p lock by (intro pc_flow_others [OF inv]) (auto simp: lock_inv_def split: if_splits)
  qed
  moreover have "owner s \<notin> {Waited, Flagged, Joining, Joined}"
    using enqueue(2) inv by (auto simp: flow_inv_def owner_flow_def)
  ultimately show ?thesis
    using enqueue(1) p inv by (auto simp: flow_inv_def owner_flow_def)
next
  case (enqueue_failed f a r p)
  have "tpool_tasks p = tpool_tasks (pool s)" "b_terminate p = b_terminate (pool s)"
    using enqueue_effect [OF assms(5) enqueue_failed(3)] enqueue_failed(4) by simp_all
  then show ?thesis
    using enqueue_failed(1) inv by (auto simp: flow_inv_def owner_flow_def pc_flow_def)
next
  case wait_done
  then show ?thesis
    using inv q_size_tasks [OF assms(5)] busy_running idle_not_running [OF assms(4,6)]
    by (auto simp: flow_inv_def owner_flow_def)
next
  case broadcast
  then show ?thesis
    using inv pc_flow_woken by (auto simp: flow_inv_def owner_flow_def)
next
  case flag
  then show ?thesis
    using inv by (auto simp: flow_inv_def owner_flow_def pc_flow_def)
qed ((use inv in \<open>simp add: flow_inv_def owner_flow_def; fail\<close>)
   | (rule flow_quiet [OF _ inv], assumption;
      use inv q_size_tasks [OF assms(5)] owner_finish_task in \<open>auto simp: flow_inv_def pc_flow_def\<close>; fail))+

lemma wake_step:
  assumes "tstep spurious n s s'" and "wake_inv n s" and "flow_inv n s" and "0 < n"
    and "tpool_inv (pool s)"
  shows "wake_inv n s'"
  using assms(1)
proof (cases rule: tstep_cases)
  case (enqueue f a r p x)
  show ?thesis
  proof (cases "\<exists>i < n. pcs s i = Asleep")
    case True
    with enqueue(1,5) show ?thesis by (auto simp: wake_inv_def)
  next
    case False
    with enqueue(1,5) assms(4) show ?thesis by (auto simp: wake_inv_def)
  qed
next
  case (enqueue_failed f a r p)
  have "tpool_tasks p = tpool_tasks (pool s)"
    using enqueue_effect [OF assms(5) enqueue_failed(3)] enqueue_failed(4) by simp
  with enqueue_failed(1) assms(2) show ?thesis by (simp add: wake_inv_def)
next
  case (sleep i)
  then show ?thesis using assms(3) by (auto simp: wake_inv_def flow_inv_def pc_flow_def)
next
  case broadcast
  then show ?thesis using assms(4) by (auto simp: wake_inv_def)
qed (use assms(2) in \<open>auto simp: wake_inv_def; fail\<close>)+

lemma tinv_step:
  assumes "tstep spurious n s s'" and "tinv n s" and "0 < n" and "n < 2 ^ 64"
  shows "tinv n s'"
proof -
  have "lock_inv n s" "count_inv n s" "task_inv n s" "flow_inv n s" "wake_inv n s" "tpool_inv (pool s)"
    using assms(2) by (simp_all add: tinv_def task_inv_def)
  with assms show ?thesis
    using lock_step count_step task_step flow_step wake_step unfolding tinv_def by metis
qed

subsection \<open>The pool as a step system\<close>

text \<open>
  The state \<open>rplib_tpool_start\<close> leaves: \<open>num_threads\<close> threads at the beginning of
  \<open>rplib_tpool_thread_do\<close>, which is all that their start routine \<open>rplib_tpool_thread_start\<close> calls.
\<close>

definition started_threads :: "('f, 'arg) rplib_tpool \<Rightarrow> ('f, 'arg) threads" where
  "started_threads p =
     \<lparr>pool = p, pcs = (\<lambda>i. Thread_new), owner = Owner_free, submitted = [], taken = [],
      finished = {#}, wedged = False\<rparr>"

interpretation tp: step_system "tstep spurious n" "\<lambda>s. tinv n s \<and> 0 < n \<and> n < 2 ^ 64" for spurious n
  by unfold_locales (auto intro: tinv_step)

lemma start_tinv:
  assumes "rplib_tpool_initialize n True True ms inits = Some (Inr (r, Some p))"
  shows "tinv n (started_threads p)" and "0 < n" and "tpool_tasks p = []"
    and "num_threads_busy p = 0" and "\<not> b_terminate p" and "\<not> mutex_task_queue p"
proof -
  obtain q where q: "rplib_ll_queue_create True ms = Some q"
      and p: "p = \<lparr>p_queue_tasks = q, p_thread_buf = True, num_threads = n, num_threads_busy = 0, num_threads_alive = 0,
        mutex_task_queue = False, mutex_thrd_count = False, b_terminate = False\<rparr>"
    using assms by (auto simp: rplib_tpool_initialize_def split: if_splits)
  have "ll_inv q" "ll_list q = []" using create_spec [OF q] by simp_all
  with p show "tinv n (started_threads p)" "tpool_tasks p = []"
    by (simp_all add: tinv_def lock_inv_def count_inv_def task_inv_def flow_inv_def pc_flow_def
        owner_flow_def wake_inv_def started_threads_def tpool_tasks_def)
  show "0 < n" using assms by (auto simp: rplib_tpool_initialize_def split: if_splits)
qed (use assms in \<open>auto simp: rplib_tpool_initialize_def split: if_splits\<close>)

end
