(* ===== verification/Tpool_Thread_Props.thy ===== *)
theory Tpool_Thread_Props
  imports Tpool_Threads
begin

text \<open>
  Properties of the threads of the pool: what holds in every state that any number of workers
  and the owner can reach from a freshly initialised pool, and two schedules on which the
  owner's \<open>rplib_tpool_wait\<close> and \<open>rplib_tpool_destroy\<close> never return.
\<close>

lemma reach_tinv:
  assumes "rplib_tpool_initialize n True True ms inits = Some (Inr (r, Some p))" and "n < 2 ^ 64"
    and "(tstep spurious n)\<^sup>*\<^sup>* (started_threads p) s"
  shows "tinv n s"
  using tp.reach_inv [OF assms(3)] start_tinv(1,2) [OF assms(1)] assms(2) by simp

text \<open>
  C8. Every state of the pool. Whatever the interleaving of the workers, of the owner and of
  spurious wake-ups, at most one thread is in the critical section of the task queue; the
  counters \<open>num_threads_busy\<close> and \<open>num_threads_alive\<close> are exactly the numbers of busy and of
  live threads; the tasks taken so far, followed by those in the queue, are the submitted
  ones in the order of submission; and every task taken has been finished or is being run by
  one thread, so none is lost and none is run twice.
\<close>

theorem pool_threads_invariant:
  assumes "rplib_tpool_initialize n True True ms inits = Some (Inr (r, Some p))" and "n < 2 ^ 64"
    and "(tstep spurious n)\<^sup>*\<^sup>* (started_threads p) s"
  shows "(\<forall>i < n. \<forall>j < n. holds_lock (pcs s i) \<longrightarrow> holds_lock (pcs s j) \<longrightarrow> i = j) \<and>
     num_threads_busy (pool s) = word_of_nat (\<Sum>i < n. is_busy (pcs s i)) \<and>
     num_threads_alive (pool s) = word_of_nat (\<Sum>i < n. is_alive (pcs s i)) \<and>
     submitted s = taken s @ tpool_tasks (pool s) \<and>
     mset (taken s) = finished s + (\<Sum>i < n. running (pcs s i))"
  using reach_tinv [OF assms]
  by (simp add: tinv_def lock_inv_def count_inv_def task_inv_def del: holds_lock.simps of_nat_sum)

text \<open>
  C10. When the wait is over. Once \<open>rplib_tpool_wait\<close> has returned to \<open>rplib_tpool_destroy\<close>, the
  task queue is empty, every task submitted has been finished, and no thread runs one; once
  the threads have been joined all of them are gone and no thread is counted as busy or alive.
\<close>

theorem wait_returns_when_drained:
  assumes "rplib_tpool_initialize n True True ms inits = Some (Inr (r, Some p))" and "n < 2 ^ 64"
    and "(tstep spurious n)\<^sup>*\<^sup>* (started_threads p) s"
    and "owner s \<in> {Waited, Flagged, Joining, Joined}"
  shows "tpool_tasks (pool s) = [] \<and> mset (submitted s) = finished s \<and>
     (\<forall>i < n. running (pcs s i) = {#}) \<and>
     (owner s = Joined \<longrightarrow> (\<forall>i < n. pcs s i = Gone) \<and>
        num_threads_busy (pool s) = 0 \<and> num_threads_alive (pool s) = 0)"
proof -
  have inv: "tinv n s" by (rule reach_tinv [OF assms(1-3)])
  then have q: "tpool_tasks (pool s) = []" "\<forall>i < n. running (pcs s i) = {#}"
      and gone: "owner s = Joined \<longrightarrow> (\<forall>i < n. pcs s i = Gone)"
    using assms(4) by (auto simp: tinv_def flow_inv_def owner_flow_def)
  have "mset (submitted s) = finished s"
    using inv q by (simp add: tinv_def task_inv_def)
  moreover have "owner s = Joined \<longrightarrow> num_threads_busy (pool s) = 0 \<and> num_threads_alive (pool s) = 0"
    using inv gone by (simp add: tinv_def count_inv_def)
  ultimately show ?thesis using q gone by blast
qed

lemma worker_progress:
  assumes "tinv n s" and "i < n" and "tpool_tasks (pool s) \<noteq> []"
    and "pcs s i \<noteq> Asleep" and "pcs s i \<noteq> Gone"
    and "mutex_task_queue (pool s) \<longrightarrow> holds_lock (pcs s i)"
  shows "\<exists>s'. tstep spurious n s s' \<and> pcs s' i \<noteq> pcs s i \<and> submitted s' = submitted s"
proof -
  have inv: "tpool_inv (pool s)" using assms(1) by (simp add: tinv_def task_inv_def)
  have can: ?thesis if "tstep spurious n s (goto i x s')" "x \<noteq> pcs s i" "submitted s' = submitted s" for x s'
    using that by (intro exI [of _ "goto i x s'"]) simp
  show ?thesis
  proof (cases "pcs s i")
    case Take
    obtain nd t q where "load_node (p_front (p_queue_tasks (pool s))) (p_queue_tasks (pool s)) =
        Some (Inr (nd, p_queue_tasks (pool s)))"
        "load_buf (p_data nd) (p_queue_tasks (pool s)) = Some (Inr (t, p_queue_tasks (pool s)))"
        "rplib_ll_queue_dequeue (p_queue_tasks (pool s)) = Some (Inr (RPLIB_SUCCESS, q))"
      by (rule take_enabled [OF inv assms(3)]) blast
    from can [OF tstep_take [OF assms(2) Take this]] Take show ?thesis by simp
  next
    case Test_queue
    have "q_size (p_queue_tasks (pool s)) \<noteq> 0" using assms(3) q_size_tasks [OF inv] by simp
    with can [OF tstep_job [OF assms(2) Test_queue]] Test_queue show ?thesis by simp
  next
    case Test_stop
    with can [OF tstep_stop [OF assms(2) Test_stop]] can [OF tstep_go [OF assms(2) Test_stop]]
    show ?thesis by (cases "b_terminate (pool s)") simp_all
  qed (use assms(4-6) can [OF tstep_alive [OF assms(2)]] can [OF tstep_busy [OF assms(2)]]
        can [OF tstep_lock [OF assms(2)]] can [OF tstep_idle [OF assms(2)]] can [OF tstep_sleep [OF assms(2)]]
        can [OF tstep_relock [OF assms(2)]] can [OF tstep_again [OF assms(2)]] can [OF tstep_run [OF assms(2)]]
        can [OF tstep_finish [OF assms(2)]] can [OF tstep_leave [OF assms(2)]] in simp_all)
qed

text \<open>
  C11. A queued task is not forgotten. As long as a task is in the queue, some worker can take
  a step (no enqueue has wedged the lock): signals are never lost to the workers,
  even if no condition wait ever returns on its own.
\<close>

theorem queued_task_progress:
  assumes "rplib_tpool_initialize n True True ms inits = Some (Inr (r, Some p))" and "n < 2 ^ 64"
    and "(tstep spurious n)\<^sup>*\<^sup>* (started_threads p) s"
    and "tpool_tasks (pool s) \<noteq> []" and "\<not> wedged s"
  shows "\<exists>i < n. \<exists>s'. tstep False n s s' \<and> pcs s' i \<noteq> pcs s i \<and> submitted s' = submitted s"
proof -
  have inv: "tinv n s" by (rule reach_tinv [OF assms(1-3)])
  have alive: "pcs s i \<noteq> Gone" if "i < n" for i
    using that inv assms(4) by (auto simp: tinv_def flow_inv_def owner_flow_def pc_flow_def)
  obtain i where i: "i < n" "pcs s i \<noteq> Asleep" "mutex_task_queue (pool s) \<longrightarrow> holds_lock (pcs s i)"
  proof (cases "mutex_task_queue (pool s)")
    case True
    then obtain i where "i < n" "holds_lock (pcs s i)"
      using inv assms(5) by (auto simp: tinv_def lock_inv_def simp del: holds_lock.simps)
    then show ?thesis using that [of i] by auto
  next
    case False
    then show ?thesis using that inv assms(4) by (auto simp: tinv_def wake_inv_def)
  qed
  with worker_progress [OF inv i(1) assms(4) i(2) alive [OF i(1)] i(3)] show ?thesis by blast
qed

subsection \<open>Lost signals\<close>

text \<open>Without spurious wake-ups, the owner sleeps on when no task is left to be finished.\<close>

definition missed_idle :: "nat \<Rightarrow> ('f, 'arg) threads \<Rightarrow> bool" where
  "missed_idle n s \<longleftrightarrow> tinv n s \<and> owner s = Wait_asleep \<and> tpool_tasks (pool s) = [] \<and>
     (\<forall>i < n. running (pcs s i) = {#} \<and> pcs s i \<noteq> Finish)"

lemma missed_idle_step:
  assumes "tstep False n s s'" and "missed_idle n s" and "0 < n" and "n < 2 ^ 64"
  shows "missed_idle n s'"
proof -
  have inv: "tinv n s'" using tinv_step [OF assms(1) _ assms(3,4)] assms(2) by (simp add: missed_idle_def)
  have "tpool_tasks (pool s) = []" "owner s = Wait_asleep"
    and pc: "\<And>i. i < n \<Longrightarrow> running (pcs s i) = {#} \<and> pcs s i \<noteq> Finish" and "flow_inv n s"
    using assms(2) by (auto simp: missed_idle_def tinv_def)
  then have "\<And>i. i < n \<Longrightarrow> pcs s i \<noteq> Take" by (auto simp: flow_inv_def pc_flow_def)
  with assms(1) inv assms(2) show ?thesis
    by (cases rule: tstep_cases) (auto simp: missed_idle_def)
qed

text \<open>A worker that falls asleep after the broadcast is never joined.\<close>

definition missed_stop :: "nat \<Rightarrow> ('f, 'arg) threads \<Rightarrow> bool" where
  "missed_stop n s \<longleftrightarrow> tinv n s \<and> owner s = Joining \<and> (\<exists>i < n. pcs s i = Sleep_call \<or> pcs s i = Asleep)"

lemma missed_stop_step:
  assumes "tstep False n s s'" and "missed_stop n s" and "0 < n" and "n < 2 ^ 64"
  shows "missed_stop n s'"
proof -
  have inv: "tinv n s'" using tinv_step [OF assms(1) _ assms(3,4)] assms(2) by (simp add: missed_stop_def)
  obtain i where i: "i < n" "pcs s i = Sleep_call \<or> pcs s i = Asleep" using assms(2) by (auto simp: missed_stop_def)
  have own: "owner s = Joining" "\<And>j. j < n \<Longrightarrow> running (pcs s j) = {#}"
    using assms(2) by (auto simp: missed_stop_def tinv_def flow_inv_def owner_flow_def)
  have closed: "\<not> (owner s = Owner_free \<or> (\<exists>j < n. \<exists>t. pcs s j = Running t))"
    using own by force
  have "(pcs s' i = Sleep_call \<or> pcs s' i = Asleep) \<and> owner s' = Joining"
    using assms(1)
  proof (cases rule: tstep_cases)
    case (finish j)
    then show ?thesis using i own owner_finish_task [of s] by auto
  qed (use i own(1) closed in \<open>auto; fail\<close>)+
  with inv i(1) show ?thesis by (auto simp: missed_stop_def)
qed

interpretation mi: step_system "tstep False n" "\<lambda>s. missed_idle n s \<and> 0 < n \<and> n < 2 ^ 64" for n
  by unfold_locales (auto intro: missed_idle_step)

interpretation ms: step_system "tstep False n" "\<lambda>s. missed_stop n s \<and> 0 < n \<and> n < 2 ^ 64" for n
  by unfold_locales (auto intro: missed_stop_step)

lemma missed_idle_reach:
  "(tstep False n)\<^sup>*\<^sup>* s s' \<Longrightarrow> missed_idle n s \<Longrightarrow> 0 < n \<Longrightarrow> n < 2 ^ 64 \<Longrightarrow>
   owner s' = Wait_asleep \<and> tpool_tasks (pool s') = []"
  using mi.reach_inv [of n s s'] by (simp add: missed_idle_def)

lemma missed_stop_reach:
  "(tstep False n)\<^sup>*\<^sup>* s s' \<Longrightarrow> missed_stop n s \<Longrightarrow> 0 < n \<Longrightarrow> n < 2 ^ 64 \<Longrightarrow> owner s' = Joining"
  using ms.reach_inv [of n s s'] by (simp add: missed_stop_def)

lemma first_worker_busy:
  assumes "0 < n"
  shows "(tstep sp n)\<^sup>*\<^sup>* (started_threads p)
    (goto 0 Lock_queue (add_busy 1 (goto 0 Loop_top (add_alive 1 (started_threads p)))))"
proof -
  have "tstep sp n (started_threads p) (goto 0 Loop_top (add_alive 1 (started_threads p)))"
    using assms by (intro tstep_alive) (simp_all add: started_threads_def)
  then show ?thesis
    by (rule converse_rtranclp_into_rtranclp) (use assms in \<open>intro r_into_rtranclp tstep_busy; simp\<close>)
qed

text \<open>
  C25. \<open>rplib_tpool_wait\<close> may never return. On a fresh pool there is a schedule after which the
  owner sleeps in \<open>rplib_tpool_wait\<close> although no task was ever submitted, and on which it is never
  woken: a worker that counts itself busy before it looks at the empty queue (line 145) takes the
  count back (line 156) without signalling \<open>cond_threads_idle\<close>.
\<close>

theorem wait_misses_idle:
  assumes "rplib_tpool_initialize n True True ms inits = Some (Inr (r, Some p))" and "n < 2 ^ 64"
  shows "\<exists>s. (tstep False n)\<^sup>*\<^sup>* (started_threads p) s \<and> submitted s = [] \<and>
     (\<forall>s'. (tstep False n)\<^sup>*\<^sup>* s s' \<longrightarrow> owner s' = Wait_asleep \<and> tpool_tasks (pool s') = [])"
proof -
  note st = start_tinv [OF assms(1)]
  define s1 where "s1 = goto 0 Lock_queue (add_busy 1 (goto 0 Loop_top (add_alive 1 (started_threads p))))"
  let ?s = "s1\<lparr>owner := Wait_asleep\<rparr>"
  have 1: "(tstep False n)\<^sup>*\<^sup>* (started_threads p) s1"
    unfolding s1_def by (rule first_worker_busy) (rule st(2))
  have s1: "owner s1 = Owner_free" "num_threads_busy (pool s1) = 1" "submitted s1 = []"
      "tpool_tasks (pool s1) = []" "\<And>i. pcs s1 i = (if i = 0 then Lock_queue else Thread_new)"
    using st by (simp_all add: s1_def started_threads_def)
  have 2: "tstep False n s1 (s1\<lparr>owner := Wait_test\<rparr>)" by (rule tstep_wait) (rule s1(1))
  have 3: "tstep False n (s1\<lparr>owner := Wait_test\<rparr>) ?s"
    using tstep_wait_on [of "s1\<lparr>owner := Wait_test\<rparr>" False n] s1(2) by simp
  have r: "(tstep False n)\<^sup>*\<^sup>* (started_threads p) ?s" using 1 2 3 by (meson rtranclp.rtrancl_into_rtrancl)
  then have "missed_idle n ?s \<and> 0 < n \<and> n < 2 ^ 64"
    using reach_tinv [OF assms r] st(2) assms(2) s1 by (simp add: missed_idle_def)
  then have "\<forall>s'. (tstep False n)\<^sup>*\<^sup>* ?s s' \<longrightarrow> owner s' = Wait_asleep \<and> tpool_tasks (pool s') = []"
    using missed_idle_reach by blast
  with r s1(3) show ?thesis by (intro exI [of _ ?s]) simp
qed

text \<open>
  C26. \<open>rplib_tpool_destroy\<close> may never return. The termination flag is set and broadcast
  without the lock of the task queue, so there is a schedule on which the broadcast falls between
  a worker's test of the flag (line 152) and its wait (line 159): the worker sleeps through the
  termination and the owner joins it forever.
\<close>

theorem destroy_misses_worker:
  assumes "rplib_tpool_initialize n True True ms inits = Some (Inr (r, Some p))" and "n < 2 ^ 64"
  shows "\<exists>s. (tstep False n)\<^sup>*\<^sup>* (started_threads p) s \<and> submitted s = [] \<and>
     b_terminate (pool s) \<and> (\<forall>s'. (tstep False n)\<^sup>*\<^sup>* s s' \<longrightarrow> owner s' = Joining)"
proof -
  note st = start_tinv [OF assms(1)]
  let ?R = "(tstep False n)\<^sup>*\<^sup>* (started_threads p)"
  define s1 where "s1 = goto 0 Lock_queue (add_busy 1 (goto 0 Loop_top (add_alive 1 (started_threads p))))"
  define s4 where "s4 = goto 0 Sleep_call (add_busy (- 1) (goto 0 Idle_dec (goto 0 Test_queue (queue_lock True s1))))"
  define s5 where "s5 = s4\<lparr>owner := Wait_test\<rparr>"
  define s6 where "s6 = s5\<lparr>owner := Waited\<rparr>"
  define s7 where "s7 = s6\<lparr>owner := Flagged, pool := (pool s6)\<lparr>b_terminate := True\<rparr>\<rparr>"
  define s8 where "s8 = s7\<lparr>owner := Joining, pcs := (\<lambda>i. if pcs s7 i = Asleep then Woken else pcs s7 i)\<rparr>"
  note sdefs = s1_def s4_def s5_def s6_def s7_def s8_def started_threads_def
  have q0: "q_size (p_queue_tasks p) = 0"
    using q_size_tasks [of p] st(1,3) by (simp add: tinv_def task_inv_def started_threads_def)
  have "?R s1" unfolding s1_def by (rule first_worker_busy) (rule st(2))
  moreover have "tstep False n s1 (goto 0 Test_queue (queue_lock True s1))"
    using st by (intro tstep_lock) (simp_all add: sdefs)
  moreover have "tstep False n (goto 0 Test_queue (queue_lock True s1)) (goto 0 Idle_dec (goto 0 Test_queue (queue_lock True s1)))"
    using st q0 by (intro tstep_empty) (simp_all add: sdefs)
  moreover have "tstep False n (goto 0 Idle_dec (goto 0 Test_queue (queue_lock True s1))) s4"
    unfolding s4_def using st by (intro tstep_idle) simp_all
  moreover have "tstep False n s4 s5" unfolding s5_def by (rule tstep_wait) (simp add: sdefs)
  moreover have "tstep False n s5 s6" unfolding s6_def by (rule tstep_wait_done) (use st q0 in \<open>simp_all add: sdefs\<close>)
  moreover have "tstep False n s6 s7" unfolding s7_def by (rule tstep_flag) (simp add: sdefs)
  moreover have "tstep False n s7 s8" unfolding s8_def by (rule tstep_broadcast) (simp add: sdefs)
  ultimately have r: "?R s8" by (meson rtranclp.rtrancl_into_rtrancl)
  moreover have "pcs s8 0 = Sleep_call" "owner s8 = Joining" "b_terminate (pool s8)" "submitted s8 = []"
    by (simp_all add: sdefs)
  ultimately have "missed_stop n s8 \<and> 0 < n \<and> n < 2 ^ 64"
    using reach_tinv [OF assms r] st(2) assms(2) by (auto simp: missed_stop_def)
  then have "\<forall>s'. (tstep False n)\<^sup>*\<^sup>* s8 s' \<longrightarrow> owner s' = Joining"
    using missed_stop_reach by blast
  with r \<open>b_terminate (pool s8)\<close> \<open>submitted s8 = []\<close> show ?thesis by blast
qed

subsection \<open>Witnesses\<close>

definition demo_threads :: "(nat, nat) rplib_tpool" where
  "demo_threads = \<lparr>p_queue_tasks = \<lparr>q_size = 0, p_front = NULL, p_rear = NULL,
       nodes = Map.empty, bufs = Map.empty, brk = 1, mallocs = []\<rparr>,
     p_thread_buf = True, num_threads = 4, num_threads_busy = 0, num_threads_alive = 0, mutex_task_queue = False,
     mutex_thrd_count = False, b_terminate = False\<rparr>"

lemma demo_threads_init:
  "rplib_tpool_initialize 4 True True [] [0, 0, 0, 0] = Some (Inr (RPLIB_SUCCESS, Some demo_threads))"
  by (simp add: rplib_tpool_initialize_def rplib_ll_queue_create_def demo_threads_def)

lemma demo_threads_queued:
  obtains s where "tstep sp 4 (started_threads demo_threads) s" and "\<not> wedged s"
    and "submitted s = [\<lparr>p_function = 1, p_arg = 2\<rparr>]" and "taken s = []"
proof -
  let ?s = "started_threads demo_threads"
  have q: "ll_inv (p_queue_tasks demo_threads)" "ll_list (p_queue_tasks demo_threads) = []"
    by (rule create_spec [of "[]"], simp add: rplib_ll_queue_create_def demo_threads_def)+
  then have "ll_rooms (Suc 0) (p_queue_tasks demo_threads)"
    by (simp add: ll_rooms_def INT_MAX_def) (simp add: demo_threads_def)
  then obtain p where p: "rplib_tpool_enqueue_task 1 2 demo_threads = Some (Inr (RPLIB_SUCCESS, p))"
      "\<not> mutex_task_queue p"
    using tq.enq_run [OF q(1), of 0 1 2] by (auto simp: demo_threads_def)
  have "tstep sp 4 ?s (?s\<lparr>pool := p, pcs := pcs ?s, submitted := submitted ?s @ [\<lparr>p_function = 1, p_arg = 2\<rparr>]\<rparr>)"
    by (rule tstep_enqueue [where r = RPLIB_SUCCESS]) (use p in \<open>simp_all add: started_threads_def\<close>)
  from that [OF this] show ?thesis by (simp add: started_threads_def)
qed

theorem pool_threads_invariant_witness:
  "\<exists>s. (tstep False 4)\<^sup>*\<^sup>* (started_threads demo_threads) s \<and>
     tpool_tasks (pool s) = [\<lparr>p_function = 1, p_arg = 2\<rparr>]"
proof -
  obtain s where "(tstep False 4)\<^sup>*\<^sup>* (started_threads demo_threads) s"
      "submitted s = [\<lparr>p_function = 1, p_arg = 2\<rparr>]" "taken s = []"
    by (rule demo_threads_queued) (rule that, rule r_into_rtranclp)
  with pool_threads_invariant [OF demo_threads_init, of False s] show ?thesis by auto
qed

theorem queued_task_progress_witness:
  "\<exists>s s'. (tstep False 4)\<^sup>*\<^sup>* (started_threads demo_threads) s \<and> tpool_tasks (pool s) \<noteq> [] \<and>
     tstep False 4 s s' \<and> submitted s' = submitted s"
proof -
  obtain s where s: "(tstep False 4)\<^sup>*\<^sup>* (started_threads demo_threads) s" "\<not> wedged s"
      "submitted s = [\<lparr>p_function = 1, p_arg = 2\<rparr>]" "taken s = []"
    by (rule demo_threads_queued) (rule that, rule r_into_rtranclp)
  have "tinv 4 s" by (rule reach_tinv [OF demo_threads_init _ s(1)]) simp
  with s have "tpool_tasks (pool s) \<noteq> []" by (auto simp: tinv_def task_inv_def)
  with queued_task_progress [OF demo_threads_init _ s(1) _ s(2)] s(1) show ?thesis by auto
qed

theorem wait_returns_when_drained_witness:
  "\<exists>s. (tstep False 4)\<^sup>*\<^sup>* (started_threads demo_threads) s \<and> owner s = Waited \<and>
     tpool_tasks (pool s) = [] \<and> finished s = {#}"
proof -
  let ?s = "started_threads demo_threads"
  let ?t = "?s\<lparr>owner := Waited\<rparr>"
  have "tstep False 4 ?s (?s\<lparr>owner := Wait_test\<rparr>)"
    by (rule tstep_wait) (simp add: started_threads_def)
  moreover have "tstep False 4 (?s\<lparr>owner := Wait_test\<rparr>) (?s\<lparr>owner := Wait_test\<rparr>\<lparr>owner := Waited\<rparr>)"
    by (rule tstep_wait_done) (simp_all add: started_threads_def demo_threads_def)
  ultimately have r: "(tstep False 4)\<^sup>*\<^sup>* ?s ?t"
    by (metis r_into_rtranclp rtranclp.rtrancl_into_rtrancl started_threads_def threads.update_convs(3))
  have "submitted ?t = []" "owner ?t = Waited" by (simp_all add: started_threads_def)
  with wait_returns_when_drained [OF demo_threads_init _ r] r show ?thesis by auto
qed

theorem wait_misses_idle_witness:
  "\<exists>s. (tstep False 4)\<^sup>*\<^sup>* (started_threads demo_threads) s \<and>
     (\<forall>s'. (tstep False 4)\<^sup>*\<^sup>* s s' \<longrightarrow> owner s' = Wait_asleep)"
  using wait_misses_idle [OF demo_threads_init] by auto

theorem destroy_misses_worker_witness:
  "\<exists>s. (tstep False 4)\<^sup>*\<^sup>* (started_threads demo_threads) s \<and>
     (\<forall>s'. (tstep False 4)\<^sup>*\<^sup>* s s' \<longrightarrow> owner s' = Joining)"
  using destroy_misses_worker [OF demo_threads_init] by auto

end
