(* ===== verification/Tpool_Refine.thy ===== *)
theory Tpool_Refine
  imports Tpool_Thread_Props
begin

text \<open>
  The thread pool as an implementation of a scheduler. The abstract state is the list of all tasks ever submitted, the
  list of waiting tasks, the tasks being run and the tasks done. A task is submitted at the end of the lists, the first
  waiting one is started while fewer than \<open>n\<close> are running, and a running one ends. Every single step of the threads,
  with their locks, condition variables, counters and the linked list, is one of these or changes nothing.
\<close>

subsection \<open>The abstract scheduler\<close>

type_synonym ('f, 'arg) sched =
  "('f, 'arg) rplib_tpool_task list \<times> ('f, 'arg) rplib_tpool_task list \<times>
   ('f, 'arg) rplib_tpool_task multiset \<times> ('f, 'arg) rplib_tpool_task multiset"

inductive sched_step :: "nat \<Rightarrow> ('f, 'arg) sched \<Rightarrow> ('f, 'arg) sched \<Rightarrow> bool" for n where
  submit: "sched_step n (h, q, r, f) (h @ [t], q @ [t], r, f)"
| begin_task: "size r < n \<Longrightarrow> sched_step n (h, t # q, r, f) (h, q, add_mset t r, f)"
| end_task: "sched_step n (h, q, add_mset t r, f) (h, q, r, add_mset t f)"

inductive_cases sched_stepE: "sched_step n s s'"

definition tasks_run :: "nat \<Rightarrow> ('f, 'arg) threads \<Rightarrow> ('f, 'arg) rplib_tpool_task multiset" where
  "tasks_run n s = (\<Sum>i < n. running (pcs s i))"

definition sched :: "nat \<Rightarrow> ('f, 'arg) threads \<Rightarrow> ('f, 'arg) sched" where
  "sched n s = (submitted s, tpool_tasks (pool s), tasks_run n s, finished s)"

subsection \<open>The running tasks\<close>

lemma size_running: "size (running x) \<le> 1"
  by (cases x) auto

lemma tasks_run_upd:
  assumes "i < n" and "pcs s' = (pcs s)(i := x)"
  shows "tasks_run n s' + running (pcs s i) = tasks_run n s + running x"
  using sum_pcs_upd [OF assms(1), of running "pcs s" x] by (simp add: tasks_run_def assms(2))

text \<open>A thread that runs nothing leaves room for a task.\<close>

lemma tasks_run_room:
  assumes "i < n" and "running (pcs s i) = {#}"
  shows "size (tasks_run n s) < n"
proof -
  have "(\<Sum>j < n. size (running (pcs s j))) = (\<Sum>j \<in> {..<n} - {i}. size (running (pcs s j)))"
    using assms sum.remove [of "{..<n}" i "\<lambda>j. size (running (pcs s j))"] by simp
  also have "\<dots> \<le> (\<Sum>j \<in> {..<n} - {i}. 1)" by (rule sum_mono) (rule size_running)
  also have "\<dots> < n" using assms(1) by simp
  finally show ?thesis by (simp add: tasks_run_def size_multiset_sum)
qed

lemma tasks_run_same: "(\<And>i. i < n \<Longrightarrow> running (pcs s' i) = running (pcs s i)) \<Longrightarrow> tasks_run n s' = tasks_run n s"
  by (simp add: tasks_run_def)

subsection \<open>Every step of the threads is a step of the scheduler or none\<close>

lemma sched_quiet:
  assumes "\<And>i. i < n \<Longrightarrow> running (pcs s' i) = running (pcs s i)"
    and "tpool_tasks (pool s') = tpool_tasks (pool s)" and "finished s' = finished s" and "submitted s' = submitted s"
  shows "sched_step n (sched n s) (sched n s') \<or> sched n s' = sched n s"
  using tasks_run_same [OF assms(1)] assms(2-4) by (simp add: sched_def)

lemma tstep_sim:
  assumes "tstep spurious n s s'" and inv: "tinv n s"
  shows "sched_step n (sched n s) (sched n s') \<or> sched n s' = sched n s"
  using assms(1)
proof (cases rule: tstep_cases)
  case (take i nd q1 t q2 r q)
  have tk: "task_inv n s" "flow_inv n s" using inv by (simp_all add: tinv_def)
  then have "tpool_tasks (pool s) \<noteq> []" using take by (auto simp: flow_inv_def pc_flow_def)
  then have q: "tpool_tasks (pool s) = t # tpool_tasks (pool s')"
    using take_effect [OF _ _ take(4-6)] tk(1) take(1) by (simp add: task_inv_def tpool_tasks_def)
  have "running (pcs s i) = {#}" using take(3) by simp
  moreover from this have "tasks_run n s' = add_mset t (tasks_run n s)"
    using tasks_run_upd [OF take(2), of s' s "Running t"] take(1) by simp
  ultimately have "sched_step n (sched n s) (sched n s')"
    using tasks_run_room [OF take(2), of s] q take(1) by (simp add: sched_def sched_step.begin_task)
  then show ?thesis ..
next
  case (run i t)
  have "tasks_run n s = add_mset t (tasks_run n s')"
    using tasks_run_upd [OF run(2), of s' s Finish] run(1,3) by simp
  then have "sched_step n (sched n s) (sched n s')"
    using run(1) by (simp add: sched_def sched_step.end_task)
  then show ?thesis ..
next
  case (enqueue f a r p x)
  have "tpool_inv (pool s)" using inv by (simp add: tinv_def task_inv_def)
  then have "tpool_tasks p = tpool_tasks (pool s) @ [\<lparr>p_function = f, p_arg = a\<rparr>]"
    using enqueue_effect [OF _ enqueue(3)] enqueue(4) by simp
  moreover have "running (pcs s' j) = running (pcs s j)" for j
    using enqueue_wakes [OF enqueue(5), of j] enqueue(1) by auto
  then have "tasks_run n s' = tasks_run n s" by (rule tasks_run_same)
  ultimately have "sched_step n (sched n s) (sched n s')"
    using enqueue(1) by (simp add: sched_def sched_step.submit)
  then show ?thesis ..
next
  case (enqueue_failed f a r p)
  have "tpool_inv (pool s)" using inv by (simp add: tinv_def task_inv_def)
  then show ?thesis
    using enqueue_effect [OF _ enqueue_failed(3)] enqueue_failed(1,4) by (intro sched_quiet) simp_all
qed (rule sched_quiet; auto; fail)+

interpretation ts: simulation "tstep spurious n" "\<lambda>s. tinv n s \<and> 0 < n \<and> n < 2 ^ 64" "sched_step n" "sched n" for spurious n
  by unfold_locales (rule tstep_sim, simp_all)

subsection \<open>Properties\<close>

text \<open>
  C9. The thread pool is a scheduler. Whatever the interleaving of workers, owner and spurious wake-ups, every single
  step that a pool of \<open>n\<close> threads takes is a step of the abstract scheduler or leaves its state alone: a task is
  accepted at the end of the queue, the oldest waiting one is started while fewer than \<open>n\<close> are running, or a
  running one ends. So no step loses or repeats a task, starts one that was not submitted, or lets one
  overtake another, and never more than \<open>n\<close> run at once.
\<close>

theorem pool_refines_scheduler:
  assumes "rplib_tpool_initialize n True True ms inits = Some (Inr (r, Some p))" and "n < 2 ^ 64"
    and "(tstep spurious n)\<^sup>*\<^sup>* (started_threads p) s"
  shows "sched n (started_threads p) = ([], [], {#}, {#}) \<and> size (tasks_run n s) \<le> n \<and>
     (\<forall>s'. tstep spurious n s s' \<longrightarrow> sched_step n (sched n s) (sched n s') \<or> sched n s' = sched n s)"
proof (intro conjI allI impI)
  let ?s = "started_threads p"
  have start: "tinv n ?s \<and> 0 < n \<and> n < 2 ^ 64" using start_tinv(1,2) [OF assms(1)] assms(2) by simp
  show "sched n ?s = ([], [], {#}, {#})"
    using start_tinv(3) [OF assms(1)] by (simp add: sched_def tasks_run_def started_threads_def)
  show "sched_step n (sched n s) (sched n s') \<or> sched n s' = sched n s" if "tstep spurious n s s'" for s'
    using assms(3) start that by (rule ts.reach_step_sim)
  have "(\<Sum>j < n. size (running (pcs s j))) \<le> (\<Sum>j < n. 1)" by (rule sum_mono) (rule size_running)
  then show "size (tasks_run n s) \<le> n" by (simp add: tasks_run_def size_multiset_sum)
qed

theorem pool_refines_scheduler_witness:
  "\<exists>s :: (nat, nat) threads. tstep False 4 (started_threads demo_threads) s \<and>
     sched_step 4 ([], [], {#}, {#}) (sched 4 s) \<and>
     sched 4 s = ([\<lparr>p_function = 1, p_arg = 2\<rparr>], [\<lparr>p_function = 1, p_arg = 2\<rparr>], {#}, {#})"
proof -
  obtain s where s: "tstep False 4 (started_threads demo_threads) s"
      "submitted s = [\<lparr>p_function = 1, p_arg = 2\<rparr>]" "taken s = []"
    using demo_threads_queued by metis
  have "(tstep False 4)\<^sup>*\<^sup>* (started_threads demo_threads) s" using s(1) by (rule r_into_rtranclp)
  then have "tinv 4 s" using reach_tinv [OF demo_threads_init] by simp
  then have sched: "sched 4 s = ([\<lparr>p_function = 1, p_arg = 2\<rparr>], [\<lparr>p_function = 1, p_arg = 2\<rparr>], {#}, {#})"
    using s(2,3) by (auto simp: tinv_def task_inv_def sched_def tasks_run_def)
  have "sched_step 4 ([], [], {#}, {#}) (sched 4 s)"
    using pool_refines_scheduler [OF demo_threads_init, of False "started_threads demo_threads"] s(1) sched by force
  with s(1) sched show ?thesis by blast
qed

end
