(* ===== verification/Tpool_Stop.thy ===== *)
theory Tpool_Stop
  imports Tpool_Thread_Props
begin

text \<open>
  When the pool does stop: if all workers sleep and no task is queued when the owner enters
  \<open>rplib_tpool_wait\<close>, every schedule is finite and ends with all threads joined.
\<close>

subsection \<open>The way to the end\<close>








subsection \<open>Every step leads on\<close>









subsection \<open>Properties\<close>


subsection \<open>Witness\<close>





end
