(* ===== verification/Chat_Refine.thy ===== *)
theory Chat_Refine
  imports Server_Props
begin

text \<open>
  The server as an implementation of a table of connections. The abstract state is the list of
  the connections, in the order in which they arrived, with their status. Its steps are those the protocol's
  state machine allows: connections arrive, one moves along an edge of \<open>next_status\<close>, a silent one expires, a closing
  one leaves. Every single step of the server (a worker's round, a batch of events, an action of the
  environment), with its heap, locks, task queue and system calls, is one of these or changes nothing.
\<close>

subsection \<open>The abstract system\<close>

type_synonym table = "(addr \<times> rpchat_conn_stat) list"

definition move :: "addr \<Rightarrow> rpchat_conn_stat \<Rightarrow> table \<Rightarrow> table" where
  "move p st t = map (\<lambda>(q, s). (q, if q = p then st else s)) t"

inductive table_step :: "table \<Rightarrow> table \<Rightarrow> bool" where
  arrive: "distinct ps \<Longrightarrow> set ps \<inter> fst ` set t = {} \<Longrightarrow>
     table_step t (t @ map (\<lambda>p. (p, RPCHAT_CONN_PRE_REGISTER)) ps)"
| move: "(p, st) \<in> set t \<Longrightarrow> st' \<in> set (next_status st) \<Longrightarrow> table_step t (move p st' t)"
| expire: "(p, st) \<in> set t \<Longrightarrow> st \<noteq> RPCHAT_CONN_CLOSING \<Longrightarrow> table_step t (move p RPCHAT_CONN_CLOSING t)"
| leave: "(p, RPCHAT_CONN_CLOSING) \<in> set t \<Longrightarrow> table_step t (filter (\<lambda>(q, s). q \<noteq> p) t)"

inductive_simps table_step_iff: "table_step t t'"

definition table :: "server \<Rightarrow> table" where
  "table w = map (\<lambda>p. (p, the (status w p))) (conn_ptrs w)"

subsection \<open>Lemmas on tables\<close>

lemma fst_table [simp]: "map fst (table w) = conn_ptrs w" "fst ` set (table w) = set (conn_ptrs w)"
  by (simp_all add: table_def comp_def image_image)

lemma table_mem: "(p, st) \<in> set (table w) \<longleftrightarrow> p \<in> set (conn_ptrs w) \<and> st = the (status w p)"
  by (auto simp: table_def)

subsection \<open>The pointers and the objects of the list\<close>

lemma conn_ptrs_dom:
  assumes "srv_inv L w"
  shows "set (conn_ptrs w) = dom (conn_map w)" and "distinct (conn_ptrs w)"
  using assms by (simp_all add: srv_inv_def ll_inv_def ll_wf_def conn_ptrs_def conn_map_def ll_ptrs_def)

subsection \<open>Every step of the server is an abstract step or none\<close>

lemma table_moved:
  assumes "conn_ptrs w' = conn_ptrs w" and "\<And>q. q \<noteq> p \<Longrightarrow> status w' q = status w q" and "status w' p = Some st"
  shows "table w' = move p st (table w)"
  using assms by (auto simp: table_def move_def)

lemma worker_sim:
  assumes inv: "srv_inv {} w" and step: "worker_step w = Some (Inr (go, w'))"
  shows "table_step (table w) (table w') \<or> table w' = table w"
proof (cases go)
  case False
  then show ?thesis using wp_D [OF wp_worker_step [OF inv] step] by (simp add: round_post_def)
next
  case True
  then obtain a w1 c where r: "round_start w a w1" "conn_map w (p_conn_info a) = Some c"
      "task_post {} (p_conn_info a) (conn_status c) (timed_out a c w) w1 w'"
    using wp_D [OF wp_worker_step [OF inv] step] unfolding round_post_def by (simp only: if_True) (elim exE conjE)
  let ?p = "p_conn_info a"
  have mem: "(?p, conn_status c) \<in> set (table w)"
    using r(2) conn_ptrs_dom(1) [OF inv] by (auto simp: table_mem status_def)
  have same: "status w' q = status w q" if "q \<noteq> ?p" for q
  proof -
    have "core w' q = core w q" using round_frame [OF r] that unfolding round_frame_def by blast
    then show ?thesis by (rule core_status)
  qed
  show ?thesis
  proof (cases "status w' ?p")
    case None
    then have "conn_status c = RPCHAT_CONN_CLOSING" "conn_ptrs w' = filter (\<lambda>q. q \<noteq> ?p) (conn_ptrs w)"
      using round_status [OF r] by simp_all
    moreover from this(2) have "table w' = filter (\<lambda>(q, s). q \<noteq> ?p) (table w)"
      by (simp add: table_def filter_map comp_def same)
    ultimately show ?thesis using mem by (auto intro: table_step.leave)
  next
    case (Some st)
    then have st: "st = conn_status c \<or> st \<in> set (next_status (conn_status c)) \<or> st = RPCHAT_CONN_CLOSING"
        "conn_ptrs w' = conn_ptrs w"
      using round_status [OF r] by auto
    have t: "table w' = move ?p st (table w)" using st(2) same Some by (rule table_moved)
    have "move ?p (conn_status c) (table w) = table w"
      using r(2) by (auto simp: move_def table_def status_def)
    then show ?thesis
      using st(1) mem by (cases "st = conn_status c") (auto simp: t intro: table_step.move table_step.expire)
  qed
qed

lemma grows_sim:
  assumes inv: "srv_inv {} w" and g: "grows {} w w'"
  shows "table_step (table w) (table w') \<or> table w' = table w"
proof -
  obtain ps where ps: "conn_ptrs w' = conn_ptrs w @ ps" using g by (auto simp: grows_def)
  have inv': "srv_inv {} w'" using g by (rule grows_inv)
  have old: "status w' q = status w q" if "q \<in> set (conn_ptrs w)" for q
    using that conn_ptrs_dom(1) [OF inv] grows_status [OF g] by (auto simp: status_def)
  have new: "status w' q = Some RPCHAT_CONN_PRE_REGISTER" if "q \<in> set ps" for q
  proof -
    have "conn_map w q = None" using that ps conn_ptrs_dom(2) [OF inv'] conn_ptrs_dom(1) [OF inv] by auto
    moreover have "q \<in> dom (conn_map w')" using that conn_ptrs_dom(1) [OF inv'] ps by auto
    then obtain d where "conn_map w' q = Some d" by blast
    ultimately show ?thesis using g by (simp add: grows_def newcomers_def status_def)
  qed
  have "table w' = table w @ map (\<lambda>p. (p, RPCHAT_CONN_PRE_REGISTER)) ps"
    using old new by (simp add: table_def ps)
  moreover have "distinct ps" "set ps \<inter> fst ` set (table w) = {}"
    using conn_ptrs_dom(2) [OF inv'] by (auto simp: ps)
  ultimately show ?thesis by (simp add: table_step.arrive)
qed

lemma chat_step_sim:
  assumes "chat_step srv ep sig w w'" and inv: "chat_inv srv sig w"
  shows "table_step (table w) (table w') \<or> table w' = table w"
  using assms(1)
proof (cases rule: chat_step.cases)
  case (worker go)
  then show ?thesis by (intro worker_sim [OF chat_inv_srv [OF inv]])
next
  case (events evs res)
  then show ?thesis
    using wp_D [OF wp_events_inv [OF inv]] by (intro grows_sim [OF chat_inv_srv [OF inv]]) blast
next
  case (env e)
  then show ?thesis by (simp add: table_def status_def env_views del: env_apply.simps)
qed

interpretation cs: simulation "chat_step srv ep sig" "chat_inv srv sig" table_step table for srv ep sig
  by unfold_locales (rule chat_step_sim)

subsection \<open>Properties\<close>

text \<open>
  C2. The server implements the table of connections. Start the server and let the main thread, the workers and the
  environment act in any order, whole batches of events and rounds one after the other, with allocations failing at any
  time: seen on the table of connections, every single step of the server from a reachable state is the arrival of
  unregistered clients, the move of one connection along one edge of the state machine, its expiry to
  \<open>RPCHAT_CONN_CLOSING\<close>, or the departure of one closing connection, and otherwise leaves the table alone. In
  particular no step removes a connection that was not closed first, and none changes two connections.
\<close>

theorem server_refines_table:
  assumes "booted b port s srv ep sig w0" and "interest s = Map.empty"
    and "(chat_step srv ep sig)\<^sup>*\<^sup>* w0 w" and "chat_step srv ep sig w w'"
  shows "table w0 = [] \<and> (table_step (table w) (table w') \<or> table w' = table w)"
  using cs.reach_step_sim [OF assms(3) booted_inv(1) [OF assms(1,2)] assms(4)] booted_inv(2) [OF assms(1,2)]
  by (simp add: table_def)

lemma good_booted_state:
  assumes "booted good_boot port first_os 3 4 7 w"
  shows "\<not> mutex_conn_ll (cq w)" and "ll_room (conn_ll w)" and "open_fds (sys w) 3" and "open_fds (sys w) 4"
    and "backlog (sys w) = 5 # []" and "\<not> open_fds (sys w) 5" and "interest (sys w) 5 = None"
    and "interest (sys w) 3 = Some (service_event 3)"
  using assms
  by (auto simp: booted_def good_boot_def good_setup_def first_os_def rpchat_begin_networking_def
      rpchat_setup_server_socket_def run_simps os_new_fd_def os_epoll_add_def rplib_ll_queue_create_def
      rpchat_conn_queue_create_def conn_ll_def ll_room_def mallocs_ok_def ll_list_def ll_ptrs_def ll_nodes_def INT_MAX_def)

text \<open>A run in which the first client is accepted.\<close>

lemma first_client:
  obtains w0 w p where "booted good_boot 9001 first_os 3 4 7 w0" and "chat_step 3 4 7 w0 w"
    and "table w = [(p, RPCHAT_CONN_PRE_REGISTER)]" and "conn_ptrs w = [p]"
proof -
  obtain w0 where w0: "booted good_boot 9001 first_os 3 4 7 w0" using good_booted by blast
  note st = good_booted_state [OF w0]
  have none: "interest first_os = Map.empty" by (simp add: first_os_def)
  have inv: "srv_inv {} w0" using booted_inv(1) [OF w0 none] by (rule chat_inv_srv)
  obtain p c w where w: "rpchat_handle_new_connection 3 4 w0 = Some (Inr (RPLIB_SUCCESS, w))"
      "conn_map w = (conn_map w0)(p \<mapsto> c)" "conn_ptrs w = conn_ptrs w0 @ [p]"
      "conn_status c = RPCHAT_CONN_PRE_REGISTER"
    using new_connection_run [OF inv st(1-5) _ st(6,7)] by auto
  have "rpchat_handle_events [service_event 3] 3 4 7 w0 = Some (Inr (RPLIB_SUCCESS, w))"
    using w(1) by (simp add: rpchat_handle_events_def service_event_def run_simps)
  then have "chat_step 3 4 7 w0 w" by (rule chat_step.events) (use st(8) in \<open>auto simp: reported_def\<close>)
  from that [OF w0 this] show ?thesis
    using w(2-4) booted_inv(2) [OF w0 none] by (simp add: table_def status_def)
qed

lemma first_os_free: "interest first_os = Map.empty"
  by (simp add: first_os_def)

theorem server_refines_table_witness:
  "\<exists>w0 w p. booted good_boot 9001 first_os 3 4 7 w0 \<and> chat_step 3 4 7 w0 w \<and>
     table w = [(p, RPCHAT_CONN_PRE_REGISTER)] \<and> table_step [] (table w)"
proof -
  obtain w0 w p where w: "booted good_boot 9001 first_os 3 4 7 w0" "chat_step 3 4 7 w0 w"
      "table w = [(p, RPCHAT_CONN_PRE_REGISTER)]"
    by (rule first_client)
  have "table_step [] (table w)"
    using server_refines_table [OF w(1) first_os_free rtranclp.rtrancl_refl w(2)] w(3) by auto
  with w show ?thesis by blast
qed

end
