(* ===== verification/Chat_Branches.thy ===== *)
theory Chat_Branches
  imports Chat_Protocol Chat_Props
begin

text \<open>
  Single branches of the event handler: looking a user name up, unknown opcodes, what a client
  may send while it owes a STATUS, sending an outbound message, and the heartbeat of a silent
  client.
\<close>

lemma lit_Nil [simp]: "lit [] = []"
  by (simp add: lit_def)

lemma format_msg_run:
  "str_arg s = Some u \<Longrightarrow> format_msg pre s post w =
     Some (Inr (snprintf_str (stack_string 0 (sys w)) (lit pre @ u @ lit post), w))"
  by (simp add: format_msg_def uninit_string_def bindM_return run_getsM run_returnM)

subsection \<open>Looking a user name up\<close>

lemma find_loop_run:
  assumes "nodes (conn_ll w) x = Some n" and "x \<noteq> NULL" and "conn_map w (p_data n) = Some c" and "p_data n \<noteq> NULL"
  shows "find_loop k x tgt 0 w =
     Some (Inr (if 0 < k \<and> len (username c) = len tgt then p_data n else NULL, w))"
  using run_main_node [OF assms(1,2)] run_load_conn [OF assms(3,4)]
  by (induction k) (simp_all add: run_returnM bindM_return)

lemma front_conn:
  assumes "srv_inv L w" and "conn_ptrs w = p # ps"
  obtains n c where "nodes (conn_ll w) (p_front (conn_ll w)) = Some n" and "p_front (conn_ll w) \<noteq> NULL"
    and "p_data n = p" and "conn_map w p = Some c" and "p \<noteq> NULL" and "unat (q_size (conn_ll w)) = Suc (length ps)"
proof -
  have inv: "ll_inv (conn_ll w)" using assms(1) by (simp add: srv_inv_def)
  then have wf: "ll_wf (conn_ll w) (ll_nodes (conn_ll w))" by (simp add: ll_inv_def)
  obtain x xs where x: "ll_nodes (conn_ll w) = x # xs" and p: "p = dptr (conn_ll w) x" "length xs = length ps"
    using assms(2) by (cases "ll_nodes (conn_ll w)") (auto simp: conn_ptrs_nodes)
  obtain n where n: "nodes (conn_ll w) x = Some n"
    by (rule ll_wf_nodeE [OF wf, of x]) (auto simp: x)
  have x0: "p_front (conn_ll w) = x" "x \<noteq> NULL" using wf x by (auto simp: ll_wf_def)
  moreover have "p_data n = p" using n p(1) by (simp add: dptr_def)
  moreover obtain c where "conn_map w p = Some c"
    using set_ll_ptrs [OF inv] assms(2) by (auto simp: conn_map_def conn_ptrs_def)
  ultimately show ?thesis
    using that [of n] n x0 srv_inv_not_NULL [OF assms(1)] unat_q_size [OF inv] p(2) x
    by (simp add: ll_list_def length_ll_ptrs)
qed

lemma find_by_username_run:
  assumes "srv_inv L w" and "\<not> mutex_conn_ll (cq w)"
  shows "rpchat_conn_queue_find_by_username tgt w = Some (Inr
     ((case conn_ptrs w of
         [] \<Rightarrow> NULL
       | p # ps \<Rightarrow> if map_option (\<lambda>c. len (username c)) (conn_map w p) = Some (len tgt) then p else NULL),
      w))"
proof -
  let ?w = "ll_mutex True w"
  have unlocked: "ll_mutex False ?w = w" using assms(2) by (simp add: ll_mutex_def)
  note run = rpchat_conn_queue_find_by_username_def lock_ll_run [OF assms(2)] unlock_ll_run bindM_return thenM_return
    run_getsM run_returnM unlocked view_simps
  show ?thesis
  proof (cases "conn_ptrs w")
    case Nil
    then have "q_size (conn_ll w) = 0"
      using assms(1) unat_q_size [of "conn_ll w"]
      by (simp add: conn_ptrs_def srv_inv_def ll_list_def unat_eq_zero)
    with Nil show ?thesis by (simp add: run)
  next
    case (Cons p ps)
    obtain n c where n: "nodes (conn_ll w) (p_front (conn_ll w)) = Some n" "p_front (conn_ll w) \<noteq> NULL"
        "p_data n = p" "conn_map w p = Some c" "p \<noteq> NULL" "unat (q_size (conn_ll w)) = Suc (length ps)"
      by (rule front_conn [OF assms(1) Cons])
    have "find_loop (Suc (length ps)) (p_front (conn_ll w)) tgt 0 ?w =
        Some (Inr (if 0 < Suc (length ps) \<and> len (username c) = len tgt then p_data n else NULL, ?w))"
      by (rule find_loop_run) (use n in \<open>simp_all add: view_simps\<close>)
    with n Cons show ?thesis by (simp add: run del: find_loop.simps)
  qed
qed

text \<open>
  C34. \<open>rpchat_conn_queue_find_by_username\<close> does not look a name up: it returns the first connection
  of the list if the lengths of the two names agree, whatever the characters are, and NULL
  otherwise, whoever else is in the list. It always returns, and changes nothing.
\<close>

theorem find_by_username_compares_first_length:
  assumes "srv_inv L w" and "\<not> mutex_conn_ll (cq w)"
  shows "rpchat_conn_queue_find_by_username tgt w = Some (Inr
     ((case conn_ptrs w of
         [] \<Rightarrow> NULL
       | p # ps \<Rightarrow> if map_option (\<lambda>c. len (username c)) (conn_map w p) = Some (len tgt) then p else NULL),
      w))"
  using assms by (rule find_by_username_run)

theorem find_by_username_compares_first_length_witness:
  "rpchat_conn_queue_find_by_username (demo_str [120, 121, 122, 0]) demo_send = Some (Inr (2, demo_send)) \<and>
   rpchat_conn_queue_find_by_username (demo_str [120, 0]) demo_send = Some (Inr (NULL, demo_send))"
  using find_by_username_compares_first_length [OF demo_send_inv]
  by (simp add: demo_send_def) (simp add: demo_conn_def demo_str_def)

subsection \<open>Unknown opcodes\<close>

lemma sint_opcodes: "sint (1 :: byte) = 1" "sint (2 :: byte) = 2" "sint (3 :: byte) = 3" "sint (4 :: byte) = 4"
  by simp_all

text \<open>
  C36. An unknown opcode is a registration. \<open>rpchat_get_msg_type\<close> reports an opcode that is none of
  the protocol's four with \<open>RPLIB_UNSUCCESS\<close>, which is the number of \<open>RPCHAT_BCP_REGISTER\<close>; the message is
  handled exactly as a REGISTER with the same contents.
\<close>

theorem unknown_opcode_registers:
  assumes "0 < buf_cap b" and "buf_bytes b 0 \<notin> {1, 2, 3, 4}"
  shows "rpchat_handle_msg p (Some b) = rpchat_handle_msg p (Some (b\<lparr>buf_bytes := (buf_bytes b)(0 := 1)\<rparr>))"
proof -
  have "sint x \<noteq> 1 \<and> sint x \<noteq> 2 \<and> sint x \<noteq> 3 \<and> sint x \<noteq> 4" if "x \<notin> {1, 2, 3, 4}" for x :: byte
    using that by (metis insertI1 insertI2 sint_opcodes signed_word_eqI)
  from this [OF assms(2)]
  have "rpchat_get_msg_type (Some b) = (if buf_live b then Inr RPCHAT_BCP_REGISTER else Inl UseAfterFree)"
    using assms by (simp add: rpchat_get_msg_type_def read_buf_def Let_def)
  moreover have "rpchat_get_msg_type (Some (b\<lparr>buf_bytes := (buf_bytes b)(0 := 1)\<rparr>)) =
      (if buf_live b then Inr RPCHAT_BCP_REGISTER else Inl UseAfterFree)"
    using assms(1) by (simp add: rpchat_get_msg_type_def read_buf_def Let_def)
  ultimately show ?thesis by (simp add: rpchat_handle_msg_def)
qed

theorem unknown_opcode_registers_witness:
  "rpchat_handle_msg 2 (Some \<lparr>buf_cap = 1, buf_bytes = (\<lambda>_. 255), buf_live = True\<rparr>) =
   rpchat_handle_msg 2 (Some \<lparr>buf_cap = 1, buf_bytes = (\<lambda>_. 255)(0 := 1), buf_live = True\<rparr>)"
  using unknown_opcode_registers [of "\<lparr>buf_cap = 1, buf_bytes = (\<lambda>_. 255), buf_live = True\<rparr>"] by simp

subsection \<open>A message from a client that owes a STATUS\<close>

lemma start_listening_run:
  assumes "conn_map w p = Some c" and "p \<noteq> NULL"
  shows "\<exists>s. start_listening p w = Some (Inr ((), w\<lparr>sys := s\<rparr>)) \<and> tx s = tx (sys w) \<and>
     (open_fds (sys w) (h_fd_epoll (cq w)) \<longrightarrow> open_fds (sys w) (h_fd c) \<longrightarrow> interest (sys w) (h_fd c) = None \<longrightarrow>
        interest s (h_fd c) = Some (conn_event p))"
proof -
  let ?s = "(sys w)\<lparr>interest := (interest (sys w))(h_fd c \<mapsto> conn_event p)\<rparr>"
  have "start_listening p w = Some (Inr ((), w\<lparr>sys := (if \<not> open_fds (sys w) (h_fd_epoll (cq w)) \<or>
      \<not> open_fds (sys w) (h_fd c) \<or> interest (sys w) (h_fd c) \<noteq> None then sys w else ?s)\<rparr>))"
    using run_load_conn [OF assms]
    by (simp add: start_listening_def bindM_return thenM_return run_simps rpchat_toggle_descriptor_def
        os_epoll_add_def)
  then show ?thesis by (intro exI conjI, assumption) simp_all
qed

text \<open>
  C35. A client that owes a STATUS may send. In \<open>RPCHAT_CONN_PENDING_STATUS\<close> a SEND message is not
  refused, as the comment in the code has it: it is broadcast to everybody else like any other, the
  client becomes available without having sent the STATUS, and gets no STATUS for its message.
\<close>

theorem pending_status_accepts_send:
  assumes "srv_inv L w" and "conn_map w p = Some c" and "conn_status c = RPCHAT_CONN_PENDING_STATUS"
    and "send_event p args" and "rx (sys w) (h_fd c) = encode (Send bs) @ rest"
    and "length bs \<le> RPCHAT_MAX_STR_LENGTH" and "sanitize_spec True bs \<noteq> []"
    and "str_arg (username c) \<noteq> None" and "\<not> mutex_conn_ll (cq w)"
    and "plenty (length (filter (\<lambda>q. q \<noteq> p) (conn_ptrs w))) w"
    and "\<forall>q \<in> set (conn_ptrs w). q \<noteq> p \<longrightarrow> receptive w q"
  shows "\<exists>w' args' new. case_pending_status args w = Some (Inr ((Break RPLIB_SUCCESS, args'), w')) \<and>
     status w' p = Some RPCHAT_CONN_AVAILABLE \<and> queued w' = queued w @ new \<and>
     map (\<lambda>a. (args_type a, p_conn_info a, payload a)) new =
       map (\<lambda>q. (RPCHAT_PROC_EVENT_OUTBOUND, q,
                 encode (Deliver (str_bytes (username c)) (sanitize_spec True bs))))
         (filter (\<lambda>q. q \<noteq> p) (conn_ptrs w))"
proof -
  have st: "RPCHAT_CONN_PENDING_STATUS \<noteq> RPCHAT_CONN_CLOSING" by simp
  have m: "moves L p RPCHAT_CONN_PENDING_STATUS w w" using moves_start [OF assms(1,2)] assms(3) by simp
  have "plenty (length (filter (\<lambda>q. q \<noteq> p) (conn_ptrs w)) + 0) w" using assms(10) by simp
  from inbound_send_run [OF m st assms(2,4-9) this assms(11)]
  obtain w1 args1 new where w1: "rpchat_conn_proc_handle_inbound_msg args w = Some (Inr ((RPLIB_SUCCESS, args1), w1))"
      "moves L p RPCHAT_CONN_PENDING_STATUS w w1" "queued w1 = queued w @ new"
      "map addressed new = map (\<lambda>q. (RPCHAT_PROC_EVENT_OUTBOUND, q,
         encode (Deliver (str_bytes (username c)) (sanitize_spec True bs)))) (filter (\<lambda>q. q \<noteq> p) (conn_ptrs w))"
    by (elim exE conjE)
  obtain c1 where c1: "conn_map w1 p = Some c1" using w1(2) by (elim moves_conn)
  let ?w2 = "upd_conn p (c1\<lparr>conn_status := RPCHAT_CONN_AVAILABLE\<rparr>) w1"
  have set: "set_status p RPCHAT_CONN_AVAILABLE w1 = Some (Inr ((), ?w2))"
    using set_status_st_run [OF w1(2) _ c1, of RPCHAT_CONN_AVAILABLE] by simp
  have c2: "conn_map ?w2 p = Some (c1\<lparr>conn_status := RPCHAT_CONN_AVAILABLE\<rparr>)" by (simp add: view_simps)
  obtain s where s: "start_listening p ?w2 = Some (Inr ((), ?w2\<lparr>sys := s\<rparr>))"
    using start_listening_run [OF c2 srv_inv_not_NULL [OF assms(1,2)]] by blast
  have "case_pending_status args w = Some (Inr ((Break RPLIB_SUCCESS, args1), ?w2\<lparr>sys := s\<rparr>))"
    using assms(4) w1(1) set s
    by (simp add: case_pending_status_def send_event_def Let_def bindM_return thenM_return run_returnM)
  moreover have "status (?w2\<lparr>sys := s\<rparr>) p = Some RPCHAT_CONN_AVAILABLE" "queued (?w2\<lparr>sys := s\<rparr>) = queued w @ new"
    using w1(3) by (simp_all add: status_def view_simps)
  ultimately show ?thesis using w1(4) unfolding addressed_eq by blast
qed

definition demo_pending :: server where
  "demo_pending = demo (demo_conn 5 RPCHAT_CONN_PENDING_STATUS [97, 109, 121, 0] 1)
     (demo_conn 6 RPCHAT_CONN_AVAILABLE [98, 111, 98, 0] 0)
     demo_out (demo_os 0 (encode (Send [104, 105]) @ [9]))"

lemma demo_amy: "str_arg (username (demo_conn fd st [97, 109, 121, 0] n)) \<noteq> None"
  using c_str_store [of "[97, 109, 121]" 4096 "\<lambda>_. 0" 0]
  by (simp add: str_arg_def demo_conn_def demo_str_def STR_STORAGE_def)

theorem pending_status_accepts_send_witness:
  "\<exists>w' args' new. case_pending_status demo_out demo_pending = Some (Inr ((Break RPLIB_SUCCESS, args'), w')) \<and>
     status w' 2 = Some RPCHAT_CONN_AVAILABLE \<and> queued w' = demo_out # new"
proof -
  have inv: "srv_inv {} demo_pending"
    unfolding demo_pending_def by (rule demo_inv) (simp_all add: demo_conn_ok demo_out_ready)
  have w: "conn_map demo_pending 2 = Some (demo_conn 5 RPCHAT_CONN_PENDING_STATUS [97, 109, 121, 0] 1)"
      "conn_ptrs demo_pending = [2, 4]" "\<not> mutex_conn_ll (cq demo_pending)" "queued demo_pending = [demo_out]"
      "rx (sys demo_pending) 5 = encode (Send [104, 105]) @ [9]"
    by (simp_all add: demo_pending_def) (simp add: demo_os_def)
  have mem: "plenty (length (filter (\<lambda>q. q \<noteq> 2) (conn_ptrs demo_pending))) demo_pending"
    unfolding w(2) demo_pending_def by (rule demo_plenty) simp
  have rcp: "\<forall>q \<in> set (conn_ptrs demo_pending). q \<noteq> 2 \<longrightarrow> receptive demo_pending q"
    by (simp add: w(2)) (simp add: demo_pending_def receptive_def)
  from pending_status_accepts_send [OF inv w(1) _ demo_send_event _ _ _ demo_amy w(3) mem rcp,
      of "[104, 105]" "[9]"] w(4,5)
  show ?thesis by (auto simp: keep_hi RPCHAT_MAX_STR_LENGTH_def)
qed

subsection \<open>Sending a message\<close>

text \<open>
  C20. Sending a DELIVER. A DELIVER task of a connection in \<open>RPCHAT_CONN_SEND_MSG\<close> is handed to
  \<open>send\<close> from its first byte on; if \<open>send\<close> accepts \<open>r\<close> bytes, exactly the first \<open>r\<close> bytes of the
  wire format go out, so everything does if it accepts the whole message, and the connection listens again
  and waits for a STATUS (given a descriptor that is open and not registered already). A short count is not noticed:
  the rest of the message is never sent.
\<close>

theorem deliver_is_sent:
  assumes "srv_inv L w" and "conn_map w p = Some c" and "conn_status c = RPCHAT_CONN_SEND_MSG"
    and "p_conn_info args = p" and "args_type args = RPCHAT_PROC_EVENT_OUTBOUND"
    and "p_msg_buf args = Some b" and "buf_live b \<and> sz_msg_buf args \<le> buf_cap b"
    and "payload args = encode (Deliver from text)"
    and "open_fds (sys w) (h_fd_epoll (cq w))" and "interest (sys w) (h_fd c) = None"
    and "case send_results (sys w) of [] \<Rightarrow> r = length (encode (Deliver from text)) | k # ks \<Rightarrow> k = int r"
  shows "\<exists>w'. proc_switch args w = Some (Inr ((Break RPLIB_SUCCESS, args), w')) \<and>
     tx (sys w') = tx (sys w) @ [(h_fd c, take r (encode (Deliver from text)))] \<and>
     status w' p = Some RPCHAT_CONN_PENDING_STATUS \<and> interest (sys w') (h_fd c) = Some (conn_event p)"
proof -
  have p: "p \<noteq> NULL" by (rule srv_inv_not_NULL [OF assms(1,2)])
  have m: "moves L p RPCHAT_CONN_SEND_MSG w w" using moves_start [OF assms(1,2)] assms(3) by simp
  have "fd_of w p = Some (h_fd c)" using assms(2) by (simp add: fd_of_def)
  from moves_open [OF m _ this] have fd: "open_fds (sys w) (h_fd c)" by simp
  let ?bs = "encode (Deliver from text)"
  have bytes: "map (buf_bytes b) [0..<sz_msg_buf args] = ?bs" using assms(6,8) by (simp add: payload_def)
  then have sz: "sz_msg_buf args = length ?bs" by (metis length_map length_upt diff_zero)
  then have "0 < sz_msg_buf args" by simp
  moreover from this have "buf_bytes b 0 = ?bs ! 0" unfolding bytes [symmetric] by simp
  ultimately have "0 < sz_msg_buf args" "buf_bytes b 0 = 3" by simp_all
  then have ty: "rpchat_get_msg_type (Some b) = Inr RPCHAT_BCP_DELIVER"
    using assms(7) by (simp add: rpchat_get_msg_type_def read_buf_def Let_def)
  let ?s = "(sys w)\<lparr>send_results := tl (send_results (sys w)), tx := tx (sys w) @ [(h_fd c, take r ?bs)]\<rparr>"
  let ?w1 = "w\<lparr>sys := ?s\<rparr>"
  have "take (min r (length ?bs)) ?bs = take r ?bs" by (simp add: min_def)
  then have send: "os_op (rpchat_sendmsg (h_fd c) ?bs) w = Some (Inr (int (min r (length ?bs)), ?w1))"
    using fd assms(11)
    by (cases "send_results (sys w)")
      (simp_all add: rpchat_sendmsg_def os_send_def run_simps Let_def EPIPE_def del: encode.simps)
  have read: "read_buf (Some b) (sz_msg_buf args) = Inr ?bs"
    using assms(7) bytes by (simp add: read_buf_def del: encode.simps)
  have out: "rpchat_conn_proc_handle_outbound_msg args w = Some (Inr (RPLIB_SUCCESS, ?w1))"
    using send read ty assms(4,6) run_load_conn [OF assms(2) p]
    by (simp add: rpchat_conn_proc_handle_outbound_msg_def rpchat_conn_info_submit_msg_def run_liftM bindM_return
        thenM_return run_returnM Let_def del: encode.simps)
  have c1: "conn_map ?w1 p = Some c" using assms(2) by (simp add: view_simps)
  let ?c = "c\<lparr>conn_status := RPCHAT_CONN_PENDING_STATUS\<rparr>" and ?w2 = "upd_conn p (c\<lparr>conn_status := RPCHAT_CONN_PENDING_STATUS\<rparr>) ?w1"
  have set: "set_status p RPCHAT_CONN_PENDING_STATUS ?w1 = Some (Inr ((), ?w2))"
    using run_store_conn [OF c1 p] by (simp add: set_status_def)
  have c2: "conn_map ?w2 p = Some ?c" by (simp add: view_simps)
  obtain s where s: "start_listening p ?w2 = Some (Inr ((), ?w2\<lparr>sys := s\<rparr>))" "tx s = tx (sys ?w2)"
      "interest s (h_fd c) = Some (conn_event p)"
    using start_listening_run [OF c2 p] fd assms(9,10) by (auto simp: view_simps)
  have "proc_switch args w = Some (Inr ((Break RPLIB_SUCCESS, args), ?w2\<lparr>sys := s\<rparr>))"
    using out set s(1) assms(3-5) run_load_conn [OF assms(2) p]
    by (simp add: proc_switch_def case_send_msg_def bindM_return thenM_return run_returnM Let_def)
  moreover have "status (?w2\<lparr>sys := s\<rparr>) p = Some RPCHAT_CONN_PENDING_STATUS"
    by (simp add: status_def view_simps)
  ultimately show ?thesis using s(2,3) by (auto simp: view_simps)
qed

theorem deliver_is_sent_witness:
  "\<exists>a w w'. proc_switch a w = Some (Inr ((Break RPLIB_SUCCESS, a), w')) \<and>
     tx (sys w') = [(5, encode (Deliver [97] [104, 105]))] \<and> status w' 2 = Some RPCHAT_CONN_PENDING_STATUS"
proof -
  let ?m = "Deliver [97] [104, 105]" and ?b = "\<lparr>buf_cap = SIZEOF_PKT_DELIVER, buf_bytes = (\<lambda>_. 0), buf_live = True\<rparr>"
  let ?a = "with_msg (demo_args RPCHAT_PROC_EVENT_OUTBOUND) ?b ?m"
  let ?c = "demo_conn 5 RPCHAT_CONN_SEND_MSG [] 1"
  let ?w = "demo ?c (demo_conn 6 RPCHAT_CONN_AVAILABLE [98, 111, 98, 0] 0) ?a (demo_os 0 [])"
  have "ready 2 ?a"
    by (simp add: with_msg_def demo_args_def ready_def buf_ok_def fill_def SIZEOF_PKT_STATUS_def SIZEOF_PKT_DELIVER_def
        SIZEOF_STRING_def STR_STORAGE_def enc_string_def be16_def)
  then have inv: "srv_inv {} ?w"
    by (intro demo_inv) (simp_all add: demo_conn_ok)
  have b: "p_msg_buf ?a = Some (fill ?b (encode ?m))" "buf_live (fill ?b (encode ?m)) \<and> sz_msg_buf ?a \<le> buf_cap (fill ?b (encode ?m))"
    by (simp_all add: with_msg_def fill_def enc_string_def be16_def SIZEOF_PKT_DELIVER_def SIZEOF_STRING_def
        STR_STORAGE_def)
  have "\<exists>w'. proc_switch ?a ?w = Some (Inr ((Break RPLIB_SUCCESS, ?a), w')) \<and>
     tx (sys w') = tx (sys ?w) @ [(h_fd ?c, take (length (encode ?m)) (encode ?m))] \<and>
     status w' 2 = Some RPCHAT_CONN_PENDING_STATUS \<and> interest (sys w') (h_fd ?c) = Some (conn_event 2)"
    by (rule deliver_is_sent [OF inv _ _ _ _ b]) (simp_all, simp_all add: demo_args_def demo_cq demo_os_def)
  then show ?thesis by (auto simp: demo_os_def)
qed

subsection \<open>The heartbeat of a silent client\<close>

definition inactivity :: "byte list" where
  "inactivity = lit ''Disconnected for inactivity.''"

lemma inactivity_str:
  "str_wf (snprintf_str s inactivity)" "str_bytes (snprintf_str s inactivity) = inactivity"
  using snprintf_str_exact [of inactivity s] length_str_bytes [of "snprintf_str s inactivity"]
  by (simp_all add: inactivity_def lit_def RPCHAT_MAX_STR_LENGTH_def str_wf_def STR_STORAGE_def)

lemma case_err_run:
  assumes c: "conn_map w p = Some c" "p \<noteq> NULL" and wf: "str_wf (stat_msg c)"
    and a: "p_conn_info args = p" "p_msg_buf args = Some b" "buf_live b" "SIZEOF_PKT_STATUS \<le> buf_cap b"
    and fd: "open_fds (sys w) (h_fd c)" "send_results (sys w) = []"
  shows "case_err args w = Some (Inr ((Goto_requeue, with_msg args b (Status RPCHAT_BCP_STATUS_ERROR (str_bytes (stat_msg c)))),
     upd_conn p ((clear_stat c)\<lparr>conn_status := RPCHAT_CONN_CLOSING\<rparr>)
      (w\<lparr>sys := (sys w)\<lparr>tx := tx (sys w) @ [(h_fd c, encode (Status RPCHAT_BCP_STATUS_ERROR (str_bytes (stat_msg c))))],
         open_fds := (open_fds (sys w))(h_fd c := False), interest := (interest (sys w))(h_fd c := None)\<rparr>\<rparr>)))"
proof -
  let ?m = "Status RPCHAT_BCP_STATUS_ERROR (str_bytes (stat_msg c))"
  let ?a = "with_msg args b ?m" and ?w1 = "upd_conn p (clear_stat c) w"
  have set: "rpchat_conn_proc_set_status p args RPCHAT_BCP_STATUS_ERROR w = Some (Inr ((RPLIB_SUCCESS, ?a), ?w1))"
    by (rule set_status_run [OF c wf a(2-4)])
  have c1: "conn_map ?w1 p = Some (clear_stat c)" by (simp add: view_simps)
  have "length (encode ?m) \<le> buf_cap b"
    using wf a(4) by (simp add: str_wf_def SIZEOF_PKT_STATUS_def SIZEOF_STRING_def)
  then have read: "read_buf (p_msg_buf ?a) (sz_msg_buf ?a) = Inr (encode ?m)"
    using a(3) by (simp add: with_msg_def fill_def read_buf_def map_store_bytes del: encode.simps)
  let ?w2 = "?w1\<lparr>sys := (sys w)\<lparr>tx := tx (sys w) @ [(h_fd c, encode ?m)]\<rparr>\<rparr>"
  have "os_op (rpchat_sendmsg (h_fd c) (encode ?m)) ?w1 = Some (Inr (int (length (encode ?m)), ?w2))"
    using fd by (simp add: rpchat_sendmsg_def os_send_def run_simps Let_def EPIPE_def view_simps del: encode.simps)
  then have sub: "rpchat_conn_info_submit_msg p (p_msg_buf ?a) (sz_msg_buf ?a) ?w1 = Some (Inr (RPLIB_SUCCESS, ?w2))"
    using run_load_conn [OF c1 c(2)] read
    by (simp add: rpchat_conn_info_submit_msg_def run_liftM bindM_return thenM_return run_returnM Let_def clear_stat_def
        del: encode.simps)
  let ?w3 = "?w2\<lparr>sys := (sys ?w2)\<lparr>open_fds := (open_fds (sys w))(h_fd c := False), interest := (interest (sys w))(h_fd c := None)\<rparr>\<rparr>"
  have close: "os_op (rpchat_close_connection ep (h_fd c)) ?w2 = Some (Inr (- 1, ?w3))" for ep
    using fd(1) by (simp add: rpchat_close_connection_def os_close_def os_epoll_del_def run_simps)
  have c2: "conn_map ?w2 p = Some (clear_stat c)" "conn_map ?w3 p = Some (clear_stat c)" by (simp_all add: view_simps)
  have "h_fd (clear_stat c) = h_fd c" by (simp add: clear_stat_def)
  then have "rpchat_conn_proc_error args w = Some (Inr ((- 1, ?a), ?w3))"
    using set sub close run_load_conn [OF c2(1) c(2)]
    by (simp add: rpchat_conn_proc_error_def a(1) Let_def bindM_return thenM_return run_getsM run_returnM)
  moreover have "set_status p RPCHAT_CONN_CLOSING ?w3 =
      Some (Inr ((), upd_conn p ((clear_stat c)\<lparr>conn_status := RPCHAT_CONN_CLOSING\<rparr>) ?w3))"
    using run_store_conn [OF c2(2) c(2)] by (simp add: set_status_def)
  moreover have "p_conn_info ?a = p" using a(1) by simp
  ultimately show ?thesis
    by (simp add: case_err_def bindM_return thenM_return run_returnM) (simp add: upd_conn_def)
qed

lemma ensure_msg_buf_fresh:
  assumes "heap_results (sys w) = []" and "p_msg_buf a = None"
  shows "ensure_msg_buf a (upd_conn p d w) =
    Some (Inr ((True, a\<lparr>p_msg_buf := Some \<lparr>buf_cap = RPCHAT_MAX_INCOMING_MSG, buf_bytes = uninit (sys w), buf_live = True\<rparr>\<rparr>),
      upd_conn p d w))"
  using run_malloc [of "upd_conn p d w"] assms
  by (simp add: ensure_msg_buf_def bindM_return run_getsM run_returnM view_simps)

lemma upd_conn_self: "p \<noteq> NULL \<Longrightarrow> load_conn p (upd_conn p d w) = Some (Inr (d, upd_conn p d w))"
  "p \<noteq> NULL \<Longrightarrow> store_conn p g (upd_conn p d w) = Some (Inr ((), upd_conn p (g d) w))"
  using run_load_conn [of "upd_conn p d w" p d] run_store_conn [of "upd_conn p d w" p d]
  by (simp_all add: view_simps upd_conn_twice)

lemma heartbeat_active_run:
  assumes "conn_map w p = Some c" and "p \<noteq> NULL" and "\<not> mutex_conn c"
    and "conn_status c \<noteq> RPCHAT_CONN_CLOSING" and "conn_status c \<noteq> RPCHAT_CONN_ERR" and "heap_results (sys w) = []"
    and "args_type a = RPCHAT_PROC_EVENT_HEARTBEAT" and "p_conn_info a = p" and "p_msg_buf a = None" and "args_live a"
    and "clock (sys w) - last_active c \<le> RPCHAT_CONNECTION_TIMEOUT"
  shows "rpchat_task_conn_proc_event a w = Some (Inr ((), upd_conn p (c\<lparr>pending_jobs := pending_jobs c - 1\<rparr>) w))"
proof -
  have free: "c\<lparr>pending_jobs := pending_jobs c - 1, mutex_conn := False\<rparr> = c\<lparr>pending_jobs := pending_jobs c - 1\<rparr>"
    using assms(3) by simp
  show ?thesis
    using assms(3-5,7-11) cleanup_frees [of "a\<lparr>p_msg_buf := Some b\<rparr>" for b]
    by (simp add: rpchat_task_conn_proc_event_def run_store_conn [OF assms(1,2)] trylock_conn_def upd_conn_self [OF assms(2)]
        run_simps view_simps proc_locked_def Let_def os_time_def ensure_msg_buf_fresh [OF assms(6,9)] cleanup_def
        unlock_conn_def free owns_memory_def)
qed

lemma heartbeat_silent_run:
  assumes "tpool_inv (tp w)" and "conn_map w p = Some c" and p: "p \<noteq> NULL" and "\<not> mutex_conn c"
    and "conn_status c \<noteq> RPCHAT_CONN_CLOSING" and "conn_status c \<noteq> RPCHAT_CONN_ERR"
    and "open_fds (sys w) (h_fd c)" and "send_results (sys w) = []" and "plenty 1 w"
    and a: "args_type a = RPCHAT_PROC_EVENT_HEARTBEAT" "p_conn_info a = p" "p_msg_buf a = None" "args_live a"
    and "\<not> b_terminate (tp w)" and "\<not> clock (sys w) - last_active c \<le> RPCHAT_CONNECTION_TIMEOUT"
  shows "\<exists>t a' c'. rpchat_task_conn_proc_event a w =
      Some (Inr ((), upd_conn p c' (w\<lparr>sys := (sys w)\<lparr>
        tx := tx (sys w) @ [(h_fd c, encode (Status RPCHAT_BCP_STATUS_ERROR inactivity))],
        open_fds := (open_fds (sys w))(h_fd c := False), interest := (interest (sys w))(h_fd c := None)\<rparr>, tp := t\<rparr>))) \<and>
    conn_status c' = RPCHAT_CONN_CLOSING \<and> p_conn_info a' = p \<and>
    tpool_tasks t = tpool_tasks (tp w) @ [\<lparr>p_function = Rpchat_task_conn_proc_event, p_arg = a'\<rparr>]"
proof -
  let ?c1 = "c\<lparr>pending_jobs := pending_jobs c - 1, mutex_conn := True\<rparr>"
  let ?b = "\<lparr>buf_cap = RPCHAT_MAX_INCOMING_MSG, buf_bytes = uninit (sys w), buf_live = True\<rparr>"
  let ?a = "a\<lparr>p_msg_buf := Some ?b\<rparr>" and ?m = "Status RPCHAT_BCP_STATUS_ERROR inactivity"
  let ?c2 = "?c1\<lparr>stat_msg := snprintf_str (stat_msg c) inactivity, conn_status := RPCHAT_CONN_ERR\<rparr>"
  let ?s = "(sys w)\<lparr>tx := tx (sys w) @ [(h_fd c, encode ?m)], open_fds := (open_fds (sys w))(h_fd c := False),
      interest := (interest (sys w))(h_fd c := None)\<rparr>"
  let ?c3 = "(clear_stat ?c2)\<lparr>conn_status := RPCHAT_CONN_CLOSING\<rparr>"
  let ?w3 = "upd_conn p (?c3\<lparr>mutex_conn := False\<rparr>) (w\<lparr>sys := ?s\<rparr>)"
  have u: "conn_map (upd_conn p d v) p = Some d" for d v by (simp add: view_simps)
  have heap: "heap_results (sys w) = []" using assms(9) by (simp add: plenty_def)
  have err: "case_err ?a (upd_conn p ?c2 w) =
      Some (Inr ((Goto_requeue, with_msg ?a ?b ?m), upd_conn p ?c3 ((upd_conn p ?c2 w)\<lparr>sys := ?s\<rparr>)))"
    using case_err_run [OF u p, of ?c2 ?a ?b w] assms(7,8) a(2)
    by (simp add: inactivity_str view_simps SIZEOF_PKT_STATUS_def SIZEOF_STRING_def STR_STORAGE_def
        RPCHAT_MAX_INCOMING_MSG_def del: encode.simps)
  have "plenty (Suc 0) ?w3" "tpool_inv (tp ?w3)" using assms(1,9) by (simp_all add: plenty_def view_simps)
  from enqueue_task_raw [OF this(2) u p this(1), of "with_msg ?a ?b ?m"] obtain t where
    t: "rpchat_conn_info_enqueue_task p (with_msg ?a ?b ?m) ?w3 =
        Some (Inr (RPLIB_SUCCESS, upd_conn p (count_job (?c3\<lparr>mutex_conn := False\<rparr>)) (?w3\<lparr>tp := t\<rparr>)))"
      "tpool_tasks t = tpool_tasks (tp ?w3) @ [\<lparr>p_function = Rpchat_task_conn_proc_event, p_arg = with_msg ?a ?b ?m\<rparr>]"
    by (elim exE conjE)
  have w3: "upd_conn p d ((upd_conn p e w)\<lparr>sys := s\<rparr>) = upd_conn p d (w\<lparr>sys := s\<rparr>)"
    "upd_conn p d ((upd_conn p e v)\<lparr>tp := t\<rparr>) = upd_conn p d (v\<lparr>tp := t\<rparr>)" for d e s v
    by (simp_all add: upd_conn_def)
  have "rpchat_task_conn_proc_event a w =
      Some (Inr ((), upd_conn p (count_job (?c3\<lparr>mutex_conn := False\<rparr>)) (?w3\<lparr>tp := t\<rparr>)))"
    using assms(4-6,14,15) a err t(1)
    by (simp add: rpchat_task_conn_proc_event_def run_store_conn [OF assms(2,3)] trylock_conn_def upd_conn_self [OF p]
        run_simps view_simps proc_locked_def Let_def os_time_def ensure_msg_buf_fresh [OF heap a(3)] unlock_conn_def
        proc_switch_def proc_finish_def requeue_def requeue_no_unlock_def inactivity_def [symmetric] w3(1)
        del: encode.simps)
  then show ?thesis
    using t(2) a(2) unfolding w3(2)
    by (intro exI [of _ t] exI [of _ "with_msg ?a ?b ?m"] exI [of _ "count_job (?c3\<lparr>mutex_conn := False\<rparr>)"])
      (simp add: view_simps del: encode.simps)
qed

text \<open>
  C21. The heartbeat. Handling a HEARTBEAT task of a connection that was active within the last
  \<open>RPCHAT_CONNECTION_TIMEOUT\<close> seconds only takes the job off its count. A connection that was
  silent for longer is sent a STATUS with the error code and the reason, its descriptor is closed and
  leaves the interest list, the connection is \<open>RPCHAT_CONN_CLOSING\<close> and unlocked, and the task is queued again
  to remove it (given memory and a client that still reads). It leaves \<open>RPCHAT_CONN_ERR\<close> within this task, whatever
  its number of pending jobs: only the removal waits for them, not the transition, as the README has it.
\<close>

theorem heartbeat_closes_silent_client:
  assumes "tpool_inv (tp w)" and "conn_map w p = Some c" and "p \<noteq> NULL" and "\<not> mutex_conn c"
    and "conn_status c \<noteq> RPCHAT_CONN_CLOSING" and "conn_status c \<noteq> RPCHAT_CONN_ERR"
    and "open_fds (sys w) (h_fd c)" and "send_results (sys w) = []" and "plenty 1 w"
    and "args_type a = RPCHAT_PROC_EVENT_HEARTBEAT" and "p_conn_info a = p" and "p_msg_buf a = None"
    and "args_live a" and "\<not> b_terminate (tp w)"
  shows "\<exists>w'. rpchat_task_conn_proc_event a w = Some (Inr ((), w')) \<and>
     (if clock (sys w) - last_active c \<le> RPCHAT_CONNECTION_TIMEOUT
      then queued w' = queued w \<and> sys w' = sys w \<and>
           conn_map w' = (conn_map w)(p \<mapsto> c\<lparr>pending_jobs := pending_jobs c - 1\<rparr>)
      else (\<exists>a'. queued w' = queued w @ [a'] \<and> p_conn_info a' = p) \<and>
           status w' p = Some RPCHAT_CONN_CLOSING \<and>
           \<not> open_fds (sys w') (h_fd c) \<and> interest (sys w') (h_fd c) = None \<and>
           tx (sys w') = tx (sys w) @
             [(h_fd c, encode (Status RPCHAT_BCP_STATUS_ERROR (lit ''Disconnected for inactivity.'')))])"
proof (cases "clock (sys w) - last_active c \<le> RPCHAT_CONNECTION_TIMEOUT")
  case True
  have "heap_results (sys w) = []" using assms(9) by (simp add: plenty_def)
  from heartbeat_active_run [OF assms(2-6) this assms(10-13) True] True
  show ?thesis by (simp add: view_simps)
next
  case False
  from heartbeat_silent_run [OF assms False] False
  show ?thesis by (auto simp: view_simps status_def queued_def inactivity_def simp del: encode.simps)
qed

theorem heartbeat_closes_silent_client_witness:
  "\<exists>w'. rpchat_task_conn_proc_event (demo_args RPCHAT_PROC_EVENT_HEARTBEAT)
       (demo_with RPCHAT_CONN_AVAILABLE RPCHAT_PROC_EVENT_HEARTBEAT 61 []) = Some (Inr ((), w')) \<and>
     status w' 2 = Some RPCHAT_CONN_CLOSING \<and> \<not> open_fds (sys w') 5"
proof -
  let ?w = "demo_with RPCHAT_CONN_AVAILABLE RPCHAT_PROC_EVENT_HEARTBEAT 61 []"
  have "tpool_inv (tp ?w)" using demo_with_inv [of RPCHAT_CONN_AVAILABLE RPCHAT_PROC_EVENT_HEARTBEAT 61 "[]"]
    by (simp add: srv_inv_def)
  from heartbeat_closes_silent_client [OF this, of 2 "demo_conn 5 RPCHAT_CONN_AVAILABLE [] 1"
      "demo_args RPCHAT_PROC_EVENT_HEARTBEAT"]
  show ?thesis
    by (auto simp: demo_plenty RPCHAT_CONNECTION_TIMEOUT_def) (auto simp: demo_os_def demo_args_def)
qed

subsection \<open>Removing a connection\<close>

lemma destroy_conn_info_run:
  assumes "ll_inv (conn_ll w)" and "conn_map w p = Some c" and "\<not> mutex_conn_ll (cq w)"
  shows "\<exists>w'. rpchat_conn_queue_destroy_conn_info p w = Some (Inr (RPLIB_SUCCESS, w')) \<and>
     ll_inv (conn_ll w') \<and> conn_ptrs w' = filter (\<lambda>q. q \<noteq> p) (conn_ptrs w) \<and>
     conn_map w' = (conn_map w)(p := None) \<and> \<not> mutex_conn_ll (cq w') \<and>
     tp w' = tp w \<and> sys w' = sys w"
proof -
  have p: "p \<noteq> NULL" using assms(2) ll_inv_bufs_NULL [OF assms(1)] by (cases p) (auto simp: conn_map_def)
  let ?w1 = "upd_conn p (c\<lparr>mutex_conn := False\<rparr>) w"
  let ?w2 = "ll_mutex True ?w1"
  have a: "ll_inv (conn_ll ?w2)" using ll_inv_upd [OF assms(1,2)] by (simp add: view_simps)
  have b: "conn_map ?w2 p = Some (c\<lparr>mutex_conn := False\<rparr>)" by (simp add: view_simps)
  obtain l where l: "destroy_conn_loop p (p_front (conn_ll ?w2)) ?w2 = Some (Inr (RPLIB_SUCCESS, set_ll l ?w2))"
      "ll_inv l" "map fst (ll_list l) = filter (\<lambda>q. q \<noteq> p) (conn_ptrs ?w2)" "bufs l = (conn_map ?w2)(p := None)"
    using destroy_conn_loop_run [OF a b] by (elim exE conjE)
  have "\<not> mutex_conn_ll (cq ?w1)" using assms(3) by (simp add: view_simps)
  then have "rpchat_conn_queue_destroy_conn_info p w =
      Some (Inr (RPLIB_SUCCESS, ll_mutex False (set_ll l ?w2)))"
    using run_store_conn [OF assms(2) p] lock_ll_run l(1)
    by (simp add: rpchat_conn_queue_destroy_conn_info_def unlock_conn_def unlock_ll_run bindM_return thenM_return
        run_getsM run_returnM view_simps)
  moreover have "conn_ptrs (ll_mutex False (set_ll l ?w2)) = filter (\<lambda>q. q \<noteq> p) (conn_ptrs w)"
  proof -
    have "conn_ptrs ?w2 = conn_ptrs ?w1" unfolding conn_ptrs_def by (simp add: view_simps)
    also have "\<dots> = conn_ptrs w" by (simp add: view_simps)
    finally have "conn_ptrs ?w2 = conn_ptrs w" .
    then show ?thesis using l(3) by (simp add: conn_ptrs_ll [of "ll_mutex False (set_ll l ?w2)"] view_simps)
  qed
  ultimately show ?thesis
    using l(2,4) by (simp add: view_simps)
qed

text \<open>
  C22. Removing a connection returns. On a well-formed list with a free lock the search of
  \<open>rpchat_conn_queue_destroy_conn_info\<close> ends at the connection it was given: the call returns
  \<open>RPLIB_SUCCESS\<close>, exactly this connection is gone and its memory freed, the order of the others is kept, the
  list is well-formed and its lock released. No task is queued: posting the message to the other clients, which the
  comment in the header file attributes to this call, is left to its caller.
\<close>

theorem destroy_conn_info_returns:
  assumes "ll_inv (conn_ll w)" and "conn_map w p = Some c" and "\<not> mutex_conn_ll (cq w)"
  shows "\<exists>w'. rpchat_conn_queue_destroy_conn_info p w = Some (Inr (RPLIB_SUCCESS, w')) \<and>
     ll_inv (conn_ll w') \<and> conn_ptrs w' = filter (\<lambda>q. q \<noteq> p) (conn_ptrs w) \<and>
     conn_map w' = (conn_map w)(p := None) \<and> \<not> mutex_conn_ll (cq w') \<and>
     tp w' = tp w \<and> sys w' = sys w"
  using assms by (rule destroy_conn_info_run)

theorem destroy_conn_info_returns_witness:
  "\<exists>w'. rpchat_conn_queue_destroy_conn_info 2 demo_send = Some (Inr (RPLIB_SUCCESS, w')) \<and> conn_ptrs w' = [4]"
proof -
  have "ll_inv (conn_ll demo_send)" using demo_send_inv by (simp add: srv_inv_def)
  from destroy_conn_info_returns [OF this, of 2] show ?thesis by (auto simp: demo_send_def)
qed

subsection \<open>A client that leaves\<close>

definition left_text :: "rpchat_conn_info \<Rightarrow> byte list option" where
  "left_text c = (if 0 < unat (len (username c))
     then map_option (\<lambda>u. u @ lit '' has left the server.'') (str_arg (username c))
     else Some (lit (''An unregistered user'' @ '' has left the server.'')))"

text \<open>
  C7. The end of a connection. When a connection is \<open>RPCHAT_CONN_CLOSING\<close> and none of its jobs is left, handling its
  task announces to every other connection that its user has left, removes exactly this connection from the
  list and frees it, and leaves its job without touching it again (given memory, a free list lock, a terminated
  name that fits, and no other connection that is closing or in error).
\<close>

theorem closing_announces_and_removes:
  assumes "srv_inv L w" and "conn_map w p = Some c" and "pending_jobs c = 0" and "p_conn_info args = p"
    and "left_text c = Some t" and "length t < RPCHAT_MAX_STR_LENGTH" and "sanitize_spec True t \<noteq> []"
    and "str_arg (server_str (cq w)) \<noteq> None" and "\<not> mutex_conn_ll (cq w)"
    and "plenty (length (filter (\<lambda>q. q \<noteq> p) (conn_ptrs w))) w"
    and "\<forall>q \<in> set (conn_ptrs w). q \<noteq> p \<longrightarrow> receptive w q"
  shows "\<exists>w' new. case_closing args w = Some (Inr ((Goto_cleanup_no_unlock, args), w')) \<and>
     conn_ptrs w' = filter (\<lambda>q. q \<noteq> p) (conn_ptrs w) \<and> conn_map w' p = None \<and> \<not> mutex_conn_ll (cq w') \<and>
     queued w' = queued w @ new \<and>
     map (\<lambda>a. (args_type a, p_conn_info a, payload a)) new =
       map (\<lambda>q. (RPCHAT_PROC_EVENT_OUTBOUND, q,
                 encode (Deliver (str_bytes (server_str (cq w))) (sanitize_spec True t))))
         (filter (\<lambda>q. q \<noteq> p) (conn_ptrs w))"
proof -
  have p: "p \<noteq> NULL" by (rule srv_inv_not_NULL [OF assms(1,2)])
  have m: "moves L p (conn_status c) w w" by (rule moves_start [OF assms(1,2)])
  have wf: "str_wf (server_str (cq w))" using assms(1) by (simp add: srv_inv_def)
  let ?m = "snprintf_str (stack_string 0 (sys w)) t"
  have t: "str_bytes ?m = t" using assms(6) by (rule snprintf_str_exact)
  have left: "left_msg c w = Some (Inr (?m, w))"
    using assms(5)
    by (auto simp: left_msg_def left_text_def format_msg_run uninit_string_def bindM_return run_getsM run_returnM
        split: if_splits)
  have mem: "plenty (length (filter (\<lambda>q. q \<noteq> p) (conn_ptrs w)) + 0) w" using assms(10) by simp
  obtain w1 new where w1: "rpchat_broadcast_msg p (Some (server_str (cq w))) ?m w = Some (Inr (RPLIB_SUCCESS, w1))"
      "moves L p (conn_status c) w w1" "queued w1 = queued w @ new"
      "map addressed new = deliver_all (server_str (cq w)) ?m (filter (\<lambda>q. q \<noteq> p) (conn_ptrs w))"
    using broadcast_run [OF m wf assms(8) _ assms(9) mem assms(11), of ?m] assms(7) t by auto
  obtain c1 where c1: "conn_map w1 p = Some c1" using w1(2) by (elim moves_conn)
  have "ll_inv (conn_ll w1)" "\<not> mutex_conn_ll (cq w1)"
    using w1(2) assms(9) by (simp_all add: moves_def srv_inv_def frame_def)
  from destroy_conn_info_run [OF this(1) c1 this(2)] obtain w' where
    w': "rpchat_conn_queue_destroy_conn_info p w1 = Some (Inr (RPLIB_SUCCESS, w'))"
      "conn_ptrs w' = filter (\<lambda>q. q \<noteq> p) (conn_ptrs w1)" "conn_map w' = (conn_map w1)(p := None)"
      "\<not> mutex_conn_ll (cq w')" "tp w' = tp w1"
    by blast
  have "case_closing args w = Some (Inr ((Goto_cleanup_no_unlock, args), w'))"
    using left w1(1) w'(1) assms(3,4) run_load_conn [OF assms(2) p]
    by (simp add: case_closing_def Let_def bindM_return thenM_return run_getsM run_returnM)
  moreover have "queued w' = queued w1" using w'(5) by (simp add: queued_def)
  ultimately show ?thesis
    using w'(2-4) w1(3,4) moves_ptrs [OF w1(2)] by (auto simp: addressed_eq deliver_all_def t)
qed

definition demo_leaving :: server where
  "demo_leaving = demo (demo_conn 5 RPCHAT_CONN_CLOSING [97, 109, 121, 0] 0)
     (demo_conn 6 RPCHAT_CONN_AVAILABLE [98, 111, 98, 0] 1)
     ((demo_args RPCHAT_PROC_EVENT_HEARTBEAT)\<lparr>p_conn_info := 4\<rparr>) (demo_os 0 [])"

theorem closing_announces_and_removes_witness:
  "\<exists>w' new. case_closing demo_out demo_leaving = Some (Inr ((Goto_cleanup_no_unlock, demo_out), w')) \<and>
     conn_ptrs w' = [4] \<and> queued w' = queued demo_leaving @ new \<and> map p_conn_info new = [4]"
proof -
  let ?c = "demo_conn 5 RPCHAT_CONN_CLOSING [97, 109, 121, 0] 0"
  let ?t = "[97, 109, 121] @ lit '' has left the server.''"
  have "str_arg (username ?c) = Some [97, 109, 121]"
    using c_str_store [of "[97, 109, 121]" 4096 "\<lambda>_. 0" 0]
    by (simp add: str_arg_def demo_conn_def demo_str_def STR_STORAGE_def)
  then have t: "left_text ?c = Some ?t" "length ?t < RPCHAT_MAX_STR_LENGTH" "sanitize_spec True ?t \<noteq> []"
    by (simp_all add: left_text_def RPCHAT_MAX_STR_LENGTH_def lit_def sanitize_spec_def keep_char_def filter_bounds)
      (simp add: demo_conn_def demo_str_def)
  have inv: "srv_inv {} demo_leaving"
    unfolding demo_leaving_def
    by (rule demo_inv) (simp_all add: demo_conn_ok, simp add: demo_args_def ready_def buf_ok_def)
  have w: "conn_map demo_leaving 2 = Some ?c" "conn_ptrs demo_leaving = [2, 4]" "\<not> mutex_conn_ll (cq demo_leaving)"
      "str_arg (server_str (cq demo_leaving)) \<noteq> None"
    using demo_server_str by (simp_all add: demo_leaving_def)
  have mem: "plenty (length (filter (\<lambda>q. q \<noteq> 2) (conn_ptrs demo_leaving))) demo_leaving"
    unfolding w(2) demo_leaving_def by (rule demo_plenty) simp
  have rcp: "\<forall>q \<in> set (conn_ptrs demo_leaving). q \<noteq> 2 \<longrightarrow> receptive demo_leaving q"
    by (simp add: w(2)) (simp add: demo_leaving_def receptive_def)
  from closing_announces_and_removes [OF inv w(1) _ demo_out_ready(1) t w(4,3) mem rcp] show ?thesis
    by (auto simp: w(2))
qed

end
