(* ===== verification/Chat_Register.thy ===== *)
theory Chat_Register
  imports Chat_Branches
begin

text \<open>
  The path of a REGISTER message through the server: the listing of the users, the messages
  for the new client and for everybody else, and the name the connection gets.
\<close>

subsection \<open>Listing the users\<close>

definition user_name :: "server \<Rightarrow> addr \<Rightarrow> byte list option" where
  "user_name w p = (case conn_map w p of None \<Rightarrow> None | Some c \<Rightarrow> str_arg (username c))"

text \<open>The names separated by commas.\<close>

fun listing :: "byte list list \<Rightarrow> byte list" where
  "listing [] = []"
| "listing (u # us) = u @ concat (map (\<lambda>v. lit '', '' @ v) us)"

lemma append_user_run:
  assumes "i + length text < RPCHAT_MAX_STR_LENGTH"
  shows "append_user out (int i) text = Inr (out\<lparr>contents := store_bytes (contents out) i (text @ [0])\<rparr>)"
proof -
  have "nat ((int RPCHAT_MAX_STR_LENGTH - int i) mod 2 ^ 64) = RPCHAT_MAX_STR_LENGTH - i"
    using assms by (simp add: RPCHAT_MAX_STR_LENGTH_def)
  then show ?thesis
    using assms by (simp add: append_user_def Let_def snprintf_def RPCHAT_MAX_STR_LENGTH_def STR_STORAGE_def min_def)
qed

lemma map_store_at: "map (store_bytes m i (bs @ [c])) [0..<i + length bs] = map m [0..<i] @ bs"
  by (rule nth_equalityI) (auto simp: store_bytes_nth nth_append)

text \<open>One round of the loop, then all rounds behind the first node.\<close>

lemma list_users_round:
  assumes "nodes (conn_ll w) x = Some n" and "x \<noteq> NULL" and "user_name w (p_data n) = Some u" and "p_data n \<noteq> NULL"
    and "text = (if front = x then u else lit '', '' @ u)"
  shows "list_users_loop front x out i w =
     (case append_user out i text of
        Inl e \<Rightarrow> Some (Inl e)
      | Inr out' \<Rightarrow> list_users_loop front (p_next_node n) out' (i + int (length text)) w)"
proof -
  obtain c where c: "conn_map w (p_data n) = Some c" "str_arg (username c) = Some u"
    using assms(3) by (auto simp: user_name_def split: option.splits)
  show ?thesis
    using assms(2,5) c(2) run_main_node [OF assms(1,2)] run_load_conn [OF c(1) assms(4)]
    by (cases "front = x") (subst list_users_loop.simps, simp add: bindM_return Let_def split: sum.split)+
qed

lemma list_users_step:
  assumes "nodes (conn_ll w) x = Some n" and "x \<noteq> NULL" and "user_name w (p_data n) = Some u" and "p_data n \<noteq> NULL"
    and "text = (if front = x then u else lit '', '' @ u)" and "i + length text < RPCHAT_MAX_STR_LENGTH"
  shows "list_users_loop front x out (int i) w =
     list_users_loop front (p_next_node n) (out\<lparr>contents := store_bytes (contents out) i (text @ [0])\<rparr>)
       (int (i + length text)) w"
  by (simp add: list_users_round [OF assms(1-5)] append_user_run [OF assms(6)])

lemma list_users_rest:
  assumes "ll_path (nodes (conn_ll w)) x ps NULL" and "front \<notin> set ps"
    and "map (user_name w) (map (dptr (conn_ll w)) ps) = map Some us" and "NULL \<notin> dptr (conn_ll w) ` set ps"
    and "i + length (concat (map (\<lambda>v. lit '', '' @ v) us)) < RPCHAT_MAX_STR_LENGTH"
  shows "\<exists>out'. list_users_loop front x out (int i) w =
       Some (Inr ((out', int (i + length (concat (map (\<lambda>v. lit '', '' @ v) us)))), w)) \<and>
     map (contents out') [0..<i + length (concat (map (\<lambda>v. lit '', '' @ v) us))] =
       map (contents out) [0..<i] @ concat (map (\<lambda>v. lit '', '' @ v) us)"
  using assms
proof (induction ps arbitrary: x us i out)
  case Nil
  then show ?case by (subst list_users_loop.simps) simp
next
  case (Cons a ps)
  obtain n where n: "x = a" "a \<noteq> NULL" "nodes (conn_ll w) a = Some n"
      "ll_path (nodes (conn_ll w)) (p_next_node n) ps NULL"
    using Cons.prems(1) by (elim ll_path_ConsE)
  obtain u vs where us: "us = u # vs" using Cons.prems(3) by (cases us) auto
  have d: "dptr (conn_ll w) a = p_data n" using n(3) by (simp add: dptr_def)
  let ?t = "lit '', '' @ u" and ?r = "concat (map (\<lambda>v. lit '', '' @ v) vs)"
  let ?out = "out\<lparr>contents := store_bytes (contents out) i (?t @ [0])\<rparr>"
  have len: "i + length ?t + length ?r < RPCHAT_MAX_STR_LENGTH" using Cons.prems(5) us by simp
  have step: "list_users_loop front x out (int i) w =
      list_users_loop front (p_next_node n) ?out (int (i + length ?t)) w"
    unfolding n(1)
    by (rule list_users_step [OF n(3,2), where u = u]) (use Cons.prems(2-4) d len us in auto)
  obtain out' where out': "list_users_loop front (p_next_node n) ?out (int (i + length ?t)) w =
      Some (Inr ((out', int (i + length ?t + length ?r)), w))"
      "map (contents out') [0..<i + length ?t + length ?r] = map (contents ?out) [0..<i + length ?t] @ ?r"
    using Cons.IH [OF n(4), of vs "i + length ?t" ?out] Cons.prems(2-4) len us by auto
  have "map (contents ?out) [0..<i + length ?t] = map (contents out) [0..<i] @ ?t"
    using map_store_at [of "contents out" i ?t 0] by simp
  then show ?case using step out' us by (simp add: ac_simps)
qed

lemma list_users_run:
  assumes inv: "srv_inv L w" and free: "\<not> mutex_conn_ll (cq w)"
    and names: "map (user_name w) (conn_ptrs w) = map Some us"
    and len: "unat (len out) = Suc i" "i + length (listing us) < RPCHAT_MAX_STR_LENGTH"
  shows "\<exists>out'. rpchat_conn_queue_list_users out w = Some (Inr ((RPLIB_SUCCESS, out'), w)) \<and>
     str_bytes out' = take i (str_bytes out) @ listing us"
proof -
  let ?w = "ll_mutex True w" and ?f = "p_front (conn_ll w)"
  have ll: "ll_inv (conn_ll w)" using inv by (simp add: srv_inv_def)
  then have wf: "ll_wf (conn_ll w) (ll_nodes (conn_ll w))" by (simp add: ll_inv_def)
  have unlocked: "ll_mutex False ?w = w" using free by (simp add: ll_mutex_def)
  have un: "user_name ?w = user_name w" by (simp add: user_name_def view_simps fun_eq_iff)
  have path: "ll_path (nodes (conn_ll ?w)) ?f (ll_nodes (conn_ll w)) NULL" "distinct (ll_nodes (conn_ll w))"
    using wf by (simp_all add: ll_wf_def view_simps distinct_map)
  have null: "NULL \<notin> dptr (conn_ll w) ` set (ll_nodes (conn_ll w))"
    using ll_inv_bufs_NULL [OF ll] set_ll_ptrs [OF ll] by (auto simp: ll_ptrs_def)
  have "\<exists>out'. list_users_loop ?f ?f out (int i) ?w = Some (Inr ((out', int (i + length (listing us))), ?w)) \<and>
      map (contents out') [0..<i + length (listing us)] = map (contents out) [0..<i] @ listing us"
  proof (cases "ll_nodes (conn_ll w)")
    case Nil
    then have "us = []" "?f = NULL" using names path by (auto simp: conn_ptrs_nodes)
    then show ?thesis by (subst list_users_loop.simps) simp
  next
    case (Cons a ps)
    obtain n where n: "?f = a" "a \<noteq> NULL" "nodes (conn_ll ?w) a = Some n"
        "ll_path (nodes (conn_ll ?w)) (p_next_node n) ps NULL"
      using path(1) unfolding Cons by (elim ll_path_ConsE)
    obtain u vs where us: "us = u # vs" using names Cons by (cases us) (auto simp: conn_ptrs_nodes)
    have d: "dptr (conn_ll w) a = p_data n" using n(3) by (simp add: dptr_def view_simps)
    let ?out = "out\<lparr>contents := store_bytes (contents out) i (u @ [0])\<rparr>"
    have step: "list_users_loop ?f ?f out (int i) ?w = list_users_loop ?f (p_next_node n) ?out (int (i + length u)) ?w"
      unfolding n(1)
      by (rule list_users_step [OF n(3,2), where u = u])
        (use names Cons us d un null len(2) in \<open>auto simp: conn_ptrs_nodes\<close>)
    have rest: "ll_path (nodes (conn_ll ?w)) (p_next_node n) ps NULL" "?f \<notin> set ps"
        "map (user_name ?w) (map (dptr (conn_ll ?w)) ps) = map Some vs" "NULL \<notin> dptr (conn_ll ?w) ` set ps"
        "i + length u + length (concat (map (\<lambda>v. lit '', '' @ v) vs)) < RPCHAT_MAX_STR_LENGTH"
      using n(1,4) path(2) names null len(2) Cons us un by (auto simp: conn_ptrs_nodes view_simps)
    have "map (contents ?out) [0..<i + length u] = map (contents out) [0..<i] @ u"
      using map_store_at [of "contents out" i u 0] by simp
    then show ?thesis
      using list_users_rest [OF rest, of ?out] unfolding step us by (auto simp: ac_simps)
  qed
  then obtain out' where out': "list_users_loop ?f ?f out (int i) ?w =
      Some (Inr ((out', int (i + length (listing us))), ?w))"
      "map (contents out') [0..<i + length (listing us)] = map (contents out) [0..<i] @ listing us"
    by (elim exE conjE)
  have "uint (len out) - 1 = int i" using len(1) by (simp add: uint_nat)
  moreover have l: "unat (word_of_int (int (i + length (listing us))) :: 16 word) = i + length (listing us)"
    using len(2) by (simp only: of_int_of_nat_eq) (simp add: unat_of_nat_small RPCHAT_MAX_STR_LENGTH_def del: of_nat_add)
  ultimately have "rpchat_conn_queue_list_users out w =
      Some (Inr ((RPLIB_SUCCESS, out'\<lparr>len := word_of_int (int (i + length (listing us)))\<rparr>), w))"
    using out'(1) lock_ll_run [OF free]
    by (simp add: rpchat_conn_queue_list_users_def bindM_return thenM_return run_getsM run_returnM unlock_ll_run
        unlocked view_simps del: of_nat_add)
  moreover have "take i (str_bytes out) = map (contents out) [0..<i]" using len(1) by (simp add: str_bytes_def take_map)
  ultimately show ?thesis using out'(2) l by (simp add: str_bytes_def del: of_nat_add)
qed

subsection \<open>Announcing a registration\<close>

definition welcome_text :: "byte list \<Rightarrow> byte list" where
  "welcome_text u = lit ''Logged in as '' @ u @ lit (''.'' @ NEWLINE @ ''Current Clients: '' @ NEWLINE)"

definition joined_text :: "byte list \<Rightarrow> byte list" where
  "joined_text u = u @ lit '' has joined the server.''"

lemma joined_kept: "sanitize_spec True (joined_text u) \<noteq> []" if "length u < 4000"
proof -
  have "104 \<in> set (take RPCHAT_MAX_STR_LENGTH (joined_text u))"
    using that by (simp add: joined_text_def lit_def RPCHAT_MAX_STR_LENGTH_def)
  moreover have "keep_char True 104" by (simp add: keep_char_def filter_bounds)
  ultimately show ?thesis by (auto simp: sanitize_spec_def Let_def filter_empty_conv)
qed

text \<open>What the new client is told: the welcome, and the users if there are others.\<close>

definition hello :: "byte list \<Rightarrow> byte list list \<Rightarrow> byte list" where
  "hello u us = (if 1 < length us then butlast (welcome_text u) @ listing us else welcome_text u)"

lemma length_welcome: "length (welcome_text u) = length u + 33"
  by (simp add: welcome_text_def lit_def NEWLINE_def)

lemma client_msg_run:
  assumes inv: "srv_inv L w" and free: "\<not> mutex_conn_ll (cq w)" and us: "map (user_name w) (conn_ptrs w) = map Some us"
    and len: "length (welcome_text u) + length (listing us) \<le> RPCHAT_MAX_STR_LENGTH"
      "length (welcome_text u) < RPCHAT_MAX_STR_LENGTH"
  shows "\<exists>out. (if 1 < q_size (conn_ll w)
         then bindM (rpchat_conn_queue_list_users (snprintf_str s (welcome_text u))) (\<lambda>(_, out). returnM out)
         else returnM (snprintf_str s (welcome_text u))) w = Some (Inr (out, w)) \<and>
     str_bytes out = hello u us"
proof -
  let ?m = "snprintf_str s (welcome_text u)"
  have m: "str_bytes ?m = welcome_text u" using len(2) by (rule snprintf_str_exact)
  then have l: "unat (len ?m) = Suc (length u + 32)" using length_str_bytes [of ?m] by (simp add: length_welcome)
  have "length us = length (conn_ptrs w)" using us by (metis length_map)
  then have "unat (q_size (conn_ll w)) = length us"
    using inv unat_q_size [of "conn_ll w"] by (simp add: srv_inv_def conn_ptrs_nodes ll_list_def length_ll_ptrs)
  then have n: "1 < q_size (conn_ll w) \<longleftrightarrow> 1 < length us" by (simp add: word_less_nat_alt)
  show ?thesis
  proof (cases "1 < length us")
    case True
    obtain out where "rpchat_conn_queue_list_users ?m w = Some (Inr ((RPLIB_SUCCESS, out), w))"
        "str_bytes out = take (length u + 32) (str_bytes ?m) @ listing us"
      using list_users_run [OF inv free us l] len(1) by (auto simp: length_welcome)
    with True n m show ?thesis
      by (simp add: hello_def bindM_return run_returnM butlast_conv_take length_welcome add.commute)
  next
    case False
    with n m show ?thesis by (simp add: hello_def run_returnM)
  qed
qed

lemma register_notify_run:
  assumes m: "moves L p st w0 w" and name: "str_arg name = Some u" and c: "conn_map w p = Some c"
    and us: "map (user_name w) (conn_ptrs w) = map Some us"
    and len: "length (welcome_text u) + length (listing us) \<le> RPCHAT_MAX_STR_LENGTH" "length u < 4000"
    and srv: "str_arg (server_str (cq w)) \<noteq> None" and free: "\<not> mutex_conn_ll (cq w)"
    and mem: "plenty (length (filter (\<lambda>q. q \<noteq> p) (conn_ptrs w)) + 1 + k) w"
    and rcp: "\<forall>q \<in> set (conn_ptrs w). q \<noteq> p \<longrightarrow> receptive w q"
  shows "\<exists>w' a new. register_notify p name w = Some (Inr (RPLIB_SUCCESS, w')) \<and> moves L p st w0 w' \<and>
     queued w' = queued w @ a # new \<and> plenty k w' \<and> names w' = names w \<and> waiting w' = waiting w \<and>
     addressed a = (RPCHAT_PROC_EVENT_OUTBOUND, p,
       encode (Deliver (str_bytes (server_str (cq w))) (sanitize_spec True (hello u us)))) \<and>
     map addressed new = map (\<lambda>q. (RPCHAT_PROC_EVENT_OUTBOUND, q,
       encode (Deliver (str_bytes (server_str (cq w))) (sanitize_spec True (joined_text u)))))
         (filter (\<lambda>q. q \<noteq> p) (conn_ptrs w))"
proof -
  have inv: "srv_inv L w" and wf: "str_wf (server_str (cq w))" using m by (simp_all add: moves_def srv_inv_def)
  let ?s = "(stack_string 0 (sys w))"
  let ?g = "snprintf_str ?s (joined_text u)" and ?others = "filter (\<lambda>q. q \<noteq> p) (conn_ptrs w)"
  have g: "str_bytes ?g = joined_text u"
    using len(2) by (intro snprintf_str_exact) (simp add: joined_text_def lit_def RPCHAT_MAX_STR_LENGTH_def)
  let ?M = "if 1 < q_size (conn_ll w)
         then bindM (rpchat_conn_queue_list_users (snprintf_str ?s (welcome_text u))) (\<lambda>(_, out). returnM out)
         else returnM (snprintf_str ?s (welcome_text u))"
  obtain out where out: "?M w = Some (Inr (out, w))" "str_bytes out = hello u us"
    using client_msg_run [OF inv free us len(1), of ?s] len(2)
    by (auto simp: length_welcome RPCHAT_MAX_STR_LENGTH_def)
  have mem1: "plenty (Suc (length ?others + k)) w" using mem by simp
  obtain w1 a where w1: "rpchat_conn_proc_enqueue_deliver p (server_str (cq w)) out w = Some (Inr (RPLIB_SUCCESS, w1))"
      "queued w1 = queued w @ [a]" "plenty (length ?others + k) w1"
      "addressed a = (RPCHAT_PROC_EVENT_OUTBOUND, p,
       encode (Deliver (str_bytes (server_str (cq w))) (sanitize_spec True (str_bytes out))))"
    using enqueue_deliver_run [OF inv c wf mem1] by blast
  have mb: "moves L p (conn_status c) w w1"
    using wp_D [OF wp_enqueue_deliver [OF moves_start [OF inv c] _ wf, where Q = "\<lambda>_. moves L p (conn_status c) w"] w1(1)] c
    by simp
  have m1: "moves L p st w0 w1"
    using wp_D [OF wp_enqueue_deliver [OF m _ wf, where Q = "\<lambda>_. moves L p st w0"] w1(1)] c by simp
  have same: "conn_ptrs w1 = conn_ptrs w" "\<not> mutex_conn_ll (cq w1)"
    using mb free moves_ptrs [OF mb] by (simp_all add: moves_def frame_def)
  have rcp1: "\<forall>q \<in> set (conn_ptrs w1). q \<noteq> p \<longrightarrow> receptive w1 q"
    using rcp moves_other_status [OF mb] by (simp add: same receptive_def)
  have kept: "sanitize_spec True (str_bytes ?g) \<noteq> []" using joined_kept [OF len(2)] by (simp add: g)
  obtain w' new where w': "rpchat_broadcast_msg p (Some (server_str (cq w))) ?g w1 = Some (Inr (RPLIB_SUCCESS, w'))"
      "moves L p st w0 w'" "queued w' = queued w1 @ new" "plenty k w'"
      "map addressed new = deliver_all (server_str (cq w)) ?g ?others"
    using broadcast_run [OF m1 wf srv kept same(2), of k] w1(3) rcp1 unfolding same(1) by blast
  have "names w1 = names w" "names w' = names w1"
    by (rule keepsD [OF kn.enqueue_deliver w1(1)], rule keepsD [OF kn.broadcast w'(1)])
  moreover have "waiting w1 = waiting w" "waiting w' = waiting w1"
    by (rule keepsD [OF kr.enqueue_deliver w1(1)], rule keepsD [OF kr.broadcast w'(1)])
  moreover have "format_msg [] name '' has joined the server.'' w = Some (Inr (?g, w))"
    and "format_msg ''Logged in as '' name (''.'' @ NEWLINE @ ''Current Clients: '' @ NEWLINE) w =
      Some (Inr (snprintf_str ?s (welcome_text u), w))"
    unfolding format_msg_run [OF name] welcome_text_def joined_text_def by (simp_all add: lit_def)
  then have "register_notify p name w = Some (Inr (RPLIB_SUCCESS, w'))"
    unfolding register_notify_def
    by (simp only: bindM_return bindM_return [OF run_getsM] bindM_return [where m = ?M, OF out(1)] thenM_return
        w1(1) w'(1) run_returnM)
  ultimately show ?thesis
    using w1(2,4) w'(2-5) out(2) by (auto simp: deliver_all_def g)
qed

subsection \<open>Handling a REGISTER\<close>

lemma sanitized_name:
  assumes "sanitize_spec b (str_bytes msg) = u @ [0]" and "u \<noteq> []"
  shows "str_arg (snd (snd (rpchat_string_sanitize msg out b))) = Some u"
    and "fst (rpchat_string_sanitize msg out b) = RPLIB_SUCCESS"
    and "len (snd (snd (rpchat_string_sanitize msg out b))) = word_of_nat (Suc (length u))"
proof -
  have u: "u = filter (keep_char b) (take RPCHAT_MAX_STR_LENGTH (str_bytes msg))"
    using assms by (auto simp: sanitize_spec_def Let_def split: if_splits)
  then have "0 \<notin> set u" using keep_char_nonzero by auto
  moreover have "length u \<le> RPCHAT_MAX_STR_LENGTH"
    unfolding u by (rule order_trans [OF length_filter_le]) simp
  ultimately show "str_arg (snd (snd (rpchat_string_sanitize msg out b))) = Some u"
    using assms(1) c_str_store [of u STR_STORAGE]
    by (simp add: sanitize_eq Let_def str_arg_def STR_STORAGE_def RPCHAT_MAX_STR_LENGTH_def)
qed (use assms(1) in \<open>simp_all add: sanitize_eq Let_def\<close>)

lemma handle_register_run:
  assumes m: "moves L p RPCHAT_CONN_PRE_REGISTER w0 w" and c: "conn_map w p = Some c"
    and rx: "rx (sys w) (h_fd c) = enc_string bs @ rest" and bs: "length bs \<le> RPCHAT_MAX_STR_LENGTH"
    and u: "sanitize_spec False bs = u @ [0]" "u \<noteq> []"
    and new: "case conn_ptrs w of [] \<Rightarrow> True | q # qs \<Rightarrow>
        map_option (\<lambda>c. len (username c)) (conn_map w q) \<noteq> Some (word_of_nat (Suc (length u)))"
    and us: "map (\<lambda>q. if q = p then Some u else user_name w q) (conn_ptrs w) = map Some us"
    and len: "length (welcome_text u) + length (listing us) \<le> RPCHAT_MAX_STR_LENGTH" "length u < 4000"
    and srv: "str_arg (server_str (cq w)) \<noteq> None" and free: "\<not> mutex_conn_ll (cq w)"
    and mem: "plenty (length (filter (\<lambda>q. q \<noteq> p) (conn_ptrs w)) + 1 + k) w"
    and rcp: "\<forall>q \<in> set (conn_ptrs w). q \<noteq> p \<longrightarrow> receptive w q"
  shows "\<exists>w' a ts. rpchat_handle_register p w = Some (Inr (RPLIB_SUCCESS, w')) \<and>
     moves L p RPCHAT_CONN_PRE_REGISTER w0 w' \<and> queued w' = queued w @ a # ts \<and> plenty k w' \<and>
     map_option str_bytes (names w' p) = Some (u @ [0]) \<and> waiting w' = (waiting w)(h_fd c := rest) \<and>
     addressed a = (RPCHAT_PROC_EVENT_OUTBOUND, p,
       encode (Deliver (str_bytes (server_str (cq w))) (sanitize_spec True (hello u us)))) \<and>
     map addressed ts = map (\<lambda>q. (RPCHAT_PROC_EVENT_OUTBOUND, q,
       encode (Deliver (str_bytes (server_str (cq w))) (sanitize_spec True (joined_text u)))))
         (filter (\<lambda>q. q \<noteq> p) (conn_ptrs w))"
proof -
  have fd0: "fd_of w0 p = Some (h_fd c)" and ok: "conn_ok L p c" and inv: "srv_inv L w"
    and st: "conn_status c = RPCHAT_CONN_PRE_REGISTER"
    using m c by (auto elim!: moves_conn)
  have p: "p \<noteq> NULL" using inv c by (rule srv_inv_not_NULL)
  have ne: "bs \<noteq> []" using u by (auto simp: sanitize_spec_def)
  let ?s = "\<lparr>len = word_of_nat (length bs), contents = store_bytes (contents (stack_string 0 (sys w))) 0 bs\<rparr>"
  let ?j = "(stack_string 0 (sys w))"
  let ?n = "snd (snd (rpchat_string_sanitize ?s ?j False))"
  let ?w1 = "set_rx (h_fd c) rest w"
  have recv: "recv_string p w = Some (Inr (Some ?s, ?w1))"
    by (rule recv_string_run [OF c p moves_open [OF m _ fd0] rx ne bs]) simp
  have sb: "sanitize_spec False (str_bytes ?s) = u @ [0]" using u(1) by (simp only: received_bytes [OF bs])
  note name = sanitized_name [OF sb u(2), of ?j]
  have m1: "moves L p RPCHAT_CONN_PRE_REGISTER w0 ?w1" using m fd0 by (rule moves_set_rx)
  have c1: "conn_map ?w1 p = Some c" using c by (simp add: view_simps)
  have find: "rpchat_conn_queue_find_by_username ?n ?w1 = Some (Inr (NULL, ?w1))"
    using find_by_username_run [OF moves_inv [OF m1], of ?n] free new name(3)
    by (cases "conn_ptrs w") (auto simp: view_simps)
  let ?c2 = "c\<lparr>username := ?n\<rparr>" and ?w2 = "upd_conn p (c\<lparr>username := ?n\<rparr>) ?w1"
  have store: "store_conn p (\<lambda>c. c\<lparr>username := ?n\<rparr>) ?w1 = Some (Inr ((), ?w2))"
    by (rule run_store_conn [OF c1 p])
  have m2: "moves L p RPCHAT_CONN_PRE_REGISTER w0 ?w2"
    using wp_D [OF wp_store [OF m1, where Q = "\<lambda>_. moves L p RPCHAT_CONN_PRE_REGISTER w0" and st' = RPCHAT_CONN_PRE_REGISTER] store]
    by (simp add: conn_step_def conn_ok_def sanitize_wf)
  have c2: "conn_map ?w2 p = Some ?c2" by (simp add: view_simps)
  have "user_name ?w2 = (\<lambda>q. if q = p then Some u else user_name w q)"
    using name(1) by (simp add: user_name_def view_simps fun_eq_iff)
  then have us2: "map (user_name ?w2) (conn_ptrs ?w2) = map Some us" using us by (simp add: view_simps)
  have rest2: "str_arg (server_str (cq ?w2)) \<noteq> None" "\<not> mutex_conn_ll (cq ?w2)"
      "plenty (length (filter (\<lambda>q. q \<noteq> p) (conn_ptrs ?w2)) + 1 + k) ?w2"
      "\<forall>q \<in> set (conn_ptrs ?w2). q \<noteq> p \<longrightarrow> receptive ?w2 q"
    using srv free mem rcp by (simp_all add: view_simps plenty_def receptive_def)
  obtain w' a ts where w': "register_notify p ?n ?w2 = Some (Inr (RPLIB_SUCCESS, w'))"
      "moves L p RPCHAT_CONN_PRE_REGISTER w0 w'" "queued w' = queued ?w2 @ a # ts" "plenty k w'" "names w' = names ?w2"
      "waiting w' = waiting ?w2"
      "addressed a = (RPCHAT_PROC_EVENT_OUTBOUND, p,
       encode (Deliver (str_bytes (server_str (cq ?w2))) (sanitize_spec True (hello u us))))"
      "map addressed ts = map (\<lambda>q. (RPCHAT_PROC_EVENT_OUTBOUND, q,
       encode (Deliver (str_bytes (server_str (cq ?w2))) (sanitize_spec True (joined_text u)))))
         (filter (\<lambda>q. q \<noteq> p) (conn_ptrs ?w2))"
    using register_notify_run [OF m2 name(1) c2 us2 len rest2] by (elim exE conjE)
  have "rpchat_handle_register p w = register_notify p ?n ?w2"
    using run_load_conn [OF c p] st recv name(2) find store
    by (simp add: rpchat_handle_register_def register_notify_def bindM_return thenM_return uninit_string_def run_getsM
        Let_def split_beta view_simps)
  moreover have "map_option str_bytes (names w' p) = Some (u @ [0])"
    using w'(5) sb by (simp add: names_def view_simps sanitized_bytes)
  ultimately show ?thesis using w' by (auto simp: view_simps)
qed

subsection \<open>Properties\<close>

text \<open>
  Listing the users. If everybody's name is terminated and the text fits,
  \<open>rpchat_conn_queue_list_users\<close> returns \<open>RPLIB_SUCCESS\<close>, changes nothing but its output string and appends to it the
  names of all connections in the order of the list, separated by commas; but it overwrites the last
  character of what the string held, since it starts at \<open>len - 1\<close>.
\<close>

theorem list_users_appends_names:
  assumes "srv_inv L w" and "\<not> mutex_conn_ll (cq w)"
    and "map (\<lambda>q. case conn_map w q of None \<Rightarrow> None | Some c \<Rightarrow> str_arg (username c)) (conn_ptrs w) = map Some us"
    and "0 < unat (len out)" and "unat (len out) + length (listing us) \<le> RPCHAT_MAX_STR_LENGTH"
  shows "\<exists>out'. rpchat_conn_queue_list_users out w = Some (Inr ((RPLIB_SUCCESS, out'), w)) \<and>
     str_bytes out' = butlast (str_bytes out) @ listing us"
proof -
  obtain i where i: "unat (len out) = Suc i" using assms(4) by (cases "unat (len out)") auto
  have "map (user_name w) (conn_ptrs w) = map Some us" using assms(3) unfolding user_name_def [abs_def] .
  from list_users_run [OF assms(1,2) this i] show ?thesis
    using assms(5) i by (simp add: butlast_conv_take)
qed

text \<open>
  C6. A REGISTER message. When the descriptor of a connection that is not registered yet is
  readable and holds a REGISTER with a printable name that the (length of the) first connection's name does not
  exclude, the event handler takes exactly this message off the stream (what follows it, and what waits on other
  descriptors, stays), stores the sanitized name in the connection, queues for it the welcome with the list of
  all users, the new one among them, the announcement for every other connection and
  a STATUS for the new client, in this order, and moves it to \<open>RPCHAT_CONN_SEND_STAT\<close> (given memory, a free list
  lock, terminated names, and no connection that is closing or in error).
\<close>

theorem register_announces_client:
  assumes "srv_inv L w" and "conn_map w p = Some c" and "conn_status c = RPCHAT_CONN_PRE_REGISTER"
    and "send_event p args" and "rx (sys w) (h_fd c) = encode (Register bs) @ rest"
    and "length bs \<le> RPCHAT_MAX_STR_LENGTH" and "sanitize_spec False bs = u @ [0]" and "u \<noteq> []" and "length u < 4000"
    and "case conn_ptrs w of [] \<Rightarrow> True | q # qs \<Rightarrow>
        map_option (\<lambda>c. len (username c)) (conn_map w q) \<noteq> Some (word_of_nat (Suc (length u)))"
    and "map (\<lambda>q. if q = p then Some u else user_name w q) (conn_ptrs w) = map Some us"
    and "length (welcome_text u) + length (listing us) \<le> RPCHAT_MAX_STR_LENGTH"
    and "str_arg (server_str (cq w)) \<noteq> None" and "\<not> mutex_conn_ll (cq w)"
    and "plenty (Suc (length (conn_ptrs w))) w"
    and "\<forall>q \<in> set (conn_ptrs w). q \<noteq> p \<longrightarrow> receptive w q"
  shows "\<exists>w' args' greet new reply tail c'.
     case_available args w = Some (Inr ((Break RPLIB_SUCCESS, args'), w')) \<and> srv_inv L w' \<and>
     conn_map w' p = Some c' \<and> str_bytes (username c') = u @ [0] \<and> conn_status c' = RPCHAT_CONN_SEND_STAT \<and>
     rx (sys w') = (rx (sys w))(h_fd c := rest) \<and>
     queued w' = queued w @ greet # new @ [reply] \<and>
     p_conn_info greet = p \<and>
     payload greet = encode (Deliver (str_bytes (server_str (cq w))) (sanitize_spec True (hello u us))) \<and>
     map (\<lambda>a. (args_type a, p_conn_info a, payload a)) new =
       map (\<lambda>q. (RPCHAT_PROC_EVENT_OUTBOUND, q,
                 encode (Deliver (str_bytes (server_str (cq w))) (sanitize_spec True (joined_text u)))))
         (filter (\<lambda>q. q \<noteq> p) (conn_ptrs w)) \<and>
     p_conn_info reply = p \<and> payload reply = encode (Status RPCHAT_BCP_STATUS_GOOD tail)"
proof -
  have m: "moves L p RPCHAT_CONN_PRE_REGISTER w w" using moves_start [OF assms(1,2)] assms(3) by simp
  have fd0: "fd_of w p = Some (h_fd c)" using assms(2) by (simp add: fd_of_def)
  have fd: "open_fds (sys w) (h_fd c)" using moves_open [OF m _ fd0] by simp
  have p: "p \<noteq> NULL" by (rule srv_inv_not_NULL [OF assms(1,2)])
  let ?w1 = "set_rx (h_fd c) (enc_string bs @ rest) w"
  have m1: "moves L p RPCHAT_CONN_PRE_REGISTER w ?w1" using m fd0 by (rule moves_set_rx)
  have c1: "conn_map ?w1 p = Some c" using assms(2) by (simp add: view_simps)
  have un: "user_name ?w1 = user_name w" by (simp add: user_name_def view_simps fun_eq_iff)
  have prem: "rx (sys ?w1) (h_fd c) = enc_string bs @ rest"
      "case conn_ptrs ?w1 of [] \<Rightarrow> True | q # qs \<Rightarrow>
        map_option (\<lambda>c. len (username c)) (conn_map ?w1 q) \<noteq> Some (word_of_nat (Suc (length u)))"
      "map (\<lambda>q. if q = p then Some u else user_name ?w1 q) (conn_ptrs ?w1) = map Some us"
      "str_arg (server_str (cq ?w1)) \<noteq> None" "\<not> mutex_conn_ll (cq ?w1)"
      "plenty (length (filter (\<lambda>q. q \<noteq> p) (conn_ptrs ?w1)) + 1 + 1) ?w1"
      "\<forall>q \<in> set (conn_ptrs ?w1). q \<noteq> p \<longrightarrow> receptive ?w1 q"
    unfolding view_simps un receptive_def
    using assms(10,11,13-16) others_length [OF assms(1,2)] by (simp_all add: receptive_def)
  obtain w2 a ts where w2: "rpchat_handle_register p ?w1 = Some (Inr (RPLIB_SUCCESS, w2))"
      "moves L p RPCHAT_CONN_PRE_REGISTER w w2" "queued w2 = queued w @ a # ts" "plenty 1 w2"
      "map_option str_bytes (names w2 p) = Some (u @ [0])" "waiting w2 = (waiting w)(h_fd c := rest)"
      "addressed a = (RPCHAT_PROC_EVENT_OUTBOUND, p,
       encode (Deliver (str_bytes (server_str (cq w))) (sanitize_spec True (hello u us))))"
      "map addressed ts = map (\<lambda>q. (RPCHAT_PROC_EVENT_OUTBOUND, q,
       encode (Deliver (str_bytes (server_str (cq w))) (sanitize_spec True (joined_text u)))))
         (filter (\<lambda>q. q \<noteq> p) (conn_ptrs w))"
    using handle_register_run [OF m1 c1 prem(1) assms(6-8) prem(2,3) assms(12,9) prem(4-7)]
    unfolding view_simps fun_upd_upd by (elim exE conjE)
  obtain b where b: "p_msg_buf args = Some b" "0 < buf_cap b" "buf_live b" using assms(4) by (auto simp: send_event_def)
  have "rpchat_handle_msg p (Some (b\<lparr>buf_bytes := (buf_bytes b)(0 := 1)\<rparr>)) ?w1 = Some (Inr (RPLIB_SUCCESS, w2))"
    using w2(1) b(2,3)
    by (simp add: rpchat_handle_msg_def rpchat_get_msg_type_def read_buf_def Let_def run_liftM bindM_return run_returnM)
  from inbound_opcode_run [OF assms(2) p fd assms(4) b(1) _ this] assms(5)
  obtain args' where inb: "rpchat_conn_proc_handle_inbound_msg args w = Some (Inr ((RPLIB_SUCCESS, args'), w2))"
    by auto
  obtain c2 where c2: "conn_map w2 p = Some c2" using w2(2) by (elim moves_conn)
  have ev: "args_type args = RPCHAT_PROC_EVENT_INBOUND" "p_conn_info args = p" using assms(4) by (simp_all add: send_event_def)
  have mem: "plenty (Suc 0) w2" using w2(4) by simp
  from case_available_success_run [OF ev inb w2(2) _ mem c2] obtain w' reply tail c' where
    w': "case_available args w = Some (Inr ((Break RPLIB_SUCCESS, args'), w'))"
      "moves L p RPCHAT_CONN_SEND_STAT w w'" "queued w' = queued w2 @ [reply]" "waiting w' = waiting w2"
      "addressed reply = (RPCHAT_PROC_EVENT_OUTBOUND, p, encode (Status RPCHAT_BCP_STATUS_GOOD tail))"
      "conn_map w' p = Some c'" "username c' = username c2"
    by auto
  moreover have "str_bytes (username c') = u @ [0]" using w2(5) c2 w'(7) by (simp add: names_def)
  moreover have "srv_inv L w'" "conn_status c' = RPCHAT_CONN_SEND_STAT"
    using w'(2,6) by (auto simp: moves_def status_def)
  ultimately show ?thesis
    using w2(3,6-8) by (simp add: addressed_eq) blast
qed

subsection \<open>Witnesses\<close>

definition demo_register :: server where
  "demo_register = demo (demo_conn 5 RPCHAT_CONN_PRE_REGISTER [] 1)
     (demo_conn 6 RPCHAT_CONN_AVAILABLE [98, 111, 98, 0] 0)
     demo_out (demo_os 0 (encode (Register [97, 109, 121]) @ [9]))"

lemma demo_names:
  "str_arg (username (demo_conn fd st [97, 109, 121, 0] n)) = Some [97, 109, 121]"
  "str_arg (username (demo_conn fd st [98, 111, 98, 0] n)) = Some [98, 111, 98]"
  using c_str_store [of "[97, 109, 121]" 4096 "\<lambda>_. 0" 0] c_str_store [of "[98, 111, 98]" 4096 "\<lambda>_. 0" 0]
  by (simp_all add: str_arg_def demo_conn_def demo_str_def STR_STORAGE_def)

theorem list_users_appends_names_witness:
  "\<exists>out'. rpchat_conn_queue_list_users (demo_str [58, 10]) demo_send = Some (Inr ((RPLIB_SUCCESS, out'), demo_send)) \<and>
     str_bytes out' = [58, 97, 109, 121, 44, 32, 98, 111, 98]"
proof -
  have "map (\<lambda>q. case conn_map demo_send q of None \<Rightarrow> None | Some c \<Rightarrow> str_arg (username c)) (conn_ptrs demo_send) =
      map Some [[97, 109, 121], [98, 111, 98]]"
    by (simp add: demo_send_def demo_names)
  from list_users_appends_names [OF demo_send_inv _ this, of "demo_str [58, 10]"] demo_str_bytes [of "[58, 10]"]
  show ?thesis
    by (simp add: demo_send_def demo_str_def RPCHAT_MAX_STR_LENGTH_def lit_def)
qed

theorem register_announces_client_witness:
  "\<exists>w' args' c'. case_available demo_out demo_register = Some (Inr ((Break RPLIB_SUCCESS, args'), w')) \<and>
     conn_map w' 2 = Some c' \<and> str_bytes (username c') = [97, 109, 121, 0] \<and>
     conn_status c' = RPCHAT_CONN_SEND_STAT \<and> rx (sys w') 5 = [9] \<and> length (queued w') = 4"
proof -
  let ?c = "demo_conn 5 RPCHAT_CONN_PRE_REGISTER [] 1"
  have inv: "srv_inv {} demo_register"
    unfolding demo_register_def by (rule demo_inv) (simp_all add: demo_conn_ok demo_out_ready)
  have w: "conn_map demo_register 2 = Some ?c" "conn_ptrs demo_register = [2, 4]"
      "\<not> mutex_conn_ll (cq demo_register)" "queued demo_register = [demo_out]"
      "rx (sys demo_register) 5 = encode (Register [97, 109, 121]) @ [9]"
      "str_arg (server_str (cq demo_register)) \<noteq> None"
    using demo_server_str by (simp_all add: demo_register_def) (simp add: demo_os_def)
  have mem: "plenty (Suc (length (conn_ptrs demo_register))) demo_register"
    unfolding w(2) demo_register_def by (rule demo_plenty) simp
  have rcp: "\<forall>q \<in> set (conn_ptrs demo_register). q \<noteq> 2 \<longrightarrow> receptive demo_register q"
    by (simp add: w(2)) (simp add: demo_register_def receptive_def)
  have u: "sanitize_spec False [97, 109, 121] = [97, 109, 121] @ [0]"
    by (simp add: sanitize_spec_def keep_char_def filter_bounds RPCHAT_MAX_STR_LENGTH_def)
  have new: "case conn_ptrs demo_register of [] \<Rightarrow> True | q # qs \<Rightarrow>
      map_option (\<lambda>c. len (username c)) (conn_map demo_register q) \<noteq> Some (word_of_nat (Suc (length [97, 109, 121 :: byte])))"
    by (simp add: w(1,2)) (simp add: demo_conn_def demo_str_def)
  have us: "map (\<lambda>q. if q = 2 then Some [97, 109, 121] else user_name demo_register q) (conn_ptrs demo_register) =
      map Some [[97, 109, 121], [98, 111, 98]]"
    by (simp add: w(2)) (simp add: demo_register_def user_name_def demo_names)
  have len: "length (welcome_text [97, 109, 121]) + length (listing [[97, 109, 121], [98, 111, 98]]) \<le> RPCHAT_MAX_STR_LENGTH"
    by (simp add: length_welcome RPCHAT_MAX_STR_LENGTH_def lit_def)
  obtain w' args' greet new' reply c' where "case_available demo_out demo_register = Some (Inr ((Break RPLIB_SUCCESS, args'), w'))"
      "conn_map w' 2 = Some c'" "str_bytes (username c') = [97, 109, 121] @ [0]" "conn_status c' = RPCHAT_CONN_SEND_STAT"
      "rx (sys w') = (rx (sys demo_register))(5 := [9])"
      "queued w' = queued demo_register @ greet # new' @ [reply]" "length new' = 1"
    using register_announces_client [OF inv w(1) _ demo_send_event _ _ u _ _ new us len w(6,3) mem rcp, of "[9]"] w(2,5)
    by (auto simp: RPCHAT_MAX_STR_LENGTH_def)
  then show ?thesis using w(4) by auto
qed

subsection \<open>Too many users\<close>

lemma append_user_overflow:
  assumes "RPCHAT_MAX_STR_LENGTH < i" and "0 < length text" and "i < 2 ^ 31" and "length text < 2 ^ 31"
  shows "append_user out (int i) text = Inl OutOfBounds"
proof -
  let ?d = "int RPCHAT_MAX_STR_LENGTH - int i"
  have "?d mod 2 ^ 64 = (?d + 2 ^ 64) mod 2 ^ 64" by (rule mod_add_self2 [symmetric])
  also have "\<dots> = ?d + 2 ^ 64"
    using assms(1,3) by (intro mod_pos_pos_trivial) (simp_all add: RPCHAT_MAX_STR_LENGTH_def)
  finally have sz: "nat (?d mod 2 ^ 64) = RPCHAT_MAX_STR_LENGTH + 2 ^ 64 - i"
    using assms(1,3) by (simp add: RPCHAT_MAX_STR_LENGTH_def)
  have "length text < RPCHAT_MAX_STR_LENGTH + 2 ^ 64 - i - 1" "RPCHAT_MAX_STR_LENGTH + 2 ^ 64 - i \<noteq> 0"
    using assms(3,4) by (simp_all add: RPCHAT_MAX_STR_LENGTH_def)
  then have "(if RPCHAT_MAX_STR_LENGTH + 2 ^ 64 - i = 0 then 0
      else Suc (min (RPCHAT_MAX_STR_LENGTH + 2 ^ 64 - i - 1) (length text))) = Suc (length text)"
    by (simp only: min_def if_False) simp
  then show ?thesis
    using assms(1,2) by (simp only: append_user_def Let_def sz nat_int) (simp add: STR_STORAGE_def RPCHAT_MAX_STR_LENGTH_def)
qed

lemma c_str_length: "c_str m i n = Some bs \<Longrightarrow> length bs < n"
  by (induction n arbitrary: i bs) (auto split: if_splits)

lemma user_name_length: "user_name w q = Some u \<Longrightarrow> length u < STR_STORAGE"
  by (auto simp: user_name_def str_arg_def dest: c_str_length split: option.splits)

text \<open>
  C31. A long first name makes the list of users overrun the message. When the name of the first connection
  takes the text past \<open>RPCHAT_MAX_STR_LENGTH\<close> bytes and there is a second connection,
  \<open>rpchat_conn_queue_list_users\<close> writes outside the string object: \<open>snprintf\<close> reports the length it would have
  needed, the room left becomes negative, and as a \<open>size_t\<close> it is no limit any more.
\<close>

theorem list_users_overruns:
  assumes "srv_inv L w" and "\<not> mutex_conn_ll (cq w)" and "conn_ptrs w = q1 # q2 # qs"
    and "user_name w q1 = Some u1" and "user_name w q2 = Some u2"
    and "0 < unat (len out)" and "RPCHAT_MAX_STR_LENGTH < unat (len out) - 1 + length u1"
  shows "rpchat_conn_queue_list_users out w = Some (Inl OutOfBounds)"
proof -
  let ?w = "ll_mutex True w" and ?f = "p_front (conn_ll w)"
  obtain i where i: "unat (len out) = Suc i" using assms(6) by (cases "unat (len out)") auto
  have wf: "ll_wf (conn_ll w) (ll_nodes (conn_ll w))" using assms(1) by (simp add: srv_inv_def ll_inv_def)
  obtain x y ps where xs: "ll_nodes (conn_ll w) = x # y # ps" "dptr (conn_ll w) x = q1" "dptr (conn_ll w) y = q2"
    using assms(3) by (auto simp: conn_ptrs_nodes)
  have path: "ll_path (nodes (conn_ll ?w)) ?f (x # y # ps) NULL" "x \<noteq> y"
    using wf xs(1) by (auto simp: ll_wf_def view_simps)
  obtain n where n: "?f = x" "x \<noteq> NULL" "nodes (conn_ll ?w) x = Some n"
      "ll_path (nodes (conn_ll ?w)) (p_next_node n) (y # ps) NULL"
    by (rule ll_path_ConsE [OF path(1)]) (rule that)
  from n(4) obtain n2 where n2: "p_next_node n = y" "y \<noteq> NULL" "nodes (conn_ll ?w) y = Some n2"
    by (elim ll_path_ConsE)
  have d: "p_data n = q1" "p_data n2 = q2" using xs n(3) n2(3) by (auto simp: dptr_def view_simps)
  have q: "q1 \<noteq> NULL" "q2 \<noteq> NULL"
    using assms(4,5) by (auto simp: user_name_def dest: srv_inv_not_NULL [OF assms(1)] split: option.splits)
  have un: "user_name ?w = user_name w" by (simp add: user_name_def view_simps fun_eq_iff)
  have "unat (len out) < 2 ^ LENGTH(16)" by (rule unsigned_less)
  then have bound: "i < 2 ^ 16" using i by simp
  have l: "length u1 < 4096" "length u2 < 4096"
    using user_name_length assms(4,5) by (fastforce simp: STR_STORAGE_def)+
  have over: "append_user out' (int (i + length u1)) (lit '', '' @ u2) = Inl OutOfBounds" for out'
    using assms(7) i bound l by (intro append_user_overflow) (auto simp: lit_def)
  have "list_users_loop ?f (p_next_node n) out' (int i + int (length u1)) ?w = Some (Inl OutOfBounds)" for out'
    using over [of out'] list_users_round [OF n2(3,2), of u2 "lit '', '' @ u2" ?f out' "int i + int (length u1)"]
      path(2) n(1) d q un assms(5) by (simp add: n2(1))
  moreover have "append_user out (int i) u1 = Inl e \<Longrightarrow> e = OutOfBounds" for e
    by (simp add: append_user_def Let_def split: if_splits)
  ultimately have "list_users_loop ?f ?f out (int i) ?w = Some (Inl OutOfBounds)"
    using list_users_round [OF n(3,2), of u1 u1 ?f out "int i"] n(1) d q un assms(4)
    by (cases "append_user out (int i) u1") auto
  moreover have "uint (len out) - 1 = int i" using i by (simp add: uint_nat)
  ultimately show ?thesis
    using lock_ll_run [OF assms(2)]
    by (simp add: rpchat_conn_queue_list_users_def bindM_return bindM_fault thenM_return run_getsM view_simps)
qed

theorem list_users_overruns_witness:
  "rpchat_conn_queue_list_users \<lparr>len = 4095, contents = (\<lambda>_. 65)\<rparr> demo_send = Some (Inl OutOfBounds)"
proof -
  have "user_name demo_send 2 = Some [97, 109, 121]" "user_name demo_send 4 = Some [98, 111, 98]"
    by (simp_all add: user_name_def demo_send_def demo_names)
  from list_users_overruns [OF demo_send_inv _ _ this, of "[]" "\<lparr>len = 4095, contents = (\<lambda>_. 65)\<rparr>"]
  show ?thesis by (simp add: demo_send_def RPCHAT_MAX_STR_LENGTH_def)
qed

end
