(* ===== verification/Conn_Race.thy ===== *)
theory Conn_Race
  imports Chat_Register Tpool_Props Basic_Chat
begin

text \<open>
  Interleavings inside a round or a batch, which the step relation of \<open>Chat_Server\<close> leaves out, and which break the
  invariant. In three places a thread goes on with a connection that another thread may
  have destroyed meanwhile: the second half of \<open>rpchat_conn_info_enqueue_task\<close>, which queues a task before it
  counts it in \<open>pending_jobs\<close>; the rest of \<open>rpchat_task_conn_proc_event\<close> behind its decrement of
  \<open>pending_jobs\<close>, which comes before the lock of the connection is tried; and an event of a batch whose connection was
  destroyed after \<open>epoll_wait\<close> had reported it.
\<close>

subsection \<open>The two halves of the calls\<close>

definition enqueue_queue :: "rpchat_args_proc_event \<Rightarrow> (server, int) prog" where
  "enqueue_queue args = tp_op (rplib_tpool_enqueue_task Rpchat_task_conn_proc_event args)"

definition enqueue_count :: "addr \<Rightarrow> (server, unit) prog" where
  "enqueue_count p = store_conn p (\<lambda>c. c\<lparr>pending_jobs := pending_jobs c + 1\<rparr>)"

lemma enqueue_task_halves:
  "rpchat_conn_info_enqueue_task p args =
     bindM (enqueue_queue args) (\<lambda>res.
     thenM (if res = RPLIB_SUCCESS then enqueue_count p else returnM ())
     (returnM res))"
  unfolding rpchat_conn_info_enqueue_task_def enqueue_queue_def enqueue_count_def ..

text \<open>A worker takes a task and does its first statement.\<close>

definition take_uncount :: "(server, rpchat_args_proc_event option) prog" where
  "take_uncount =
     bindM (tp_op tpool_take_task) (\<lambda>t.
     case t of
       None \<Rightarrow> returnM None
     | Some t \<Rightarrow>
         let args = p_arg t in
         thenM (use_args args)
         (thenM (store_conn (p_conn_info args) (\<lambda>c. c\<lparr>pending_jobs := pending_jobs c - 1\<rparr>))
         (returnM (Some args))))"

definition task_rest :: "rpchat_args_proc_event \<Rightarrow> (server, unit) prog" where
  "task_rest args =
     bindM (trylock_conn (p_conn_info args)) (\<lambda>r.
     if r \<noteq> RPLIB_SUCCESS then requeue_no_unlock args else proc_locked args)"

lemma worker_step_halves:
  "worker_step w =
     bindM take_uncount (\<lambda>a. case a of None \<Rightarrow> returnM False | Some a \<Rightarrow> thenM (task_rest a) (returnM True)) w"
proof -
  have "run_task t = thenM (use_args (p_arg t))
      (thenM (store_conn (p_conn_info (p_arg t)) (\<lambda>c. c\<lparr>pending_jobs := pending_jobs c - 1\<rparr>)) (task_rest (p_arg t)))" for t
    by (cases "p_function t") (simp add: run_task_def rpchat_task_conn_proc_event_def task_rest_def Let_def)
  then show ?thesis
    by (simp add: worker_step_def take_uncount_def bindM_def thenM_def returnM_def Let_def
        split: option.split sum.split prod.split)
qed

subsection \<open>The last connection leaves\<close>

lemma broadcast_alone:
  assumes "nodes (conn_ll w) (p_front (conn_ll w)) = Some n" and "p_front (conn_ll w) \<noteq> NULL"
    and "p_data n = p" and "p_next_node n = NULL" and "str_arg from = Some f"
    and "sanitize_spec True (str_bytes msg) \<noteq> []" and "\<not> mutex_conn_ll (cq w)"
  shows "\<exists>s. rpchat_broadcast_msg p (Some from) msg w = Some (Inr (RPLIB_SUCCESS, w\<lparr>sys := s\<rparr>))"
proof -
  let ?m = "snd (snd (rpchat_string_sanitize msg (stack_string 0 (sys w)) True))"
  obtain b where b: "str_arg ?m = Some b" using sanitized_arg [OF assms(6)] by blast
  obtain s where s: "os_op (os_printf (f @ lit '': '' @ b @ [10])) w = Some (Inr ((), w\<lparr>sys := s\<rparr>))"
    by (simp add: os_printf_def run_simps)
  then have pr: "printf_msg from ?m w = Some (Inr ((), w\<lparr>sys := s\<rparr>))" by (simp add: printf_msg_def assms(5) b)
  let ?w = "w\<lparr>sys := s\<rparr>"
  have free: "\<not> mutex_conn_ll (cq ?w)" and node: "nodes (conn_ll (ll_mutex True ?w)) (p_front (conn_ll w)) = Some n"
    using assms(1,7) by (simp_all add: view_simps)
  have "broadcast_loop p from ?m NULL v = Some (Inr ((), v))" for v by (subst broadcast_loop.simps) simp
  then have loop: "broadcast_loop p from ?m (p_front (conn_ll w)) (ll_mutex True ?w) = Some (Inr ((), ll_mutex True ?w))"
    using assms(2-4) run_main_node [OF node] by (subst broadcast_loop.simps) (simp add: bindM_return)
  have "ll_mutex False (ll_mutex True ?w) = ?w" using free by (simp add: ll_mutex_def)
  then have "rpchat_broadcast_msg p (Some from) msg w = Some (Inr (RPLIB_SUCCESS, ?w))"
    using pr loop lock_ll_run [OF free]
    by (simp add: rpchat_broadcast_msg_def uninit_string_def bindM_return thenM_return run_getsM run_returnM Let_def
        split_beta unlock_ll_run view_simps)
  then show ?thesis by blast
qed

lemma single_node:
  assumes "ll_inv (conn_ll w)" and "conn_ptrs w = [p]"
  obtains n where "nodes (conn_ll w) (p_front (conn_ll w)) = Some n" and "p_front (conn_ll w) \<noteq> NULL"
    and "p_data n = p" and "p_next_node n = NULL"
proof -
  obtain xs where xs: "ll_wf (conn_ll w) xs" using assms(1) by (auto simp: ll_inv_def)
  then have "map (dptr (conn_ll w)) xs = [p]" using assms(2) by (simp add: conn_ptrs_def ll_ptrs_def ll_nodes_wf)
  then show thesis using that xs by (auto simp: ll_wf_def dptr_def Cons_eq_map_conv split: option.splits)
qed

lemma last_task_run:
  assumes "ll_inv (conn_ll w)" and "conn_ptrs w = [p]" and "conn_map w p = Some c"
    and "conn_status c = RPCHAT_CONN_CLOSING" and "pending_jobs c = 1" and "\<not> mutex_conn c"
    and "left_text c = Some t" and "length t < RPCHAT_MAX_STR_LENGTH" and "sanitize_spec True t \<noteq> []"
    and "str_arg (server_str (cq w)) \<noteq> None" and "\<not> mutex_conn_ll (cq w)"
    and "args_type a = RPCHAT_PROC_EVENT_HEARTBEAT" and "p_conn_info a = p" and "p_msg_buf a \<noteq> None"
    and "owns_memory a"
  shows "\<exists>w'. rpchat_task_conn_proc_event a w = Some (Inr ((), w')) \<and> conn_map w' p = None \<and> tp w' = tp w"
proof -
  have p: "p \<noteq> NULL" using assms(3) ll_inv_bufs_NULL [OF assms(1)] by (cases p) (auto simp: conn_map_def)
  let ?c = "c\<lparr>pending_jobs := 0, mutex_conn := True\<rparr>" and ?w = "upd_conn p (c\<lparr>pending_jobs := 0, mutex_conn := True\<rparr>) w"
  let ?m = "snprintf_str (stack_string 0 (sys ?w)) t"
  have u: "conn_map (upd_conn p d v) p = Some d" for d v by (simp add: view_simps)
  note run = run_load_conn [OF u p] run_store_conn [OF u p]
  have inv: "ll_inv (conn_ll ?w)" "conn_ptrs ?w = [p]" using ll_inv_upd [OF assms(1,3)] assms(2) by (simp_all add: view_simps)
  have left: "left_msg ?c ?w = Some (Inr (?m, ?w))"
    using assms(7)
    by (auto simp: left_msg_def left_text_def format_msg_run uninit_string_def bindM_return run_getsM run_returnM
        split: if_splits)
  obtain f where f: "str_arg (server_str (cq ?w)) = Some f" using assms(10) by (auto simp: view_simps)
  have san: "sanitize_spec True (str_bytes ?m) \<noteq> []" using assms(8,9) snprintf_str_exact by simp
  have free: "\<not> mutex_conn_ll (cq ?w)" using assms(11) by (simp add: view_simps)
  obtain n where n: "nodes (conn_ll ?w) (p_front (conn_ll ?w)) = Some n" "p_front (conn_ll ?w) \<noteq> NULL"
      "p_data n = p" "p_next_node n = NULL"
    using single_node [OF inv] by blast
  obtain s where s: "rpchat_broadcast_msg p (Some (server_str (cq ?w))) ?m ?w = Some (Inr (RPLIB_SUCCESS, ?w\<lparr>sys := s\<rparr>))"
    using broadcast_alone [OF n f san free] by (elim exE)
  have "ll_inv (conn_ll (?w\<lparr>sys := s\<rparr>))" "conn_map (?w\<lparr>sys := s\<rparr>) p = Some ?c" "\<not> mutex_conn_ll (cq (?w\<lparr>sys := s\<rparr>))"
    using inv(1) assms(11) by (simp_all add: view_simps)
  from destroy_conn_info_run [OF this] obtain w' where
    w': "rpchat_conn_queue_destroy_conn_info p (?w\<lparr>sys := s\<rparr>) = Some (Inr (RPLIB_SUCCESS, w'))"
      "conn_map w' p = None" "tp w' = tp w"
    by (auto simp: view_simps)
  have "case_closing a ?w = Some (Inr ((Goto_cleanup_no_unlock, a), w'))"
    using left s w'(1) assms(13)
    by (simp add: case_closing_def Let_def run bindM_return thenM_return run_getsM run_returnM)
  moreover have "ensure_msg_buf a v = Some (Inr ((True, a), v))" for v
    using assms(14) by (auto simp: ensure_msg_buf_def run_returnM)
  ultimately have "rpchat_task_conn_proc_event a w = Some (Inr ((), w'))"
    using assms(4-6,12,13,15) cleanup_frees [OF assms(15)]
    by (simp add: rpchat_task_conn_proc_event_def run_store_conn [OF assms(3) p] trylock_conn_def run run_simps
        view_simps proc_locked_def Let_def os_time_def upd_conn_twice proc_switch_def proc_finish_def owns_memory_def)
  with w'(2,3) show ?thesis by blast
qed

lemma last_round:
  assumes "ll_inv (conn_ll w)" and "conn_ptrs w = [p]" and "conn_map w p = Some c"
    and "conn_status c = RPCHAT_CONN_CLOSING" and "pending_jobs c = 1" and "\<not> mutex_conn c"
    and "left_text c = Some t" and "length t < RPCHAT_MAX_STR_LENGTH" and "sanitize_spec True t \<noteq> []"
    and "str_arg (server_str (cq w)) \<noteq> None" and "\<not> mutex_conn_ll (cq w)"
    and "args_type a = RPCHAT_PROC_EVENT_HEARTBEAT" and "p_conn_info a = p" and "p_msg_buf a \<noteq> None"
    and "owns_memory a"
    and pool: "tpool_inv (tp w)" "\<not> mutex_task_queue (tp w)" "\<not> b_terminate (tp w)" "queued w = a # as"
  shows "\<exists>w'. worker_step w = Some (Inr (True, w')) \<and> conn_map w' p = None \<and> queued w' = as"
proof -
  obtain h hs where h: "tpool_tasks (tp w) = h # hs" "p_arg h = a" "map p_arg hs = as"
    using pool(4) by (auto simp: queued_def)
  obtain t' where t': "tpool_take_task (tp w) = Some (Inr (Some h, t'))" "tpool_tasks t' = hs"
    using tq.get_spec [OF pool(1,2)] pool(3) h(1) by auto
  let ?v = "w\<lparr>tp := t'\<rparr>"
  have v: "ll_inv (conn_ll ?v)" "conn_ptrs ?v = [p]" "conn_map ?v p = Some c"
      "str_arg (server_str (cq ?v)) \<noteq> None" "\<not> mutex_conn_ll (cq ?v)"
    using assms(1-3,10,11) by (simp_all add: view_simps)
  obtain w' where w': "rpchat_task_conn_proc_event a ?v = Some (Inr ((), w'))" "conn_map w' p = None" "tp w' = tp ?v"
    using last_task_run [OF v(1-3) assms(4-9) v(4,5) assms(12-15)] by blast
  have "worker_step w = Some (Inr (True, w'))"
    using t'(1) w'(1) h(2) by (cases "p_function h") (simp add: worker_step_def run_task_def run_simps)
  with w'(2,3) t'(2) h(3) show ?thesis by (simp add: queued_def)
qed

lemma freed_conn:
  assumes "conn_map w p = None" and "p \<noteq> NULL"
  shows "load_conn p w = Some (Inl UseAfterFree)" and "store_conn p f w = Some (Inl UseAfterFree)"
  using assms
  by (simp_all add: load_conn_def store_conn_def store_buf_def load_buf_def conn_map_def conn_ll_def run_simps)

subsection \<open>Counting comes too late\<close>

text \<open>
  C27. A task is counted after it can already be run. The invariant of the server counts a connection's queued
  tasks in \<open>pending_jobs\<close>, and a closing connection is destroyed by the task that finds the count 0. But
  \<open>rpchat_conn_info_enqueue_task\<close> queues the task first and counts it afterwards. From a state satisfying the
  invariant, in which the last task of the only, closing, connection is queued, let one thread queue
  another task for it and a worker then run the first one: the worker destroys the connection although a task for
  it is still in the queue, and the increment of the first thread writes to freed memory.
\<close>

theorem count_after_queue_races:
  assumes "srv_inv L w" and "conn_ptrs w = [p]" and "conn_map w p = Some c"
    and "conn_status c = RPCHAT_CONN_CLOSING" and "\<not> mutex_conn c"
    and "left_text c = Some t" and "length t < RPCHAT_MAX_STR_LENGTH" and "sanitize_spec True t \<noteq> []"
    and "str_arg (server_str (cq w)) \<noteq> None" and "\<not> mutex_conn_ll (cq w)"
    and "queued w = [a]" and "args_type a = RPCHAT_PROC_EVENT_HEARTBEAT" and "p_conn_info a = p"
    and "p_msg_buf a \<noteq> None" and "\<not> b_terminate (tp w)" and "plenty 1 w"
  shows "\<exists>w1 w2. enqueue_queue b w = Some (Inr (RPLIB_SUCCESS, w1)) \<and>
     worker_step w1 = Some (Inr (True, w2)) \<and> queued w2 = [b] \<and> conn_map w2 p = None \<and>
     enqueue_count p w2 = Some (Inl UseAfterFree)"
proof -
  have p: "p \<noteq> NULL" by (rule srv_inv_not_NULL [OF assms(1,3)])
  have inv: "ll_inv (conn_ll w)" "tpool_inv (tp w)" using assms(1) by (simp_all add: srv_inv_def)
  have room: "\<not> mutex_task_queue (tp w)" "ll_rooms (Suc 0) (p_queue_tasks (tp w))"
    using assms(16) by (simp_all add: plenty_def)
  have owns: "owns_memory a"
    using assms(1,11) ready_owns [OF args_ok_ready, of w a] by (simp add: srv_inv_def)
  have one: "pending_jobs c = 1" using assms(1,3,11,13) room(1) by (auto simp: srv_inv_def jobs_def)
  obtain t1 where t1: "rplib_tpool_enqueue_task Rpchat_task_conn_proc_event b (tp w) = Some (Inr (RPLIB_SUCCESS, t1))"
      "tpool_inv t1" "tpool_tasks t1 = tpool_tasks (tp w) @ [\<lparr>p_function = Rpchat_task_conn_proc_event, p_arg = b\<rparr>]"
      "\<not> mutex_task_queue t1" "\<not> b_terminate t1"
    using tq.enq_run [OF inv(2) room] assms(15) by auto
  let ?w1 = "w\<lparr>tp := t1\<rparr>"
  have "enqueue_queue b w = Some (Inr (RPLIB_SUCCESS, ?w1))" using t1(1) by (simp add: enqueue_queue_def run_simps)
  moreover have v: "ll_inv (conn_ll ?w1)" "conn_ptrs ?w1 = [p]" "conn_map ?w1 p = Some c"
      "str_arg (server_str (cq ?w1)) \<noteq> None" "\<not> mutex_conn_ll (cq ?w1)"
    using inv(1) assms(2,3,9,10) by (simp_all add: view_simps)
  have "tpool_inv (tp ?w1)" "\<not> mutex_task_queue (tp ?w1)" "\<not> b_terminate (tp ?w1)" "queued ?w1 = a # [b]"
    using t1(2-5) assms(11) by (simp_all add: queued_def)
  from last_round [OF v(1-3) assms(4) one assms(5-8) v(4,5) assms(12-14) owns this] obtain w2 where
    w2: "worker_step ?w1 = Some (Inr (True, w2))" "conn_map w2 p = None" "queued w2 = [b]"
    by blast
  moreover have "enqueue_count p w2 = Some (Inl UseAfterFree)"
    using freed_conn(2) [OF w2(2) p] by (simp add: enqueue_count_def)
  ultimately show ?thesis by blast
qed

subsection \<open>Counting down comes too early\<close>

text \<open>
  A task is no longer counted before it holds the lock. \<open>rpchat_task_conn_proc_event\<close> first decrements
  \<open>pending_jobs\<close> and then tries the lock of the connection. From a state satisfying the invariant, in which the last two
  tasks of the only, closing, connection are queued, let one worker take the first and decrement, and
  another worker then run the second: it finds the count 0 and destroys the connection, and the first worker's
  attempt to lock it reads freed memory.
\<close>

theorem uncount_before_lock_races:
  assumes "srv_inv L w" and "conn_ptrs w = [p]" and "conn_map w p = Some c"
    and "conn_status c = RPCHAT_CONN_CLOSING" and "\<not> mutex_conn c"
    and "left_text c = Some t" and "length t < RPCHAT_MAX_STR_LENGTH" and "sanitize_spec True t \<noteq> []"
    and "str_arg (server_str (cq w)) \<noteq> None" and "\<not> mutex_conn_ll (cq w)"
    and "queued w = [b, a]" and "p_conn_info b = p" and "args_type a = RPCHAT_PROC_EVENT_HEARTBEAT"
    and "p_conn_info a = p" and "p_msg_buf a \<noteq> None" and "\<not> b_terminate (tp w)" and "\<not> mutex_task_queue (tp w)"
  shows "\<exists>w1 w2. take_uncount w = Some (Inr (Some b, w1)) \<and>
     worker_step w1 = Some (Inr (True, w2)) \<and> conn_map w2 p = None \<and>
     task_rest b w2 = Some (Inl UseAfterFree)"
proof -
  have p: "p \<noteq> NULL" by (rule srv_inv_not_NULL [OF assms(1,3)])
  have inv: "ll_inv (conn_ll w)" "tpool_inv (tp w)" using assms(1) by (simp_all add: srv_inv_def)
  have owns: "owns_memory a" and live: "args_live b"
    using assms(1,11) ready_owns [OF args_ok_ready, of w a] by (simp_all add: srv_inv_def args_ok_def)
  have two: "pending_jobs c = 2" using assms(1,3,11,12,14,17) by (auto simp: srv_inv_def jobs_def)
  obtain h hs where h: "tpool_tasks (tp w) = h # hs" "p_arg h = b" "map p_arg hs = [a]"
    using assms(11) by (auto simp: queued_def)
  obtain t1 where t1: "tpool_take_task (tp w) = Some (Inr (Some h, t1))" "tpool_inv t1" "tpool_tasks t1 = hs"
      "\<not> mutex_task_queue t1" "pool_flags t1 = pool_flags (tp w)"
    using tq.get_Cons [OF inv(2) assms(17,16) h(1)] by blast
  let ?c = "c\<lparr>pending_jobs := 1\<rparr>" and ?v = "w\<lparr>tp := t1\<rparr>"
  let ?w1 = "upd_conn p ?c ?v"
  have c: "conn_map ?v p = Some c" using assms(3) by (simp add: view_simps)
  have "take_uncount w = Some (Inr (Some b, ?w1))"
    using t1(1) h(2) live assms(12) run_store_conn [OF c p, of "\<lambda>c. c\<lparr>pending_jobs := pending_jobs c - 1\<rparr>"] two
    by (simp add: take_uncount_def run_simps use_args_def)
  moreover have w1: "ll_inv (conn_ll ?w1)" "conn_ptrs ?w1 = [p]" "conn_map ?w1 p = Some ?c"
      "str_arg (server_str (cq ?w1)) \<noteq> None" "\<not> mutex_conn_ll (cq ?w1)"
    using ll_inv_upd [of ?v p c ?c] inv(1) c assms(2,9,10) by (simp_all add: view_simps)
  have w1': "tpool_inv (tp ?w1)" "\<not> mutex_task_queue (tp ?w1)" "\<not> b_terminate (tp ?w1)" "queued ?w1 = a # []"
    using t1(2-5) h(3) assms(16) by (simp_all add: view_simps queued_def)
  have "left_text ?c = left_text c" by (simp add: left_text_def)
  then have "conn_status ?c = RPCHAT_CONN_CLOSING" "pending_jobs ?c = 1" "\<not> mutex_conn ?c" "left_text ?c = Some t"
    using assms(4-6) by simp_all
  from last_round [OF w1(1-3) this assms(7,8) w1(4,5) assms(13-15) owns w1'] obtain w2 where
    w2: "worker_step ?w1 = Some (Inr (True, w2))" "conn_map w2 p = None" by blast
  moreover have "task_rest b w2 = Some (Inl UseAfterFree)"
    using freed_conn(1) [OF w2(2) p] assms(12) by (simp add: task_rest_def trylock_conn_def bindM_fault)
  ultimately show ?thesis by blast
qed

subsection \<open>An event comes too late\<close>

text \<open>
  An event of a batch whose connection is gone. While the main thread handles the events that \<open>epoll_wait\<close> reported, a
  worker may run the last task of a closing connection; the event for this connection, later in the
  same batch, still holds the address, and the main thread reads the freed object.
\<close>

theorem stale_event_races:
  assumes "srv_inv L w" and "conn_ptrs w = [p]" and "conn_map w p = Some c"
    and "conn_status c = RPCHAT_CONN_CLOSING" and "\<not> mutex_conn c"
    and "left_text c = Some t" and "length t < RPCHAT_MAX_STR_LENGTH" and "sanitize_spec True t \<noteq> []"
    and "str_arg (server_str (cq w)) \<noteq> None" and "\<not> mutex_conn_ll (cq w)"
    and "queued w = [a]" and "args_type a = RPCHAT_PROC_EVENT_HEARTBEAT"
    and "p_conn_info a = p" and "p_msg_buf a \<noteq> None" and "\<not> b_terminate (tp w)" and "\<not> mutex_task_queue (tp w)"
    and "ev_data ev = Data_ptr p"
  shows "\<exists>w2. worker_step w = Some (Inr (True, w2)) \<and> queue_event ep ev w2 = Some (Inl UseAfterFree)"
proof -
  have p: "p \<noteq> NULL" by (rule srv_inv_not_NULL [OF assms(1,3)])
  have inv: "ll_inv (conn_ll w)" "tpool_inv (tp w)" using assms(1) by (simp_all add: srv_inv_def)
  have owns: "owns_memory a"
    using assms(1,11) ready_owns [OF args_ok_ready, of w a] by (simp add: srv_inv_def)
  have one: "pending_jobs c = 1" using assms(1,3,11,13,16) by (auto simp: srv_inv_def jobs_def)
  obtain w2 where w2: "worker_step w = Some (Inr (True, w2))" "conn_map w2 p = None"
    using last_round [OF inv(1) assms(2-4) one assms(5-10,12-14) owns inv(2) assms(16,15,11)] by blast
  then show ?thesis
    using freed_conn(1) [OF w2(2) p] assms(17) by (simp add: queue_event_def bindM_fault)
qed

subsection \<open>Witnesses\<close>

abbreviation demo_old :: rpchat_args_proc_event where
  "demo_old \<equiv> (demo_args RPCHAT_PROC_EVENT_HEARTBEAT)\<lparr>p_msg_buf :=
     Some \<lparr>buf_cap = RPCHAT_MAX_INCOMING_MSG, buf_bytes = (\<lambda>_. 0), buf_live = True\<rparr>\<rparr>"

definition demo_last :: server where
  "demo_last = (demo_leaving\<lparr>cq := (cq demo_leaving)\<lparr>p_conn_ll :=
       \<lparr>q_size = 1, p_front = 1, p_rear = 1,
        nodes = [1 \<mapsto> \<lparr>p_data = 2, data_size = SIZEOF_CONN_INFO, p_next_node = NULL\<rparr>],
        bufs = [2 \<mapsto> demo_conn 5 RPCHAT_CONN_CLOSING [] 1], brk = 3, mallocs = []\<rparr>\<rparr>,
     tp := (tp demo_leaving)\<lparr>p_queue_tasks := demo_tasks demo_old\<rparr>,
     sys := (demo_os 0 [])\<lparr>interest := [3 \<mapsto> service_event 3, 7 \<mapsto> service_event 7]\<rparr>\<rparr>)"

lemma demo_last_wf: "ll_wf (conn_ll demo_last) [1]" "ll_wf (p_queue_tasks (tp demo_last)) [1]"
proof -
  show "ll_wf (conn_ll demo_last) [1]" by (auto simp: demo_last_def conn_ll_def ll_wf_def dptr_def INT_MAX_def)
  show "ll_wf (p_queue_tasks (tp demo_last)) [1]" using demo_tasks_wf by (simp add: demo_last_def)
qed

lemma demo_last_views:
  "conn_map demo_last = [2 \<mapsto> demo_conn 5 RPCHAT_CONN_CLOSING [] 1]" "conn_ptrs demo_last = [2]"
  "server_str (cq demo_last) = demo_str (lit RPCHAT_SERVER_IDENTIFIER)" "queued demo_last = [demo_old]"
  "\<not> mutex_conn_ll (cq demo_last)" "\<not> b_terminate (tp demo_last)"
  by (simp_all add: conn_ptrs_def ll_ptrs_def ll_nodes_wf [OF demo_last_wf(1)] queued_def tpool_tasks_def
      ll_list_wf [OF demo_last_wf(2)])
    (simp_all add: demo_last_def conn_map_def conn_ll_def dptr_def demo_tasks_def demo_leaving_def demo_def)

lemma demo_last_inv: "srv_inv {} demo_last" "plenty 1 demo_last"
proof -
  have "fd_inv demo_last"
    by (auto simp: fd_inv_def live_on_def demo_last_views)
      (auto simp: demo_last_def demo_os_def service_event_def split: if_splits)
  then show "srv_inv {} demo_last"
    using ll_invI [OF demo_last_wf(1)] ll_invI [OF demo_last_wf(2)] demo_server_str
    by (auto simp: srv_inv_def demo_last_views jobs_def args_ok_def demo_conn_ok)
      (simp_all add: demo_args_def ready_def buf_ok_def SIZEOF_PKT_STATUS_def SIZEOF_STRING_def STR_STORAGE_def
        RPCHAT_MAX_INCOMING_MSG_def)
  show "plenty 1 demo_last"
    by (simp add: plenty_def ll_rooms_def ll_list_wf [OF demo_last_wf(2)] INT_MAX_def)
      (simp add: demo_last_def demo_leaving_def demo_def demo_tasks_def demo_os_def)
qed

lemma demo_last_text:
  defines "t \<equiv> lit (''An unregistered user'' @ '' has left the server.'')"
  shows "left_text (demo_conn 5 RPCHAT_CONN_CLOSING [] n) = Some t" and "length t < RPCHAT_MAX_STR_LENGTH" and "sanitize_spec True t \<noteq> []"
  by (simp_all add: t_def left_text_def RPCHAT_MAX_STR_LENGTH_def lit_def sanitize_spec_def keep_char_def
      filter_bounds)
    (simp add: demo_conn_def demo_str_def)

theorem count_after_queue_races_witness:
  "\<exists>w1 w2. enqueue_queue (demo_args RPCHAT_PROC_EVENT_OUTBOUND) demo_last = Some (Inr (RPLIB_SUCCESS, w1)) \<and>
     worker_step w1 = Some (Inr (True, w2)) \<and> queued w2 = [demo_args RPCHAT_PROC_EVENT_OUTBOUND] \<and>
     conn_map w2 2 = None \<and> enqueue_count 2 w2 = Some (Inl UseAfterFree)"
proof -
  let ?c = "demo_conn 5 RPCHAT_CONN_CLOSING [] 1"
  let ?t = "lit (''An unregistered user'' @ '' has left the server.'')"
  show ?thesis
    using count_after_queue_races [OF demo_last_inv(1), of 2 ?c ?t demo_old] demo_last_text demo_server_str demo_last_inv(2)
    by (simp add: demo_last_views demo_args_def)
qed

theorem stale_event_races_witness:
  "\<exists>w2. worker_step demo_last = Some (Inr (True, w2)) \<and> queue_event 4 (conn_event 2) w2 = Some (Inl UseAfterFree)"
proof -
  have "\<not> mutex_task_queue (tp demo_last)" using demo_last_inv(2) by (simp add: plenty_def)
  then show ?thesis
    using stale_event_races [OF demo_last_inv(1), of 2 "demo_conn 5 RPCHAT_CONN_CLOSING [] 1"
        "lit (''An unregistered user'' @ '' has left the server.'')" demo_old "conn_event 2" 4] demo_last_text demo_server_str
    by (simp add: demo_last_views demo_args_def conn_event_def)
qed

text \<open>The state with a second task for the connection.\<close>

lemma demo_last_two:
  obtains w where "srv_inv {} w" and "conn_ptrs w = [2]" and "conn_map w 2 = Some (demo_conn 5 RPCHAT_CONN_CLOSING [] 2)"
    and "queued w = [demo_old, demo_old]" and "server_str (cq w) = demo_str (lit RPCHAT_SERVER_IDENTIFIER)"
    and "\<not> mutex_conn_ll (cq w)" and "\<not> b_terminate (tp w)" and "\<not> mutex_task_queue (tp w)"
proof -
  let ?c = "demo_conn 5 RPCHAT_CONN_CLOSING [] 1"
  have inv: "srv_inv {} demo_last" by (rule demo_last_inv)
  have c: "conn_map demo_last 2 = Some ?c" by (simp add: demo_last_views)
  have ok: "args_ok demo_last demo_old" using inv by (simp add: srv_inv_def demo_last_views)
  have mem: "plenty (Suc 0) demo_last" using demo_last_inv(2) by simp
  have "tpool_inv (tp demo_last)" using inv by (simp add: srv_inv_def)
  from enqueue_task_raw [OF this c _ mem, of demo_old] obtain t where
    t: "rpchat_conn_info_enqueue_task 2 demo_old demo_last =
        Some (Inr (RPLIB_SUCCESS, upd_conn 2 (count_job ?c) (demo_last\<lparr>tp := t\<rparr>)))"
      "tpool_tasks t = tpool_tasks (tp demo_last) @ [\<lparr>p_function = Rpchat_task_conn_proc_event, p_arg = demo_old\<rparr>]"
      "\<not> mutex_task_queue t"
    by auto
  let ?w = "upd_conn 2 (count_job ?c) (demo_last\<lparr>tp := t\<rparr>)"
  have pc: "p_conn_info demo_old = 2" by (simp add: demo_args_def)
  have "moves {} 2 (conn_status ?c) demo_last ?w"
    using wp_D [OF wp_enqueue_task [OF moves_start [OF inv c] _ ok, where Q = "\<lambda>_. moves {} 2 (conn_status ?c) demo_last"]
        t(1)] c unfolding pc by simp
  then have "srv_inv {} ?w" "pool_flags (tp ?w) = pool_flags (tp demo_last)" by (simp_all add: moves_def frame_def)
  moreover have "count_job ?c = demo_conn 5 RPCHAT_CONN_CLOSING [] 2" by (simp add: count_job_def demo_conn_def)
  moreover have "queued ?w = queued demo_last @ [demo_old]" using t(2) by (simp add: queued_def view_simps)
  ultimately show ?thesis
    using that [of ?w] t(3) by (simp add: view_simps demo_last_views)
qed

theorem uncount_before_lock_races_witness:
  "\<exists>w w1 w2. srv_inv {} w \<and> take_uncount w = Some (Inr (Some demo_old, w1)) \<and>
     worker_step w1 = Some (Inr (True, w2)) \<and> task_rest demo_old w2 = Some (Inl UseAfterFree)"
proof -
  let ?c = "demo_conn 5 RPCHAT_CONN_CLOSING [] 2"
  obtain w where w: "srv_inv {} w" "conn_ptrs w = [2]" "conn_map w 2 = Some ?c" "queued w = [demo_old, demo_old]"
      "server_str (cq w) = demo_str (lit RPCHAT_SERVER_IDENTIFIER)"
      "\<not> mutex_conn_ll (cq w)" "\<not> b_terminate (tp w)" "\<not> mutex_task_queue (tp w)"
    by (rule demo_last_two)
  from uncount_before_lock_races [OF w(1-3), of "lit (''An unregistered user'' @ '' has left the server.'')" demo_old demo_old]
  show ?thesis
    using w demo_last_text demo_server_str by (auto simp: demo_args_def)
qed

end
