(* ===== verification/Spec2Isabelle.thy ===== *)
theory Spec2Isabelle
  imports Ll_Queue_Props Rpchat_String Chat_Props Chat_Protocol Tpool_Props
    Server_Props Chat_Shutdown Main_Props Tpool_Refine Tpool_Stop Chat_Refine Conn_Race
begin

text \<open>
  Verification of rpchat, a chat server for the Basic Chat Protocol (\<open>chat_server.md\<close>) written in C.

  \<^bold>\<open>The program.\<close> \<open>main\<close> parses the command line, opens the log file and calls
  \<open>rpchat_begin_chat_server\<close>, which sets up a listening socket, an epoll instance, a signal descriptor, a queue of
  connections and a pool of threads, and then waits for events. A new client becomes an object in the
  connection queue. An event on a client's descriptor becomes a task for the thread pool, and the
  descriptor leaves the interest list until the task is done. A signal (SIGALRM) makes the main thread queue a heartbeat
  task for every connection. Workers take tasks in order and run \<open>rpchat_task_conn_proc_event\<close>, a state machine
  over the status of the connection: it reads REGISTER, SEND and STATUS messages, queues STATUS and DELIVER
  messages as further tasks, sends them, and closes and destroys connections. Both queues are the same
  linked list.

  \<^bold>\<open>The model.\<close> C functions are state-passing functions of type \<open>('s, 'a) prog\<close>, that is
  \<open>'s \<Rightarrow> (fault + 'a \<times> 's) option\<close>: \<open>None\<close> is a call that never returns (a loop without end, a lock that is
  held, a wait that is not signalled), \<open>Inl\<close> a fault (NULL dereferenced, memory used after it was freed or freed twice, an
  assertion that fails, an access outside a message buffer, an access outside a string object, SIGPIPE), \<open>Inr\<close> a result with the next state. Structures are
  records, enumerations datatypes, sizes and counters words of their width. The heap is explicit where
  pointers matter: list nodes and connection objects have addresses, and using a freed one is a fault. The arguments of a task
  and their message buffer, to which there is only ever one pointer, stay with that pointer and carry a
  flag that says whether they are allocated; using or freeing them when they are not is a fault too. Addresses are not
  reused, so bugs that need a freed address to be handed out again are not expressible.
  Reading \<open>data.fd\<close> of a union that holds a pointer gives the pointer's low 32 bits.
  Error results of the system calls and of \<open>malloc\<close>, the bytes that arrive, the clock and the contents of
  uninitialised memory are inputs, so the theorems hold for all of them. There is no fuel: loops that
  need not end are \<open>partial_function (option)\<close>, and where a theorem says that a call returns, its
  statement has the result.

  \<^bold>\<open>Theories and sources.\<close>
  \<^item> \<open>Rpchat_Prelude\<close>: the program type with its weakest preconditions, return codes (\<open>rplib_common.h\<close>), the
    locale \<open>step_system\<close> of step relations with an invariant and its extension \<open>simulation\<close> for those that
    implement an abstract one, facts on words and lists.
  \<^item> \<open>Ll_Queue\<close>, \<open>Ll_Queue_Props\<close>: \<open>lib/rplib/src/rplib_ll_queue.c\<close>. The locale \<open>ll_fifo\<close> is its contract,
    interpreted as \<open>lq\<close>.
  \<^item> \<open>Tpool\<close>, \<open>Tpool_Props\<close>: \<open>lib/rplib/src/rplib_tpool.c\<close>, creation and the task queue, on top of \<open>lq\<close>. The locale
    \<open>task_pool\<close> is its contract with the server, interpreted as \<open>tq\<close>.
  \<^item> \<open>Tpool_Threads\<close>, \<open>Tpool_Thread_Props\<close>: the threads of the pool and its owner, statement by statement, as the
    step relation \<open>tstep\<close> with program counters, locks and condition variables (\<open>thread_do_step\<close>, \<open>enqueue_step\<close>,
    \<open>wait_step\<close> and \<open>destroy_step\<close>, one per function). \<open>Tpool_Stop\<close>: when the pool's owner gets to join them.
    \<open>Tpool_Refine\<close>: the abstract scheduler \<open>sched_step\<close> that they implement (\<open>ts\<close>).
  \<^item> \<open>Rpchat_String\<close>: \<open>src/components/rpchat_string.c\<close>, the string object, the sanitizer, and the C library's string functions.
  \<^item> \<open>Chat_Os\<close>, \<open>Networking\<close>: the kernel's objects and \<open>src/rpchat_networking.c\<close>.
  \<^item> \<open>Bcp_Util\<close>: \<open>src/rpchat_basic_chat_util.c\<close>, message buffers, and the abstract messages with their encoding.
  \<^item> \<open>Chat_State\<close>, \<open>Conn_Queue\<close>: the state of the server, \<open>src/components/rpchat_conn_info.c\<close> and
    \<open>src/components/rpchat_conn_queue.c\<close>.
  \<^item> \<open>Process_Event\<close>: \<open>src/rpchat_process_event.c\<close>, one definition per function and per case of the \<open>switch\<close>.
  \<^item> \<open>Chat_Inv\<close>, \<open>Chat_Rules\<close>, \<open>Chat_Safety\<close>, \<open>Chat_Handlers\<close>, \<open>Chat_Task\<close>, \<open>Chat_Step\<close>, \<open>Chat_Worker\<close>: the server's
    invariant and that every handler, every case, the task and a round of a worker keep it.
  \<^item> \<open>Basic_Chat\<close>, \<open>Chat_Server\<close>: \<open>src/rpchat_basic_chat.c\<close>, the handlers of the main thread, the main loop, start
    and shutdown, and the step relation \<open>chat_step\<close> of main thread, workers and environment. What the waiting
    owner of the pool reads and which threads see the termination flag is an input here (\<open>stop_script\<close>).
  \<^item> \<open>Chat_Keeps\<close>: what the functions that queue messages leave alone, the locale \<open>kept_view\<close>, for the user names (\<open>kn\<close>)
    and the bytes to be received (\<open>kr\<close>).
  \<^item> \<open>Chat_Refine\<close>: the abstract table of connections \<open>table_step\<close> that the server implements (\<open>cs\<close>).
  \<^item> \<open>Server_Main\<close>: \<open>src/main.c\<close> and \<open>src/rpchat_file_io.c\<close>.
  \<^item> \<open>Chat_Demo\<close>: small servers on which the theorems are exercised.
  \<^item> \<open>Chat_Props\<close>, \<open>Chat_Broadcast\<close>, \<open>Chat_Send\<close>, \<open>Chat_Protocol\<close>, \<open>Chat_Branches\<close>, \<open>Chat_Register\<close>, \<open>Conn_Race\<close>,
    \<open>Server_Props\<close>, \<open>Chat_Shutdown\<close>, \<open>Main_Props\<close>: the properties.

  \<^bold>\<open>What is shown.\<close>
  \<^item> Invariants. In every state the server reaches, with the main thread's batches, the workers' rounds and the environment
    taking turns as a whole and allocations failing, the lists are well-formed, every task has its memory and points to a
    live connection, the job counts are exact and no event can be reported for a freed object; no such step faults except by
    an access outside a string object (an unterminated or overlong name) or by SIGPIPE. A round changes the status of its
    own connection only, along the edges of the code's state machine or, when a client was silent for too long, to
    \<open>RPCHAT_CONN_CLOSING\<close>. In the thread pool the queue's lock is exclusive, the counters are
    exact, tasks are taken in order and each is run by one thread, for any number of workers.
  \<^item> Functional behaviour. What is queued, sent, stored and removed when a client connects, registers, sends a
    message, is delivered one, falls silent or leaves; what the main thread does with each kind of event; the
    command line.
  \<^item> Refinement, step by step. Each step of the server from a reachable state is, seen as a list of connections with their
    status, one of the state machine: arrivals, a move along an edge, an expiry, a departure of a closing connection.
    Each step of the pool's threads is one of a scheduler that starts the oldest task while a thread is free, or none.
    The linked list is a first-in first-out queue.
  \<^item> Equivalence, round trips, bounds. The sanitizer equals a filter and stays inside its storage; STATUS
    messages decode to what was encoded; an unknown opcode is handled like a REGISTER.
  \<^item> Progress. Removal of a connection returns; while a task is queued some worker can take a step; once
    \<open>rplib_tpool_wait\<close> has returned every task is finished; a pool whose workers all sleep is joined on every schedule, and
    a server with such a pool stops on SIGINT.
  \<^item> Departures. Theorems on the branches where the code does not do what its comments or the protocol say: a
    broadcast that never ends, a failed enqueue that keeps the lock, wake-ups that are missed, a shutdown that never
    ends, a user list written past its string, a name lookup that compares lengths, unknown opcodes taken for
    registrations, a job count that is incremented too late and decremented too early, a stale event.

  \<^bold>\<open>Granularity.\<close> In \<open>chat_step\<close> a round of a worker and a call of \<open>rpchat_handle_events\<close> are single steps, and the invariant
  is one of the states between them. Inside the pool the interleaving is that of statements (\<open>tstep\<close>). Finer
  interleavings do break the invariant of the rounds; \<open>Conn_Race\<close> has three: between the two halves of
  \<open>rpchat_conn_info_enqueue_task\<close> (a task is queued before it is counted), between the decrement of \<open>pending_jobs\<close>
  and the attempt to lock the connection in \<open>rpchat_task_conn_proc_event\<close>, and between \<open>epoll_wait\<close> and the handling of an
  event whose connection a worker destroys meanwhile. That these are all is not claimed.

  \<^bold>\<open>Not modelled.\<close> Data races below these granularities and the C memory model; the debug print macro and the
  unused macros of \<open>rplib_common.h\<close>; the prototype \<open>rpchat_handle_existing_connection\<close>, which has no definition in
  the sources; the flags and layout of \<open>struct sockaddr_in\<close>, of which only the results of the calls matter to the
  server; the Python test client.
\<close>

end
